(* ===== verification/Wire.thy ===== *)
theory Wire
  imports Prelude
begin

text \<open>
  The wire protocol messages that flow through the proxy, and the connection objects it drives.

  The message types belong to the pgwire crate. The constructors below are the ones that
  \<^verbatim>\<open>msg_kind_frontend\<close> and \<^verbatim>\<open>msg_kind_backend\<close> (src/crates/pgferry/src/session.rs) enumerate, with
  the fields pgferry reads or writes; whatever else a message carries is an opaque payload that is
  only ever copied. pgwire's conversions between \<^verbatim>\<open>ErrorInfo\<close> and the fields of an
  \<^verbatim>\<open>ErrorResponse\<close> are not pgferry code: they are the parameters of type \<open>err_codec\<close>.
\<close>

section \<open>Messages\<close>

type_synonym opaque = string

datatype tx_status = Idle | InTransaction | InError

record error_info =
  severity :: string
  code :: string
  message :: string

definition error_info_new :: "string \<Rightarrow> string \<Rightarrow> string \<Rightarrow> error_info" where
  "error_info_new sev c m = \<lparr>severity = sev, code = c, message = m\<rparr>"

type_synonym err_fields = "(char \<times> string) list"

record err_codec =
  err_into :: "error_info \<Rightarrow> err_fields"
  err_from :: "err_fields \<Rightarrow> error_info"

record field_description =
  fd_name :: string
  fd_type_id :: u32
  fd_format_code :: i16

record data_row =
  row_data :: "u8 list"
  field_count :: i16

datatype ssl_negotiation = PostgresSsl | PostgresGss | SslNone

record parse_msg =
  parse_name :: "string option"
  parse_query :: string
  parse_type_oids :: "u32 list"

record startup_msg =
  startup_parameters :: "string \<rightharpoonup> string"
  protocol_major :: nat
  protocol_minor :: nat

datatype frontend_msg =
    FStartup startup_msg
  | FCancelRequest i32 "u8 list"
  | FPassword opaque
  | FSslNegotiation ssl_negotiation
  | FQuery string
  | FParse parse_msg
  | FBind "string option" opaque
  | FDescribe opaque
  | FExecute opaque
  | FClose "string option" opaque
  | FFlush
  | FSync
  | FPortalSuspended
  | FTerminate
  | FCopyData opaque
  | FCopyDone
  | FCopyFail string

datatype backend_msg =
    BSslResponse opaque
  | BGssEncResponse opaque
  | BAuthentication opaque
  | BParameterStatus string string
  | BBackendKeyData opaque
  | BNegotiateProtocolVersion nat "string list"
  | BParseComplete
  | BBindComplete
  | BCloseComplete
  | BPortalSuspended
  | BCommandComplete string
  | BEmptyQueryResponse
  | BReadyForQuery tx_status
  | BErrorResponse err_fields
  | BNoticeResponse opaque
  | BNotificationResponse opaque
  | BParameterDescription opaque
  | BRowDescription "field_description list"
  | BDataRow data_row
  | BNoData
  | BCopyData opaque
  | BCopyFail opaque
  | BCopyDone
  | BCopyInResponse opaque
  | BCopyOutResponse opaque
  | BCopyBothResponse opaque

fun msg_kind_frontend :: "frontend_msg \<Rightarrow> string" where
  "msg_kind_frontend (FStartup _) = ''Startup''"
| "msg_kind_frontend (FCancelRequest _ _) = ''CancelRequest''"
| "msg_kind_frontend (FPassword _) = ''Password''"
| "msg_kind_frontend (FSslNegotiation PostgresSsl) = ''SslRequest''"
| "msg_kind_frontend (FSslNegotiation PostgresGss) = ''GssRequest''"
| "msg_kind_frontend (FSslNegotiation SslNone) = ''SslNegotiation''"
| "msg_kind_frontend (FQuery _) = ''Query''"
| "msg_kind_frontend (FParse _) = ''Parse''"
| "msg_kind_frontend (FBind _ _) = ''Bind''"
| "msg_kind_frontend (FDescribe _) = ''Describe''"
| "msg_kind_frontend (FExecute _) = ''Execute''"
| "msg_kind_frontend (FClose _ _) = ''Close''"
| "msg_kind_frontend FFlush = ''Flush''"
| "msg_kind_frontend FSync = ''Sync''"
| "msg_kind_frontend FPortalSuspended = ''PortalSuspended''"
| "msg_kind_frontend FTerminate = ''Terminate''"
| "msg_kind_frontend (FCopyData _) = ''CopyData''"
| "msg_kind_frontend FCopyDone = ''CopyDone''"
| "msg_kind_frontend (FCopyFail _) = ''CopyFail''"

fun msg_kind_backend :: "backend_msg \<Rightarrow> string" where
  "msg_kind_backend (BSslResponse _) = ''SslResponse''"
| "msg_kind_backend (BGssEncResponse _) = ''GssEncResponse''"
| "msg_kind_backend (BAuthentication _) = ''Authentication''"
| "msg_kind_backend (BParameterStatus _ _) = ''ParameterStatus''"
| "msg_kind_backend (BBackendKeyData _) = ''BackendKeyData''"
| "msg_kind_backend (BNegotiateProtocolVersion _ _) = ''NegotiateProtocolVersion''"
| "msg_kind_backend BParseComplete = ''ParseComplete''"
| "msg_kind_backend BBindComplete = ''BindComplete''"
| "msg_kind_backend BCloseComplete = ''CloseComplete''"
| "msg_kind_backend BPortalSuspended = ''PortalSuspended''"
| "msg_kind_backend (BCommandComplete _) = ''CommandComplete''"
| "msg_kind_backend BEmptyQueryResponse = ''EmptyQueryResponse''"
| "msg_kind_backend (BReadyForQuery _) = ''ReadyForQuery''"
| "msg_kind_backend (BErrorResponse _) = ''ErrorResponse''"
| "msg_kind_backend (BNoticeResponse _) = ''NoticeResponse''"
| "msg_kind_backend (BNotificationResponse _) = ''NotificationResponse''"
| "msg_kind_backend (BParameterDescription _) = ''ParameterDescription''"
| "msg_kind_backend (BRowDescription _) = ''RowDescription''"
| "msg_kind_backend (BDataRow _) = ''DataRow''"
| "msg_kind_backend BNoData = ''NoData''"
| "msg_kind_backend (BCopyData _) = ''CopyData''"
| "msg_kind_backend (BCopyFail _) = ''CopyFail''"
| "msg_kind_backend BCopyDone = ''CopyDone''"
| "msg_kind_backend (BCopyInResponse _) = ''CopyInResponse''"
| "msg_kind_backend (BCopyOutResponse _) = ''CopyOutResponse''"
| "msg_kind_backend (BCopyBothResponse _) = ''CopyBothResponse''"

text \<open>Messages after which the server may respond without further input: they are flushed.\<close>

fun triggers_response :: "frontend_msg \<Rightarrow> bool" where
  "triggers_response (FQuery _) = True"
| "triggers_response FSync = True"
| "triggers_response FFlush = True"
| "triggers_response FTerminate = True"
| "triggers_response (FCopyData _) = True"
| "triggers_response FCopyDone = True"
| "triggers_response (FCopyFail _) = True"
| "triggers_response _ = False"

section \<open>The upstream connection\<close>

text \<open>
  \<^verbatim>\<open>PgWireClient\<close> is pgwire code over a socket to a PostgreSQL server. The model keeps the parts of
  it pgferry reads and writes: the cached server parameters, the cached transaction status and the
  backend pid. \<open>inbox\<close> is what has been delivered to the socket and not yet read; when it is used
  up, a read either ends the stream (\<open>at_eof\<close>) or waits. What the peer does is the parameter
  \<open>client_ops\<close>, over an opaque transport state \<open>wire\<close>: sending or feeding a message either fails or
  yields a new transport state and the items the peer delivers because of it, a cancel on a side
  connection may make the peer deliver items, and \<^verbatim>\<open>simple_query\<close> is a whole pgwire round trip. \<open>op_window\<close> is
  the network's speed: how many of the undelivered items reach a reader that gives up after a fixed time, the end of the
  stream counting as one more.
\<close>

datatype client_error = UnexpectedEOF | ClientError string

datatype recv = RMsg backend_msg | RErr client_error

record 's conn =
  wire :: 's
  inbox :: "recv list"
  at_eof :: bool
  process_id :: i32
  server_parameters :: "string \<rightharpoonup> string"
  transaction_status :: tx_status

record 's client_ops =
  op_send :: "'s \<Rightarrow> frontend_msg \<Rightarrow> client_error + 's \<times> recv list"
  op_feed :: "'s \<Rightarrow> frontend_msg \<Rightarrow> client_error + 's \<times> recv list"
  op_cancel :: "'s \<Rightarrow> 's \<times> recv list"
  op_simple_query :: "'s conn \<Rightarrow> string \<Rightarrow> (client_error, unit) io \<times> 's conn"
  op_show_error :: "client_error \<Rightarrow> string"
  op_window :: "'s conn \<Rightarrow> nat"

definition conn_send :: "'s client_ops \<Rightarrow> frontend_msg \<Rightarrow> 's conn \<Rightarrow> client_error option \<times> 's conn" where
  "conn_send ops m c =
     (case op_send ops (wire c) m of
        Inl e \<Rightarrow> (Some e, c)
      | Inr (w, items) \<Rightarrow> (None, c\<lparr>wire := w, inbox := inbox c @ items\<rparr>))"

definition conn_feed :: "'s client_ops \<Rightarrow> frontend_msg \<Rightarrow> 's conn \<Rightarrow> client_error option \<times> 's conn" where
  "conn_feed ops m c =
     (case op_feed ops (wire c) m of
        Inl e \<Rightarrow> (Some e, c)
      | Inr (w, items) \<Rightarrow> (None, c\<lparr>wire := w, inbox := inbox c @ items\<rparr>))"

definition conn_cancel :: "'s client_ops \<Rightarrow> 's conn \<Rightarrow> 's conn" where
  "conn_cancel ops c =
     (let (w, items) = op_cancel ops (wire c) in c\<lparr>wire := w, inbox := inbox c @ items\<rparr>)"

definition set_transaction_status :: "tx_status \<Rightarrow> 's conn \<Rightarrow> 's conn" where
  "set_transaction_status st c = c\<lparr>transaction_status := st\<rparr>"

definition set_server_parameter :: "string \<Rightarrow> string \<Rightarrow> 's conn \<Rightarrow> 's conn" where
  "set_server_parameter k v c = c\<lparr>server_parameters := (server_parameters c)(k \<mapsto> v)\<rparr>"

lemmas [io_simps] = conn_send_def conn_feed_def conn_cancel_def set_transaction_status_def
  set_server_parameter_def

lemma conn_send_fields [simp]:
  "transaction_status (snd (conn_send ops m c)) = transaction_status c"
  "server_parameters (snd (conn_send ops m c)) = server_parameters c"
  "process_id (snd (conn_send ops m c)) = process_id c"
  by (auto simp: conn_send_def split: sum.splits)

lemma conn_cancel_fields [simp]:
  "transaction_status (conn_cancel ops c) = transaction_status c"
  "server_parameters (conn_cancel ops c) = server_parameters c"
  "process_id (conn_cancel ops c) = process_id c"
  by (auto simp: conn_cancel_def split: prod.splits)

section \<open>The downstream connection\<close>

text \<open>
  The client side of a session: the messages written so far (\<open>ds_sent\<close>, oldest first), the cached
  transaction status, and what the remaining writes will return (\<open>ds_results\<close>; a write beyond the
  list succeeds). \<open>ds_closed\<close> records an explicit close.
\<close>

record downstream =
  ds_sent :: "backend_msg list"
  ds_status :: tx_status
  ds_results :: "bool list"
  ds_closed :: bool

definition ds_send :: "backend_msg \<Rightarrow> downstream \<Rightarrow> bool \<times> downstream" where
  "ds_send m d =
     (case ds_results d of
        [] \<Rightarrow> (True, d\<lparr>ds_sent := ds_sent d @ [m]\<rparr>)
      | True # bs \<Rightarrow> (True, d\<lparr>ds_sent := ds_sent d @ [m], ds_results := bs\<rparr>)
      | False # bs \<Rightarrow> (False, d\<lparr>ds_results := bs\<rparr>))"

text \<open>Write several messages in order, stopping at the first failed write.\<close>

fun ds_send_all :: "backend_msg list \<Rightarrow> downstream \<Rightarrow> bool \<times> downstream" where
  "ds_send_all [] d = (True, d)"
| "ds_send_all (m # ms) d =
     (case ds_send m d of (True, d') \<Rightarrow> ds_send_all ms d' | (False, d') \<Rightarrow> (False, d'))"

definition send_ready_for_query :: "tx_status \<Rightarrow> downstream \<Rightarrow> bool \<times> downstream" where
  "send_ready_for_query st d = ds_send (BReadyForQuery st) d"

definition ds_set_status :: "tx_status \<Rightarrow> downstream \<Rightarrow> downstream" where
  "ds_set_status st d = d\<lparr>ds_status := st\<rparr>"

lemma ds_send_True: "ds_send m d = (True, d') \<Longrightarrow> ds_sent d' = ds_sent d @ [m]"
  by (auto simp: ds_send_def split: list.splits bool.splits)

lemma ds_send_False: "ds_send m d = (False, d') \<Longrightarrow> ds_sent d' = ds_sent d"
  by (auto simp: ds_send_def split: list.splits bool.splits)

lemma ds_send_status: "ds_send m d = (b, d') \<Longrightarrow> ds_status d' = ds_status d \<and> ds_closed d' = ds_closed d"
  by (auto simp: ds_send_def split: list.splits bool.splits)

lemma ds_send_healthy [simp]:
  "ds_results d = [] \<Longrightarrow> ds_send m d = (True, d\<lparr>ds_sent := ds_sent d @ [m]\<rparr>)"
  by (simp add: ds_send_def)

lemma ds_send_all_healthy [simp]:
  "ds_results d = [] \<Longrightarrow> ds_send_all ms d = (True, d\<lparr>ds_sent := ds_sent d @ ms\<rparr>)"
  by (induction ms arbitrary: d) auto

lemma ds_send_all_True: "ds_send_all ms d = (True, d') \<Longrightarrow> ds_sent d' = ds_sent d @ ms"
proof (induction ms arbitrary: d)
  case Nil
  then show ?case by simp
next
  case (Cons m ms)
  then obtain d1 where "ds_send m d = (True, d1)" and "ds_send_all ms d1 = (True, d')"
    by (auto split: prod.splits bool.splits)
  with Cons.IH show ?case by (auto dest: ds_send_True)
qed

lemma ds_send_all_prefix:
  "ds_send_all ms d = (b, d') \<Longrightarrow> \<exists>k. ds_sent d' = ds_sent d @ take k ms"
proof (induction ms arbitrary: d)
  case Nil
  then show ?case by auto
next
  case (Cons m ms)
  obtain b1 d1 where s: "ds_send m d = (b1, d1)" by fastforce
  show ?case
  proof (cases b1)
    case True
    with s Cons.prems have "ds_send_all ms d1 = (b, d')" by simp
    then obtain k where "ds_sent d' = ds_sent d1 @ take k ms" using Cons.IH by blast
    moreover have "ds_sent d1 = ds_sent d @ [m]" using s True by (auto dest: ds_send_True)
    ultimately have "ds_sent d' = ds_sent d @ take (Suc k) (m # ms)" by simp
    then show ?thesis by blast
  next
    case False
    with s Cons.prems have "ds_sent d' = ds_sent d @ take 0 (m # ms)" by (auto dest: ds_send_False)
    then show ?thesis by blast
  qed
qed

end
