(* ===== verification/Config.thy ===== *)
theory Config
  imports Prelude
begin

text \<open>
  Configuration data (src/crates/pgferry/src/config.rs and the configuration part of pool.rs):
  endpoints, routes, pool tuning and pool keys. A \<^verbatim>\<open>Duration\<close> is a number of nanoseconds, an
  \<^verbatim>\<open>Instant\<close> the nanoseconds since an arbitrary origin, so \<^verbatim>\<open>elapsed\<close> and \<^verbatim>\<open>duration_since\<close> are
  truncated differences, as the saturating standard library operations are.
\<close>

type_synonym duration = nat
type_synonym instant = nat
type_synonym endpoint_id = string

definition from_secs :: "nat \<Rightarrow> duration" where
  "from_secs n = n * 1000000000"

definition from_millis :: "nat \<Rightarrow> duration" where
  "from_millis n = n * 1000000"

definition elapsed :: "instant \<Rightarrow> instant \<Rightarrow> duration" where
  "elapsed now since = now - since"

datatype config_error = ListenAddr string string | Missing string | TlsError string

record server_tls_config =
  tls_cert :: string
  tls_key :: string

record upstream_tls_config =
  tls_ca :: "string option"
  tls_insecure :: bool

definition upstream_tls_default :: upstream_tls_config where
  "upstream_tls_default = \<lparr>tls_ca = None, tls_insecure = False\<rparr>"

record endpoint_config =
  ep_id :: endpoint_id
  ep_upstream :: string
  ep_password :: "string option"
  ep_tls :: "upstream_tls_config option"

record route_config =
  route_name :: string
  route_endpoints :: "endpoint_config list"
  route_password :: "string option"
  route_tls :: upstream_tls_config

text \<open>\<^verbatim>\<open>RouteConfig::endpoint\<close>: the first endpoint with that id.\<close>

definition route_endpoint :: "route_config \<Rightarrow> endpoint_id \<Rightarrow> endpoint_config option" where
  "route_endpoint r i = List.find (\<lambda>e. ep_id e = i) (route_endpoints r)"

datatype pool_mode = SessionMode | TransactionMode

record pool_config =
  pool_mode :: pool_mode
  max_size :: nat
  idle_timeout :: duration
  max_lifetime :: duration
  stale_after :: duration
  sweep_interval :: duration

definition pool_config_default :: pool_config where
  "pool_config_default =
     \<lparr>pool_mode = SessionMode, max_size = 16, idle_timeout = from_secs 600,
      max_lifetime = from_secs 3600, stale_after = from_secs 30, sweep_interval = from_secs 15\<rparr>"

record pool_key =
  key_route :: string
  key_endpoint :: string
  key_user :: string
  key_database :: "string option"

record proxy_config =
  listen_addr :: string
  proxy_route :: route_config
  proxy_pool :: pool_config
  proxy_max_client_conn :: nat
  proxy_admin_database :: "string option"
  proxy_metrics_addr :: "string option"
  proxy_tls_server :: "server_tls_config option"
  proxy_shutdown_drain :: duration

lemma route_endpoint_Some:
  "route_endpoint r i = Some e \<Longrightarrow> e \<in> set (route_endpoints r) \<and> ep_id e = i"
  unfolding route_endpoint_def by (drule find_Some_in_set) simp

lemma route_endpoint_None:
  "route_endpoint r i = None \<longleftrightarrow> i \<notin> ep_id ` set (route_endpoints r)"
  by (auto simp: route_endpoint_def find_None_all)

lemma route_endpoint_first:
  "route_endpoints r = e # es \<Longrightarrow> route_endpoint r (ep_id e) = Some e"
  by (simp add: route_endpoint_def)

lemma route_endpoint_mem:
  assumes "e \<in> set (route_endpoints r)"
  shows "\<exists>e'. route_endpoint r (ep_id e) = Some e' \<and> ep_id e' = ep_id e"
proof (cases "route_endpoint r (ep_id e)")
  case None
  with assms show ?thesis by (simp add: route_endpoint_None)
next
  case (Some e')
  then show ?thesis by (blast dest: route_endpoint_Some)
qed

end
