(* ===== verification/Pool.thy ===== *)
theory Pool
  imports Wire Config
begin

text \<open>
  The upstream connection pool (src/crates/pgferry/src/pool.rs): state, metrics, the hygiene helpers
  that bring a connection back to a neutral state, checkout, the two ways of checking in, destroy,
  the sweeper and the pool registry. Each operation is a function on the pool; interleavings of the
  operations are the subject of theory \<open>Pool_System\<close>.

  Time and fresh connections come from outside: \<open>clock n\<close> is the n-th reading of the monotonic clock
  and \<open>connect n\<close> the outcome of a connection attempt made at that point; an operation takes the
  number of readings made so far and returns the next one. A semaphore permit is held exactly while
  a lease (or a checkout in progress) exists; \<open>p_permits\<close> counts the permits left.
\<close>

section \<open>Constants and data\<close>

definition SANITIZE_TIMEOUT :: duration where "SANITIZE_TIMEOUT = from_secs 30"
definition PROBE_TIMEOUT :: duration where "PROBE_TIMEOUT = from_secs 5"
definition CANCEL_DRAIN_TIMEOUT :: duration where "CANCEL_DRAIN_TIMEOUT = from_millis 250"

definition TRACKED_STARTUP_PARAMETERS :: "string list" where
  "TRACKED_STARTUP_PARAMETERS = [''application_name'', ''client_encoding'']"

datatype copy_cleanup = NoCopy | ClientOwesCopy | ServerStreamsCopy

record hygiene =
  awaiting_response :: bool
  copy :: copy_cleanup

definition hygiene_default :: hygiene where
  "hygiene_default = \<lparr>awaiting_response = False, copy = NoCopy\<rparr>"

record pool_metrics =
  m_checkouts :: u64
  m_reused :: u64
  m_created :: u64
  m_checked_in :: u64
  m_dropped :: u64
  m_probed :: u64
  m_evicted :: u64
  m_active :: i64
  m_waiting :: i64

definition metrics_default :: pool_metrics where
  "metrics_default = \<lparr>m_checkouts = 0, m_reused = 0, m_created = 0, m_checked_in = 0, m_dropped = 0,
     m_probed = 0, m_evicted = 0, m_active = 0, m_waiting = 0\<rparr>"

record 's parked =
  pk_conn :: "'s conn"
  pk_idle_since :: instant
  pk_created_at :: instant

text \<open>What a connect factory captures: the arguments of \<^verbatim>\<open>upstream::connect_parts\<close>.\<close>

record connect_args =
  ca_connstring :: string
  ca_user :: string
  ca_database :: "string option"
  ca_password :: "string option"
  ca_tls :: upstream_tls_config

record 's pool =
  p_key :: pool_key
  p_config :: pool_config
  p_permits :: nat
  p_idle :: "'s parked list"
  p_baseline :: "(string \<rightharpoonup> string) option"
  p_connect :: connect_args
  p_metrics :: pool_metrics

record 's lease =
  l_conn :: "'s conn"
  l_created_at :: instant

definition capacity :: "pool_config \<Rightarrow> nat" where
  "capacity cfg = max (max_size cfg) 1"

definition pool_new :: "pool_key \<Rightarrow> pool_config \<Rightarrow> connect_args \<Rightarrow> 's pool" where
  "pool_new key cfg connect =
     \<lparr>p_key = key, p_config = cfg, p_permits = capacity cfg, p_idle = [], p_baseline = None,
      p_connect = connect, p_metrics = metrics_default\<rparr>"

definition idle_len :: "'s pool \<Rightarrow> nat" where
  "idle_len p = length (p_idle p)"

definition pool_max_size :: "'s pool \<Rightarrow> nat" where
  "pool_max_size p = max_size (p_config p)"

section \<open>Bookkeeping primitives\<close>

definition upd_metrics :: "(pool_metrics \<Rightarrow> pool_metrics) \<Rightarrow> 's pool \<Rightarrow> 's pool" where
  "upd_metrics f p = p\<lparr>p_metrics := f (p_metrics p)\<rparr>"

definition add_waiting :: "i64 \<Rightarrow> 's pool \<Rightarrow> 's pool" where
  "add_waiting n = upd_metrics (\<lambda>m. m\<lparr>m_waiting := m_waiting m + n\<rparr>)"

definition add_active :: "i64 \<Rightarrow> 's pool \<Rightarrow> 's pool" where
  "add_active n = upd_metrics (\<lambda>m. m\<lparr>m_active := m_active m + n\<rparr>)"

definition inc_evicted :: "u64 \<Rightarrow> 's pool \<Rightarrow> 's pool" where
  "inc_evicted n = upd_metrics (\<lambda>m. m\<lparr>m_evicted := m_evicted m + n\<rparr>)"

definition inc_dropped :: "'s pool \<Rightarrow> 's pool" where
  "inc_dropped = upd_metrics (\<lambda>m. m\<lparr>m_dropped := m_dropped m + 1\<rparr>)"

definition inc_probed :: "'s pool \<Rightarrow> 's pool" where
  "inc_probed = upd_metrics (\<lambda>m. m\<lparr>m_probed := m_probed m + 1\<rparr>)"

definition inc_created :: "'s pool \<Rightarrow> 's pool" where
  "inc_created = upd_metrics (\<lambda>m. m\<lparr>m_created := m_created m + 1\<rparr>)"

definition inc_checked_in :: "'s pool \<Rightarrow> 's pool" where
  "inc_checked_in = upd_metrics (\<lambda>m. m\<lparr>m_checked_in := m_checked_in m + 1\<rparr>)"

definition take_permit :: "'s pool \<Rightarrow> 's pool" where
  "take_permit p = p\<lparr>p_permits := p_permits p - 1\<rparr>"

definition release_permit :: "'s pool \<Rightarrow> 's pool" where
  "release_permit p = p\<lparr>p_permits := p_permits p + 1\<rparr>"

definition park :: "'s conn \<Rightarrow> instant \<Rightarrow> instant \<Rightarrow> 's pool \<Rightarrow> 's pool" where
  "park c now created p =
     p\<lparr>p_idle := p_idle p @ [\<lparr>pk_conn = c, pk_idle_since = now, pk_created_at = created\<rparr>]\<rparr>"

lemmas [pool_simps] = upd_metrics_def add_waiting_def add_active_def inc_evicted_def inc_dropped_def
  inc_probed_def inc_created_def inc_checked_in_def take_permit_def release_permit_def park_def

definition finish_checkout :: "'s conn \<Rightarrow> instant \<Rightarrow> 's pool \<Rightarrow> 's lease \<times> 's pool" where
  "finish_checkout c created p =
     (\<lparr>l_conn = c, l_created_at = created\<rparr>,
      upd_metrics (\<lambda>m. m\<lparr>m_checkouts := m_checkouts m + 1, m_reused := m_reused m + 1,
                         m_active := m_active m + 1\<rparr>) p)"

section \<open>Connection hygiene\<close>

fun drain_items :: "recv list \<Rightarrow> 's conn \<Rightarrow> (client_error, unit) io \<times> 's conn" where
  "drain_items [] c = ((if at_eof c then Fail UnexpectedEOF else Blocked), c\<lparr>inbox := []\<rparr>)"
| "drain_items (RErr e # items) c = (Fail e, c\<lparr>inbox := items\<rparr>)"
| "drain_items (RMsg m # items) c =
     (case m of
        BReadyForQuery st \<Rightarrow> (Done (), (set_transaction_status st c)\<lparr>inbox := items\<rparr>)
      | BParameterStatus k v \<Rightarrow> drain_items items (set_server_parameter k v c)
      | _ \<Rightarrow> drain_items items c)"

definition drain_until_ready :: "'s conn \<Rightarrow> (client_error, unit) io \<times> 's conn" where
  "drain_until_ready c = drain_items (inbox c) c"

definition close_cycle :: "'s client_ops \<Rightarrow> 's conn \<Rightarrow> (client_error, unit) io \<times> 's conn" where
  "close_cycle ops c =
     (case conn_send ops FSync c of
        (Some e, c1) \<Rightarrow> (Fail e, c1)
      | (None, c1) \<Rightarrow> drain_until_ready c1)"

text \<open>\<^verbatim>\<open>probe\<close> runs under a timeout: no answer counts as a broken connection.\<close>

definition probe :: "'s client_ops \<Rightarrow> 's conn \<Rightarrow> (client_error, unit) io \<times> 's conn" where
  "probe ops c =
     (case close_cycle ops c of
        (Blocked, c1) \<Rightarrow> (Fail UnexpectedEOF, c1)
      | r \<Rightarrow> r)"

text \<open>
  A drain under \<^verbatim>\<open>CANCEL_DRAIN_TIMEOUT\<close>, of whose items \<open>k\<close> arrive in time: what arrived is read, the rest is still to come
  when the time is up.
\<close>

definition drain_within :: "nat \<Rightarrow> 's conn \<Rightarrow> (client_error, unit) io \<times> 's conn" where
  "drain_within k c =
     (let (r, c') = drain_items (take k (inbox c)) (c\<lparr>at_eof := (at_eof c \<and> length (inbox c) < k)\<rparr>)
      in (r, c'\<lparr>inbox := inbox c' @ drop k (inbox c), at_eof := at_eof c\<rparr>))"

definition settle :: "'s client_ops \<Rightarrow> bool \<Rightarrow> bool \<Rightarrow> 's conn \<Rightarrow> (client_error, unit) io \<times> 's conn" where
  "settle ops send_copy_fail awaiting c =
     (let (failed, c1) =
        (if send_copy_fail then conn_send ops (FCopyFail ''pgferry: client disconnected during COPY'') c
         else (None, c))
      in case failed of
           Some e \<Rightarrow> (Fail e, c1)
         | None \<Rightarrow>
             (let c2 = (if awaiting then conn_cancel ops c1 else c1)
              in case drain_within (op_window ops c2) c2 of
                   (Blocked, c3) \<Rightarrow> close_cycle ops c3
                 | r \<Rightarrow> r))"

definition sanitize :: "'s client_ops \<Rightarrow> hygiene \<Rightarrow> 's conn \<Rightarrow> (client_error, unit) io \<times> 's conn" where
  "sanitize ops h c =
     (case (if copy h = ClientOwesCopy then settle ops True (awaiting_response h) c
            else if awaiting_response h then settle ops False True c
            else close_cycle ops c) of
        (Done _, c1) \<Rightarrow>
          (case (if transaction_status c1 \<noteq> Idle then op_simple_query ops c1 ''ROLLBACK'' else (Done (), c1)) of
             (Done _, c2) \<Rightarrow> op_simple_query ops c2 ''DISCARD ALL''
           | r \<Rightarrow> r)
      | r \<Rightarrow> r)"

definition set_parameter ::
    "'s client_ops \<Rightarrow> string \<Rightarrow> string \<Rightarrow> 's conn \<Rightarrow> (client_error, unit) io \<times> 's conn" where
  "set_parameter ops name value c =
     (let escaped = replace_char (CHR 0x27) [CHR 0x27, CHR 0x27] value
      in case op_simple_query ops c (''SET '' @ name @ '' = '' @ [CHR 0x27] @ escaped @ [CHR 0x27]) of
           (Done _, c1) \<Rightarrow> (Done (), set_server_parameter name value c1)
         | r \<Rightarrow> r)"

fun sync_parameters ::
    "'s client_ops \<Rightarrow> string list \<Rightarrow> (string \<rightharpoonup> string) \<Rightarrow> 's conn \<Rightarrow> (client_error, unit) io \<times> 's conn" where
  "sync_parameters ops [] sp c = (Done (), c)"
| "sync_parameters ops (name # names) sp c =
     (case sp name of
        None \<Rightarrow> sync_parameters ops names sp c
      | Some desired \<Rightarrow>
          (let current = (case server_parameters c name of Some v \<Rightarrow> v | None \<Rightarrow> [])
           in if current \<noteq> desired
              then (case set_parameter ops name desired c of
                      (Done _, c1) \<Rightarrow> sync_parameters ops names sp c1
                    | r \<Rightarrow> r)
              else sync_parameters ops names sp c))"

definition sync_startup_parameters ::
    "'s client_ops \<Rightarrow> (string \<rightharpoonup> string) \<Rightarrow> 's lease \<Rightarrow> (client_error, unit) io \<times> 's lease" where
  "sync_startup_parameters ops sp l =
     (let (r, c) = sync_parameters ops TRACKED_STARTUP_PARAMETERS sp (l_conn l) in (r, l\<lparr>l_conn := c\<rparr>))"

section \<open>Checkout\<close>

type_synonym clock = "nat \<Rightarrow> instant"
type_synonym 's connector = "connect_args \<Rightarrow> nat \<Rightarrow> (client_error, 's conn) io"

function checkout_loop ::
    "'s client_ops \<Rightarrow> clock \<Rightarrow> nat \<Rightarrow> 's pool \<Rightarrow> ('s conn \<times> instant) option \<times> nat \<times> 's pool" where
  "checkout_loop ops clock t p =
     (case vec_pop (p_idle p) of
        None \<Rightarrow> (None, t, p)
      | Some (parked, rest) \<Rightarrow>
          (let p = p\<lparr>p_idle := rest\<rparr>
           in if elapsed (clock t) (pk_created_at parked) > max_lifetime (p_config p)
              then checkout_loop ops clock (t + 1) (inc_evicted 1 p)
              else if elapsed (clock (t + 1)) (pk_idle_since parked) > stale_after (p_config p)
              then (let p = inc_probed p
                    in case probe ops (pk_conn parked) of
                         (Done _, c) \<Rightarrow> (Some (c, pk_created_at parked), t + 2, p)
                       | (_, _) \<Rightarrow> checkout_loop ops clock (t + 2) (inc_dropped p))
              else (Some (pk_conn parked, pk_created_at parked), t + 2, p)))"
  by pat_completeness auto
termination
  by (relation "measure (\<lambda>(ops, clock, t, p). length (p_idle p))")
    (auto simp: pool_simps dest!: length_vec_pop)

declare checkout_loop.simps [simp del]

text \<open>
  \<^verbatim>\<open>Pool::checkout\<close>. With no permit left the caller waits (\<open>Blocked\<close>), counted in \<open>m_waiting\<close>; a failed
  connect drops the permit again; a connect that never resolves keeps it.
\<close>

definition checkout ::
    "'s client_ops \<Rightarrow> clock \<Rightarrow> 's connector \<Rightarrow> nat \<Rightarrow> 's pool \<Rightarrow>
       (client_error, 's lease) io \<times> nat \<times> 's pool" where
  "checkout ops clock connect t p =
     (let p = add_waiting 1 p
      in if p_permits p = 0 then (Blocked, t, p)
         else (let p = add_waiting (-1) (take_permit p)
               in case checkout_loop ops clock t p of
                    (Some (c, created), t, p) \<Rightarrow>
                      (let (l, p) = finish_checkout c created p in (Done l, t, p))
                  | (None, t, p) \<Rightarrow>
                      (case connect (p_connect p) t of
                         Fail e \<Rightarrow> (Fail e, t + 1, release_permit (inc_dropped p))
                       | Blocked \<Rightarrow> (Blocked, t + 1, p)
                       | Done c \<Rightarrow>
                           (let (l, p) = finish_checkout c (clock (t + 1)) (inc_created p)
                            in (Done l, t + 2, p)))))"

section \<open>Returning a connection\<close>

text \<open>The tail both check-ins share: park unless past the lifetime, and release the permit.\<close>

definition park_or_evict :: "clock \<Rightarrow> nat \<Rightarrow> 's conn \<Rightarrow> instant \<Rightarrow> 's pool \<Rightarrow> nat \<times> 's pool" where
  "park_or_evict clock t c created p =
     (if elapsed (clock t) created > max_lifetime (p_config p)
      then (t + 1, release_permit (inc_evicted 1 p))
      else (t + 2, release_permit (inc_checked_in (park c (clock (t + 1)) created p))))"

definition checkin_detached ::
    "'s client_ops \<Rightarrow> clock \<Rightarrow> bool \<Rightarrow> 's lease \<Rightarrow> nat \<Rightarrow> 's pool \<Rightarrow> nat \<times> 's pool" where
  "checkin_detached ops clock dirty l t p =
     (let p = add_active (-1) p;
          (cleaned, c) =
            (if dirty then (case op_simple_query ops (l_conn l) ''DISCARD ALL'' of
                              (Done _, c) \<Rightarrow> (True, c)
                            | (_, c) \<Rightarrow> (False, c))
             else (True, l_conn l))
      in if \<not> cleaned then (t, release_permit (inc_dropped p))
         else park_or_evict clock t c (l_created_at l) (p\<lparr>p_baseline := Some (server_parameters c)\<rparr>))"

definition checkin ::
    "'s client_ops \<Rightarrow> clock \<Rightarrow> hygiene \<Rightarrow> 's lease \<Rightarrow> nat \<Rightarrow> 's pool \<Rightarrow> nat \<times> 's pool" where
  "checkin ops clock h l t p =
     (let p = add_active (-1) p
      in case sanitize ops h (l_conn l) of
           (Done _, c) \<Rightarrow> park_or_evict clock t c (l_created_at l) p
         | (_, c) \<Rightarrow> (t + 1, release_permit (inc_dropped p)))"

definition destroy :: "'s lease \<Rightarrow> 's pool \<Rightarrow> 's pool" where
  "destroy l p = release_permit (add_active (-1) (inc_dropped p))"

text \<open>A lease that goes out of scope without \<^verbatim>\<open>checkin\<close> or \<^verbatim>\<open>destroy\<close>: only its permit comes back.\<close>

definition drop_lease :: "'s lease \<Rightarrow> 's pool \<Rightarrow> 's pool" where
  "drop_lease l p = release_permit p"

definition baseline_params ::
    "'s client_ops \<Rightarrow> clock \<Rightarrow> 's connector \<Rightarrow> nat \<Rightarrow> 's pool \<Rightarrow>
       (client_error, string \<rightharpoonup> string) io \<times> nat \<times> 's pool" where
  "baseline_params ops clock connect t p =
     (case p_baseline p of
        Some params \<Rightarrow> (Done params, t, p)
      | None \<Rightarrow>
          (case checkout ops clock connect t p of
             (Done l, t, p) \<Rightarrow>
               (let params = server_parameters (l_conn l); (t, p) = checkin ops clock hygiene_default l t p
                in (Done params, t, p))
           | (Fail e, t, p) \<Rightarrow> (Fail e, t, p)
           | (Blocked, t, p) \<Rightarrow> (Blocked, t, p)))"

section \<open>The sweeper\<close>

definition sweep_keeps :: "pool_config \<Rightarrow> instant \<Rightarrow> 's parked \<Rightarrow> bool" where
  "sweep_keeps cfg now pk \<longleftrightarrow>
     \<not> (elapsed now (pk_idle_since pk) > idle_timeout cfg \<or> elapsed now (pk_created_at pk) > max_lifetime cfg)"

definition sweep :: "instant \<Rightarrow> 's pool \<Rightarrow> 's pool" where
  "sweep now p =
     (let kept = filter (sweep_keeps (p_config p) now) (p_idle p);
          expired = length (p_idle p) - length kept
      in (if expired = 0 then p\<lparr>p_idle := kept\<rparr>
          else inc_evicted (of_nat expired) (p\<lparr>p_idle := kept\<rparr>)))"

section \<open>The pool registry\<close>

type_synonym 's pool_manager = "pool_key \<rightharpoonup> 's pool"

definition get_or_create ::
    "pool_key \<Rightarrow> pool_config \<Rightarrow> connect_args \<Rightarrow> 's pool_manager \<Rightarrow> 's pool \<times> 's pool_manager" where
  "get_or_create key cfg connect ps =
     (case ps key of
        Some p \<Rightarrow> (p, ps)
      | None \<Rightarrow> (let p = pool_new key cfg connect in (p, ps(key \<mapsto> p))))"

definition sweep_all :: "instant \<Rightarrow> 's pool_manager \<Rightarrow> 's pool_manager" where
  "sweep_all now ps = (\<lambda>k. map_option (sweep now) (ps k))"

section \<open>Draining\<close>

text \<open>
  Items a drain passes over: no \<^verbatim>\<open>ReadyForQuery\<close> and no receive error among them. What passing over
  them leaves on the connection is the cached server parameters.
\<close>

fun passes :: "recv \<Rightarrow> bool" where
  "passes (RErr e) = False"
| "passes (RMsg (BReadyForQuery st)) = False"
| "passes (RMsg m) = True"

fun absorb :: "recv \<Rightarrow> 's conn \<Rightarrow> 's conn" where
  "absorb (RMsg (BParameterStatus k v)) c = set_server_parameter k v c"
| "absorb i c = c"

lemma absorb_fields [simp]:
  "wire (absorb i c) = wire c" "inbox (absorb i c) = inbox c" "at_eof (absorb i c) = at_eof c"
  "transaction_status (absorb i c) = transaction_status c"
  by (cases "(i, c)" rule: absorb.cases; simp add: set_server_parameter_def)+

lemma fold_absorb_fields [simp]:
  "wire (fold absorb is c) = wire c" "inbox (fold absorb is c) = inbox c" "at_eof (fold absorb is c) = at_eof c"
  "transaction_status (fold absorb is c) = transaction_status c"
  by (induction "is" arbitrary: c) simp_all

lemma drain_items_absorb:
  "passes i \<Longrightarrow> drain_items (i # items) c = drain_items items (absorb i c)"
  by (cases "(i, c)" rule: absorb.cases) (auto split: backend_msg.splits)

lemma drain_items_pass:
  "list_all passes pre \<Longrightarrow> drain_items (pre @ items) c = drain_items items (fold absorb pre c)"
  by (induction pre arbitrary: c) (simp_all add: drain_items_absorb)

lemma drain_items_ready:
  assumes "list_all passes pre"
  shows "drain_items (pre @ RMsg (BReadyForQuery st) # rest) c =
           (Done (), (fold absorb pre c)\<lparr>transaction_status := st, inbox := rest\<rparr>)"
  using assms by (simp add: drain_items_pass set_transaction_status_def)

lemma drain_items_quiet:
  assumes "list_all passes items" "\<not> at_eof c"
  shows "drain_items items c = (Blocked, (fold absorb items c)\<lparr>inbox := []\<rparr>)"
  using drain_items_pass [of items "[]" c] assms by simp

lemma drain_items_Done:
  "drain_items items c = (Done (), c') \<Longrightarrow>
     \<exists>pre st. items = pre @ RMsg (BReadyForQuery st) # inbox c' \<and> list_all passes pre \<and>
              transaction_status c' = st \<and> wire c' = wire c"
proof (induction items arbitrary: c)
  case Nil
  then show ?case by (simp split: if_splits)
next
  case (Cons i items)
  show ?case
  proof (cases "passes i")
    case True
    then have "drain_items items (absorb i c) = (Done (), c')"
      using Cons.prems by (simp add: drain_items_absorb)
    from Cons.IH [OF this] obtain pre st where
      "items = pre @ RMsg (BReadyForQuery st) # inbox c'" "list_all passes pre"
      "transaction_status c' = st" "wire c' = wire c" by auto
    with True have "i # items = (i # pre) @ RMsg (BReadyForQuery st) # inbox c' \<and>
        list_all passes (i # pre) \<and> transaction_status c' = st \<and> wire c' = wire c" by simp
    then show ?thesis by blast
  next
    case False
    with Cons.prems obtain st where "i = RMsg (BReadyForQuery st)"
      by (cases i rule: passes.cases) auto
    with Cons.prems show ?thesis by (intro exI [of _ "[]"]) (auto simp: set_transaction_status_def)
  qed
qed

lemma at_eof_drain_items: "at_eof (snd (drain_items items c)) = at_eof c"
proof (induction items c rule: drain_items.induct)
  case (3 m items c)
  then show ?case by (cases m) (auto simp: io_simps)
qed auto

lemma drain_within_all:
  assumes "length (inbox c) < k"
  shows "drain_within k c = drain_until_ready c"
proof (cases "drain_items (inbox c) c")
  case (Pair r c')
  with at_eof_drain_items [of "inbox c" c] have "c'\<lparr>at_eof := at_eof c\<rparr> = c'" by simp
  with Pair assms show ?thesis by (simp add: drain_within_def drain_until_ready_def)
qed

section \<open>The server's side of hygiene\<close>

text \<open>
  What the hygiene helpers rely on, stated about the server behind the transport. \<open>phase w\<close> is what
  the backend is doing and \<open>tx w\<close> its transaction status; both are parameters, as the server is.
  \<open>server_laws\<close> collects the PostgreSQL protocol's promises that \<^verbatim>\<open>settle\<close>'s comment names: \<^verbatim>\<open>Sync\<close> is
  answered by exactly one \<^verbatim>\<open>ReadyForQuery\<close>; a cancel ends a running query and does nothing when none
  runs; \<^verbatim>\<open>CopyFail\<close> ends a copy and is ignored outside one. Ending a simple-protocol query or copy
  emits its \<^verbatim>\<open>ReadyForQuery\<close>, ending an extended one leaves the cycle open until \<^verbatim>\<open>Sync\<close>.
\<close>

datatype server_phase = Quiet | Executing | CopyIn | ExtendedOpen

definition ends_cycle ::
    "('s \<Rightarrow> server_phase) \<Rightarrow> ('s \<Rightarrow> tx_status) \<Rightarrow> 's \<Rightarrow> recv list \<Rightarrow> bool" where
  "ends_cycle phase tx w items \<longleftrightarrow>
     phase w = Quiet \<and> items \<noteq> [] \<and> list_all passes (butlast items) \<and>
       last items = RMsg (BReadyForQuery (tx w))"

definition leaves_open :: "('s \<Rightarrow> server_phase) \<Rightarrow> 's \<Rightarrow> recv list \<Rightarrow> bool" where
  "leaves_open phase w items \<longleftrightarrow> phase w = ExtendedOpen \<and> list_all passes items"

definition neutral :: "('s \<Rightarrow> server_phase) \<Rightarrow> ('s \<Rightarrow> tx_status) \<Rightarrow> 's conn \<Rightarrow> bool" where
  "neutral phase tx c \<longleftrightarrow>
     phase (wire c) = Quiet \<and> tx (wire c) = Idle \<and> transaction_status c = Idle \<and> inbox c = [] \<and> \<not> at_eof c"

definition server_laws ::
    "'s client_ops \<Rightarrow> ('s \<Rightarrow> server_phase) \<Rightarrow> ('s \<Rightarrow> tx_status) \<Rightarrow> bool" where
  "server_laws ops phase tx \<longleftrightarrow>
     (\<forall>w. (phase w = Quiet \<or> phase w = ExtendedOpen \<longrightarrow>
             (\<exists>w' items. op_send ops w FSync = Inr (w', items) \<and> ends_cycle phase tx w' items \<and>
                (phase w = Quiet \<longrightarrow> tx w' = tx w)) \<and>
             op_cancel ops w = (w, [])) \<and>
          (phase w = Executing \<longrightarrow>
             (\<exists>w' items. op_cancel ops w = (w', items) \<and>
                (ends_cycle phase tx w' items \<or> leaves_open phase w' items))) \<and>
          (phase w = CopyIn \<longrightarrow>
             (\<forall>m. \<exists>w' items. op_send ops w (FCopyFail m) = Inr (w', items) \<and>
                (ends_cycle phase tx w' items \<or> leaves_open phase w' items))) \<and>
          (phase w = Quiet \<longrightarrow>
             (\<forall>m. \<exists>w'. op_send ops w (FCopyFail m) = Inr (w', []) \<and> phase w' = Quiet \<and> tx w' = tx w))) \<and>
     (\<forall>c. phase (wire c) = Quiet \<and> inbox c = [] \<and> \<not> at_eof c \<and> transaction_status c = tx (wire c) \<longrightarrow>
        (\<exists>c'. op_simple_query ops c ''ROLLBACK'' = (Done (), c') \<and> neutral phase tx c') \<and>
        (tx (wire c) = Idle \<longrightarrow>
           (\<exists>c'. op_simple_query ops c ''DISCARD ALL'' = (Done (), c') \<and> neutral phase tx c')))"

text \<open>
  What the pump has to report truthfully: a query still executing is awaited and a copy the server waits for is owed by the
  client.
\<close>

definition hygiene_truthful :: "('s \<Rightarrow> server_phase) \<Rightarrow> hygiene \<Rightarrow> 's conn \<Rightarrow> bool" where
  "hygiene_truthful phase h c \<longleftrightarrow>
     (phase (wire c) = Executing \<longrightarrow> awaiting_response h \<and> copy h \<noteq> ClientOwesCopy) \<and>
     (phase (wire c) = CopyIn \<longleftrightarrow> copy h = ClientOwesCopy \<and> phase (wire c) \<noteq> Quiet)"

text \<open>
  At most one response cycle is outstanding: an unread \<^verbatim>\<open>ReadyForQuery\<close> is the last item and belongs to the cycle the report
  calls unfinished. A client that pipelines several cycles breaks this.
\<close>

definition one_cycle :: "('s \<Rightarrow> server_phase) \<Rightarrow> ('s \<Rightarrow> tx_status) \<Rightarrow> hygiene \<Rightarrow> 's conn \<Rightarrow> bool" where
  "one_cycle phase tx h c \<longleftrightarrow>
     list_all passes (inbox c) \<or>
     ends_cycle phase tx (wire c) (inbox c) \<and> (awaiting_response h \<or> copy h = ClientOwesCopy)"

text \<open>The network delivers what the server has said within \<^verbatim>\<open>CANCEL_DRAIN_TIMEOUT\<close>.\<close>

definition prompt :: "'s client_ops \<Rightarrow> bool" where
  "prompt ops \<longleftrightarrow> (\<forall>c. length (inbox c) < op_window ops c)"

text \<open>Between the first stage of \<^verbatim>\<open>sanitize\<close> and its queries: one cycle ended, nothing left to read.\<close>

definition settled :: "('s \<Rightarrow> server_phase) \<Rightarrow> ('s \<Rightarrow> tx_status) \<Rightarrow> 's conn \<Rightarrow> bool" where
  "settled phase tx c \<longleftrightarrow>
     phase (wire c) = Quiet \<and> inbox c = [] \<and> \<not> at_eof c \<and> transaction_status c = tx (wire c)"

definition stoppable :: "('s \<Rightarrow> server_phase) \<Rightarrow> ('s \<Rightarrow> tx_status) \<Rightarrow> 's conn \<Rightarrow> bool" where
  "stoppable phase tx c \<longleftrightarrow>
     \<not> at_eof c \<and>
     (ends_cycle phase tx (wire c) (inbox c) \<or>
      (phase (wire c) = Quiet \<or> phase (wire c) = ExtendedOpen) \<and> list_all passes (inbox c))"

lemma ends_cycle_split:
  assumes "ends_cycle phase tx w items"
  obtains pre where "items = pre @ [RMsg (BReadyForQuery (tx w))]" "list_all passes pre" "phase w = Quiet"
  using assms unfolding ends_cycle_def by (metis append_butlast_last_id)

lemma ends_cycle_prepend:
  "list_all passes pre \<Longrightarrow> ends_cycle phase tx w items \<Longrightarrow> ends_cycle phase tx w (pre @ items)"
  by (auto simp: ends_cycle_def butlast_append)

lemma drain_ends_cycle:
  assumes "ends_cycle phase tx (wire c) (inbox c)" "\<not> at_eof c"
  shows "\<exists>c'. drain_until_ready c = (Done (), c') \<and> settled phase tx c' \<and> wire c' = wire c"
proof -
  from assms(1) obtain pre where "inbox c = pre @ RMsg (BReadyForQuery (tx (wire c))) # []"
    "list_all passes pre" "phase (wire c) = Quiet" by (rule ends_cycle_split) simp
  with assms(2) show ?thesis
    by (auto simp: drain_until_ready_def drain_items_ready settled_def)
qed

lemma server_laws_sync:
  assumes "server_laws ops phase tx" "phase w = Quiet \<or> phase w = ExtendedOpen"
  obtains w' items where "op_send ops w FSync = Inr (w', items)" "ends_cycle phase tx w' items"
    "phase w = Quiet \<Longrightarrow> tx w' = tx w"
  using assms unfolding server_laws_def by blast

lemma close_cycle_settles:
  assumes laws: "server_laws ops phase tx"
    and ph: "phase (wire c) = Quiet \<or> phase (wire c) = ExtendedOpen"
    and items: "list_all passes (inbox c)" "\<not> at_eof c"
  shows "\<exists>c'. close_cycle ops c = (Done (), c') \<and> settled phase tx c' \<and>
              (phase (wire c) = Quiet \<longrightarrow> tx (wire c') = tx (wire c))"
proof -
  obtain w' new where s: "op_send ops (wire c) FSync = Inr (w', new)" and e: "ends_cycle phase tx w' new"
    and t: "phase (wire c) = Quiet \<Longrightarrow> tx w' = tx (wire c)"
    using server_laws_sync [OF laws ph] by blast
  let ?c = "c\<lparr>wire := w', inbox := inbox c @ new\<rparr>"
  have "ends_cycle phase tx (wire ?c) (inbox ?c)" using ends_cycle_prepend [OF items(1) e] by simp
  then obtain c' where "drain_until_ready ?c = (Done (), c')" "settled phase tx c'" "wire c' = w'"
    using drain_ends_cycle [of phase tx ?c] items(2) by auto
  with s t show ?thesis by (simp add: close_cycle_def conn_send_def)
qed

lemma drain_window_prompt: "prompt ops \<Longrightarrow> drain_within (op_window ops c) c = drain_until_ready c"
  by (simp add: prompt_def drain_within_all)

lemma drain_or_close_settles:
  assumes "server_laws ops phase tx" "stoppable phase tx c"
  shows "\<exists>c'. (case drain_until_ready c of (Blocked, c3) \<Rightarrow> close_cycle ops c3 | r \<Rightarrow> r) = (Done (), c') \<and>
              settled phase tx c'"
proof (cases "ends_cycle phase tx (wire c) (inbox c)")
  case True
  with assms(2) drain_ends_cycle [of phase tx c] show ?thesis by (auto simp: stoppable_def)
next
  case False
  let ?c = "(fold absorb (inbox c) c)\<lparr>inbox := []\<rparr>"
  from False assms(2) have ph: "phase (wire c) = Quiet \<or> phase (wire c) = ExtendedOpen"
    and "list_all passes (inbox c)" "\<not> at_eof c" by (auto simp: stoppable_def)
  then have "drain_until_ready c = (Blocked, ?c)" by (simp add: drain_until_ready_def drain_items_quiet)
  moreover have "\<exists>c'. close_cycle ops ?c = (Done (), c') \<and> settled phase tx c'"
    using close_cycle_settles [OF assms(1), of ?c] ph \<open>\<not> at_eof c\<close> by auto
  ultimately show ?thesis by simp
qed

lemma stoppable_after:
  assumes "list_all passes (inbox c)" "\<not> at_eof c"
    and "ends_cycle phase tx w items \<or> leaves_open phase w items"
  shows "stoppable phase tx (c\<lparr>wire := w, inbox := inbox c @ items\<rparr>)"
  using assms by (auto simp: stoppable_def leaves_open_def intro: ends_cycle_prepend)

lemma ends_cycle_Quiet: "ends_cycle phase tx w items \<Longrightarrow> phase w = Quiet"
  by (simp add: ends_cycle_def)

lemma ends_cycle_not_passes: "ends_cycle phase tx w items \<Longrightarrow> \<not> list_all passes items"
  by (auto elim!: ends_cycle_split)

lemma stoppable_copy_fail:
  assumes laws: "server_laws ops phase tx" and h: "hygiene_truthful phase h c" "one_cycle phase tx h c" "\<not> at_eof c"
    and "copy h = ClientOwesCopy"
  shows "\<exists>c'. conn_send ops (FCopyFail m) c = (None, c') \<and> stoppable phase tx c'"
proof (cases "phase (wire c) = Quiet")
  case True
  then obtain w' where s: "op_send ops (wire c) (FCopyFail m) = Inr (w', [])" "phase w' = Quiet" "tx w' = tx (wire c)"
    using laws unfolding server_laws_def by blast
  have "ends_cycle phase tx (wire c) (inbox c) \<Longrightarrow> ends_cycle phase tx w' (inbox c)"
    using s by (simp add: ends_cycle_def)
  with h s show ?thesis by (auto simp: conn_send_def stoppable_def one_cycle_def)
next
  case False
  with h assms(5) have p: "phase (wire c) = CopyIn" "list_all passes (inbox c)" "\<not> at_eof c"
    by (auto simp: hygiene_truthful_def one_cycle_def dest: ends_cycle_Quiet)
  then obtain w' items where "op_send ops (wire c) (FCopyFail m) = Inr (w', items)"
    "ends_cycle phase tx w' items \<or> leaves_open phase w' items"
    using laws unfolding server_laws_def by blast
  with p show ?thesis by (simp add: conn_send_def stoppable_after)
qed

lemma stoppable_cancel:
  assumes laws: "server_laws ops phase tx"
    and "stoppable phase tx c \<or> phase (wire c) = Executing \<and> list_all passes (inbox c) \<and> \<not> at_eof c"
  shows "stoppable phase tx (conn_cancel ops c)"
  using assms(2)
proof
  assume st: "stoppable phase tx c"
  then have "phase (wire c) = Quiet \<or> phase (wire c) = ExtendedOpen"
    by (auto simp: stoppable_def dest: ends_cycle_Quiet)
  then have "op_cancel ops (wire c) = (wire c, [])" using laws unfolding server_laws_def by blast
  with st show ?thesis by (simp add: conn_cancel_def)
next
  assume e: "phase (wire c) = Executing \<and> list_all passes (inbox c) \<and> \<not> at_eof c"
  then obtain w' items where "op_cancel ops (wire c) = (w', items)"
    "ends_cycle phase tx w' items \<or> leaves_open phase w' items"
    using laws unfolding server_laws_def by blast
  with e show ?thesis by (simp add: conn_cancel_def stoppable_after)
qed

lemma truthful_without_copy:
  assumes "hygiene_truthful phase h c" "one_cycle phase tx h c" "\<not> at_eof c" "copy h \<noteq> ClientOwesCopy"
  shows "stoppable phase tx c \<or> phase (wire c) = Executing \<and> list_all passes (inbox c) \<and> \<not> at_eof c"
  using assms by (cases "phase (wire c)") (auto simp: hygiene_truthful_def one_cycle_def stoppable_def dest: ends_cycle_Quiet)

lemma settle_settles:
  assumes laws: "server_laws ops phase tx" "prompt ops" and h: "hygiene_truthful phase h c" "one_cycle phase tx h c" "\<not> at_eof c"
    and "copy h = ClientOwesCopy \<or> awaiting_response h"
  shows "\<exists>c'. settle ops (copy h = ClientOwesCopy) (awaiting_response h) c = (Done (), c') \<and> settled phase tx c'"
proof (cases "copy h = ClientOwesCopy")
  case True
  then obtain c1 where c1: "conn_send ops (FCopyFail ''pgferry: client disconnected during COPY'') c = (None, c1)"
    "stoppable phase tx c1" using stoppable_copy_fail [OF laws(1) h] by blast
  have "stoppable phase tx (if awaiting_response h then conn_cancel ops c1 else c1)"
    using stoppable_cancel [OF laws(1)] c1(2) by simp
  from drain_or_close_settles [OF laws(1) this] True c1(1) show ?thesis by (simp add: settle_def Let_def drain_window_prompt [OF laws(2)])
next
  case False
  with assms(6) have "awaiting_response h" by simp
  moreover have "stoppable phase tx (conn_cancel ops c)"
    by (rule stoppable_cancel [OF laws(1) truthful_without_copy [OF h False]])
  from drain_or_close_settles [OF laws(1) this] False calculation show ?thesis
    by (simp add: settle_def Let_def drain_window_prompt [OF laws(2)])
qed

lemma settled_neutral: "settled phase tx c \<Longrightarrow> transaction_status c = Idle \<Longrightarrow> neutral phase tx c"
  by (simp add: settled_def neutral_def)

lemma queries_neutral:
  assumes laws: "server_laws ops phase tx" and s: "settled phase tx c"
  shows "\<exists>c'. (case (if transaction_status c \<noteq> Idle then op_simple_query ops c ''ROLLBACK'' else (Done (), c)) of
             (Done _, c2) \<Rightarrow> op_simple_query ops c2 ''DISCARD ALL''
           | r \<Rightarrow> r) = (Done (), c') \<and> neutral phase tx c'"
proof -
  have step: "\<exists>c'. op_simple_query ops c2 ''DISCARD ALL'' = (Done (), c') \<and> neutral phase tx c'"
    if "neutral phase tx c2" for c2
    using laws that unfolding server_laws_def neutral_def by simp
  show ?thesis
  proof (cases "transaction_status c = Idle")
    case True
    then show ?thesis using step [OF settled_neutral [OF s]] by simp
  next
    case False
    have "\<exists>c2. op_simple_query ops c ''ROLLBACK'' = (Done (), c2) \<and> neutral phase tx c2"
      using laws s unfolding server_laws_def settled_def by blast
    then show ?thesis using step False by auto
  qed
qed

lemma sanitize_neutral:
  assumes "server_laws ops phase tx" "prompt ops" "hygiene_truthful phase h c" "one_cycle phase tx h c" "\<not> at_eof c"
  shows "\<exists>c'. sanitize ops h c = (Done (), c') \<and> neutral phase tx c'"
proof -
  have "\<exists>c'. (if copy h = ClientOwesCopy then settle ops True (awaiting_response h) c
              else if awaiting_response h then settle ops False True c else close_cycle ops c) = (Done (), c') \<and>
             settled phase tx c'"
  proof (cases "copy h = ClientOwesCopy \<or> awaiting_response h")
    case True
    then show ?thesis using settle_settles [OF assms True] by (cases "copy h = ClientOwesCopy") auto
  next
    case False
    with assms(3,4) have "(phase (wire c) = Quiet \<or> phase (wire c) = ExtendedOpen) \<and> list_all passes (inbox c)"
      by (cases "phase (wire c)") (auto simp: hygiene_truthful_def one_cycle_def)
    with False close_cycle_settles [OF assms(1), of c] assms(5) show ?thesis by auto
  qed
  then show ?thesis using queries_neutral [OF assms(1)] by (fastforce simp: sanitize_def)
qed

text \<open>
  Property C3. \<^verbatim>\<open>sanitize\<close> succeeds and leaves the connection quiet, outside a transaction and with no message left to read, when
  the server keeps the protocol's promises, the answer to a cancel arrives within \<^verbatim>\<open>CANCEL_DRAIN_TIMEOUT\<close>, the hygiene report
  is truthful, the stream is open, and at most one response cycle is outstanding. Within these conditions the session may have
  been abandoned anywhere: idle, mid-query, mid-copy, with an extended cycle left open, with its result unread.
\<close>

theorem sanitize_restores_neutral:
  assumes "server_laws ops phase tx" "prompt ops"
    and "hygiene_truthful phase h c" "one_cycle phase tx h c" "\<not> at_eof c"
  shows "\<exists>c'. sanitize ops h c = (Done (), c') \<and> neutral phase tx c'"
  using assms by (rule sanitize_neutral)

text \<open>
  A concrete server that keeps the laws, on which the theorems of this theory are exercised: its
  transport state is its phase and its transaction status.
\<close>

fun sample_send :: "server_phase \<times> tx_status \<Rightarrow> frontend_msg \<Rightarrow>
    client_error + (server_phase \<times> tx_status) \<times> recv list" where
  "sample_send (p, t) FSync =
     (if p = Quiet \<or> p = ExtendedOpen then Inr ((Quiet, t), [RMsg (BReadyForQuery t)]) else Inr ((p, t), []))"
| "sample_send (p, t) (FCopyFail m) =
     (if p = CopyIn then Inr ((Quiet, t), [RMsg (BErrorResponse []), RMsg (BReadyForQuery t)]) else Inr ((p, t), []))"
| "sample_send (p, t) (FQuery q) = Inr ((Executing, t), [])"
| "sample_send (p, t) m = Inr ((p, t), [])"

fun sample_cancel :: "server_phase \<times> tx_status \<Rightarrow> (server_phase \<times> tx_status) \<times> recv list" where
  "sample_cancel (p, t) =
     (if p = Executing then ((Quiet, t), [RMsg (BErrorResponse []), RMsg (BReadyForQuery t)]) else ((p, t), []))"

definition sample_query :: "(server_phase \<times> tx_status) conn \<Rightarrow> string \<Rightarrow>
    (client_error, unit) io \<times> (server_phase \<times> tx_status) conn" where
  "sample_query c q =
     (if q = ''ROLLBACK'' then (Done (), c\<lparr>wire := (Quiet, Idle), transaction_status := Idle\<rparr>) else (Done (), c))"

definition sample_ops :: "(server_phase \<times> tx_status) client_ops" where
  "sample_ops = \<lparr>op_send = sample_send, op_feed = sample_send, op_cancel = sample_cancel,
     op_simple_query = sample_query, op_show_error = (\<lambda>e. []), op_window = (\<lambda>c. Suc (length (inbox c)))\<rparr>"

definition sample_conn :: "server_phase \<Rightarrow> tx_status \<Rightarrow> (server_phase \<times> tx_status) conn" where
  "sample_conn p t = \<lparr>wire = (p, t), inbox = [], at_eof = False, process_id = 7,
     server_parameters = Map.empty, transaction_status = Idle\<rparr>"

lemma sample_prompt: "prompt sample_ops"
  by (simp add: prompt_def sample_ops_def)

lemma sample_laws: "server_laws sample_ops fst snd"
  by (auto simp: server_laws_def sample_ops_def sample_query_def ends_cycle_def neutral_def)

theorem sanitize_restores_neutral_witness:
  "\<exists>c'. sanitize sample_ops \<lparr>awaiting_response = True, copy = NoCopy\<rparr> (sample_conn Executing InTransaction) = (Done (), c') \<and>
        neutral fst snd c'"
  by (rule sanitize_restores_neutral [OF sample_laws sample_prompt]) (simp_all add: hygiene_truthful_def one_cycle_def sample_conn_def)

section \<open>Answers that settle does not wait for\<close>

lemma drain_window_cut:
  assumes "inbox c = pre @ rest" "list_all passes pre" "k \<le> length pre"
  shows "\<exists>c'. drain_within k c = (Blocked, c') \<and> inbox c' = drop k pre @ rest \<and> wire c' = wire c"
proof -
  have "list_all passes (take k pre)" using assms(2) by (metis append_take_drop_id list_all_append)
  from drain_items_quiet [OF this, of "c\<lparr>at_eof := False\<rparr>"] assms(1,3) show ?thesis
    by (simp add: drain_within_def)
qed

lemma drain_window_ready:
  assumes "inbox c = pre @ RMsg (BReadyForQuery st) # rest" "list_all passes pre" "length pre < k"
  shows "\<exists>c'. drain_within k c = (Done (), c') \<and> inbox c' = rest \<and> wire c' = wire c \<and> transaction_status c' = st"
proof -
  from assms(3) obtain n where "k - length pre = Suc n" by (cases "k - length pre") auto
  with assms(1,3) have "take k (inbox c) = pre @ RMsg (BReadyForQuery st) # take n rest" "drop k (inbox c) = drop n rest" by simp_all
  then show ?thesis by (simp add: drain_within_def drain_items_ready [OF assms(2)])
qed

text \<open>
  Property C4. What \<^verbatim>\<open>settle\<close> leaves unread. It reads up to the first \<^verbatim>\<open>ReadyForQuery\<close>, so the answers of further cycles the
  client had pipelined stay on the connection; and when that first \<^verbatim>\<open>ReadyForQuery\<close> comes later than \<^verbatim>\<open>CANCEL_DRAIN_TIMEOUT\<close>, the
  \<^verbatim>\<open>Sync\<close> it then sends is taken to be answered by it, and the answer to the \<^verbatim>\<open>Sync\<close> - the second \<^verbatim>\<open>ReadyForQuery\<close> the comment of
  \<^verbatim>\<open>settle\<close> warns of - stays unread. In both cases \<^verbatim>\<open>settle\<close> reports success, and \<^verbatim>\<open>sanitize\<close> goes on to its queries with these
  messages ahead of their answers.
\<close>

theorem settle_leaves_later_answers:
  assumes "inbox (conn_cancel ops c) = pre @ RMsg (BReadyForQuery st) # rest" "list_all passes pre"
  shows "(length pre < op_window ops (conn_cancel ops c) \<longrightarrow>
       (\<exists>c'. settle ops False True c = (Done (), c') \<and> inbox c' = rest \<and> transaction_status c' = st)) \<and>
    (op_window ops (conn_cancel ops c) \<le> length pre \<and> op_send ops (wire (conn_cancel ops c)) FSync = Inr (w, answer) \<longrightarrow>
       (\<exists>c'. settle ops False True c = (Done (), c') \<and> inbox c' = rest @ answer \<and> transaction_status c' = st))"
proof (intro conjI impI)
  assume "length pre < op_window ops (conn_cancel ops c)"
  from drain_window_ready [OF assms this]
  show "\<exists>c'. settle ops False True c = (Done (), c') \<and> inbox c' = rest \<and> transaction_status c' = st"
    by (auto simp: settle_def)
next
  let ?k = "op_window ops (conn_cancel ops c)"
  assume late: "?k \<le> length pre \<and> op_send ops (wire (conn_cancel ops c)) FSync = Inr (w, answer)"
  then obtain c3 where c3: "drain_within ?k (conn_cancel ops c) = (Blocked, c3)"
    "inbox c3 = drop ?k pre @ RMsg (BReadyForQuery st) # rest" "wire c3 = wire (conn_cancel ops c)"
    using drain_window_cut [OF assms, of ?k] by blast
  have "list_all passes (drop ?k pre)" using assms(2) by (metis append_take_drop_id list_all_append)
  note ready = drain_items_ready [OF this]
  from c3 late show "\<exists>c'. settle ops False True c = (Done (), c') \<and> inbox c' = rest @ answer \<and> transaction_status c' = st"
    by (simp add: settle_def close_cycle_def conn_send_def drain_until_ready_def ready Let_def)
qed

text \<open>
  The witness: a client pipelined two queries of which the second is cancelled, and a network that delivers nothing in time.
\<close>

definition sample_pipelined :: "(server_phase \<times> tx_status) conn" where
  "sample_pipelined = (sample_conn Executing Idle)\<lparr>inbox := [RMsg (BReadyForQuery Idle)]\<rparr>"

theorem settle_leaves_later_answers_witness:
  "(\<exists>c'. settle sample_ops False True sample_pipelined = (Done (), c') \<and>
       inbox c' = [RMsg (BErrorResponse []), RMsg (BReadyForQuery Idle)]) \<and>
   (\<exists>c'. settle (sample_ops\<lparr>op_window := (\<lambda>c. 0)\<rparr>) False True (sample_conn Executing Idle) = (Done (), c') \<and>
       inbox c' = [RMsg (BReadyForQuery Idle)])"
proof
  show "\<exists>c'. settle sample_ops False True sample_pipelined = (Done (), c') \<and>
       inbox c' = [RMsg (BErrorResponse []), RMsg (BReadyForQuery Idle)]"
    using settle_leaves_later_answers [of sample_ops sample_pipelined "[]" Idle "[RMsg (BErrorResponse []), RMsg (BReadyForQuery Idle)]"]
    by (auto simp: sample_pipelined_def sample_conn_def sample_ops_def conn_cancel_def)
  show "\<exists>c'. settle (sample_ops\<lparr>op_window := (\<lambda>c. 0)\<rparr>) False True (sample_conn Executing Idle) = (Done (), c') \<and>
       inbox c' = [RMsg (BReadyForQuery Idle)]"
    using settle_leaves_later_answers [of "sample_ops\<lparr>op_window := (\<lambda>c. 0)\<rparr>" "sample_conn Executing Idle"
        "[RMsg (BErrorResponse [])]" Idle "[]" "(Quiet, Idle)" "[RMsg (BReadyForQuery Idle)]"]
    by (auto simp: sample_conn_def sample_ops_def conn_cancel_def)
qed

section \<open>Every idle connection is neutral\<close>

definition pool_clean :: "('s \<Rightarrow> server_phase) \<Rightarrow> ('s \<Rightarrow> tx_status) \<Rightarrow> 's pool \<Rightarrow> bool" where
  "pool_clean phase tx p \<longleftrightarrow> list_all (\<lambda>pk. neutral phase tx (pk_conn pk)) (p_idle p)"

definition connector_clean :: "('s \<Rightarrow> server_phase) \<Rightarrow> ('s \<Rightarrow> tx_status) \<Rightarrow> 's connector \<Rightarrow> bool" where
  "connector_clean phase tx connect \<longleftrightarrow> (\<forall>a t c. connect a t = Done c \<longrightarrow> neutral phase tx c)"

lemma bookkeeping_idle [simp]:
  "p_idle (upd_metrics f p) = p_idle p" "p_idle (add_waiting n p) = p_idle p"
  "p_idle (add_active n p) = p_idle p" "p_idle (inc_evicted k p) = p_idle p"
  "p_idle (inc_dropped p) = p_idle p" "p_idle (inc_probed p) = p_idle p" "p_idle (inc_created p) = p_idle p"
  "p_idle (inc_checked_in p) = p_idle p" "p_idle (take_permit p) = p_idle p" "p_idle (release_permit p) = p_idle p"
  by (simp_all add: pool_simps)

lemma bookkeeping_config [simp]:
  "p_config (upd_metrics f p) = p_config p" "p_config (add_waiting n p) = p_config p"
  "p_config (add_active n p) = p_config p" "p_config (inc_evicted k p) = p_config p"
  "p_config (inc_dropped p) = p_config p" "p_config (inc_probed p) = p_config p" "p_config (inc_created p) = p_config p"
  "p_config (inc_checked_in p) = p_config p" "p_config (take_permit p) = p_config p"
  "p_config (release_permit p) = p_config p" "p_config (park c now cr p) = p_config p"
  by (simp_all add: pool_simps)

lemma bookkeeping_permits [simp]:
  "p_permits (upd_metrics f p) = p_permits p" "p_permits (add_waiting n p) = p_permits p"
  "p_permits (add_active n p) = p_permits p" "p_permits (inc_evicted k p) = p_permits p"
  "p_permits (inc_dropped p) = p_permits p" "p_permits (inc_probed p) = p_permits p" "p_permits (inc_created p) = p_permits p"
  "p_permits (inc_checked_in p) = p_permits p" "p_permits (take_permit p) = p_permits p - 1"
  "p_permits (release_permit p) = Suc (p_permits p)" "p_permits (park c now cr p) = p_permits p"
  by (simp_all add: pool_simps)

lemma bookkeeping_connect [simp]:
  "p_connect (upd_metrics f p) = p_connect p" "p_connect (add_waiting n p) = p_connect p"
  "p_connect (inc_evicted k p) = p_connect p" "p_connect (inc_dropped p) = p_connect p"
  "p_connect (inc_probed p) = p_connect p" "p_connect (inc_created p) = p_connect p" "p_connect (take_permit p) = p_connect p"
  by (simp_all add: pool_simps)

text \<open>What \<^verbatim>\<open>checkout\<close> decides about a parked connection when it looks at it at reading \<open>t\<close>.\<close>

datatype 's verdict = Usable "'s conn" | Expired | ProbeFailed

definition judge :: "'s client_ops \<Rightarrow> clock \<Rightarrow> pool_config \<Rightarrow> nat \<Rightarrow> 's parked \<Rightarrow> 's verdict" where
  "judge ops clock cfg t pk =
     (if elapsed (clock t) (pk_created_at pk) > max_lifetime cfg then Expired
      else if elapsed (clock (t + 1)) (pk_idle_since pk) > stale_after cfg
      then (case probe ops (pk_conn pk) of (Done _, c) \<Rightarrow> Usable c | (_, _) \<Rightarrow> ProbeFailed)
      else Usable (pk_conn pk))"

lemma checkout_loop_Nil: "p_idle p = [] \<Longrightarrow> checkout_loop ops clock t p = (None, t, p)"
  by (simp add: checkout_loop.simps [of ops clock t p])

lemma checkout_loop_snoc:
  assumes "p_idle p = rest @ [pk]"
  shows "\<exists>p1. p_idle p1 = rest \<and> p_config p1 = p_config p \<and> p_permits p1 = p_permits p \<and> p_connect p1 = p_connect p \<and>
     (case judge ops clock (p_config p) t pk of
        Usable c \<Rightarrow> checkout_loop ops clock t p = (Some (c, pk_created_at pk), t + 2, p1)
      | Expired \<Rightarrow> checkout_loop ops clock t p = checkout_loop ops clock (t + 1) p1
      | ProbeFailed \<Rightarrow> checkout_loop ops clock t p = checkout_loop ops clock (t + 2) p1)"
proof -
  let ?p = "p\<lparr>p_idle := rest\<rparr>"
  let ?p1 = "if elapsed (clock t) (pk_created_at pk) > max_lifetime (p_config p) then inc_evicted 1 ?p
             else if elapsed (clock (t + 1)) (pk_idle_since pk) > stale_after (p_config p)
             then (if is_done (fst (probe ops (pk_conn pk))) then inc_probed ?p else inc_dropped (inc_probed ?p))
             else ?p"
  have "p_idle ?p1 = rest \<and> p_config ?p1 = p_config p \<and> p_permits ?p1 = p_permits p \<and> p_connect ?p1 = p_connect p" by simp
  moreover have "case judge ops clock (p_config p) t pk of
        Usable c \<Rightarrow> checkout_loop ops clock t p = (Some (c, pk_created_at pk), t + 2, ?p1)
      | Expired \<Rightarrow> checkout_loop ops clock t p = checkout_loop ops clock (t + 1) ?p1
      | ProbeFailed \<Rightarrow> checkout_loop ops clock t p = checkout_loop ops clock (t + 2) ?p1"
    using assms by (auto simp: judge_def checkout_loop.simps [of ops clock t p] Let_def split: prod.splits io.splits)
  ultimately show ?thesis by blast
qed

lemma checkout_loop_frame:
  "checkout_loop ops clock t p = (r, t', p') \<Longrightarrow>
     p_config p' = p_config p \<and> p_permits p' = p_permits p \<and> p_connect p' = p_connect p"
proof (induction "p_idle p" arbitrary: t p rule: rev_induct)
  case Nil
  then show ?case by (simp add: checkout_loop_Nil)
next
  case (snoc pk rest)
  obtain p1 where p1: "p_idle p1 = rest" "p_config p1 = p_config p" "p_permits p1 = p_permits p" "p_connect p1 = p_connect p"
    and v: "case judge ops clock (p_config p) t pk of
        Usable c \<Rightarrow> checkout_loop ops clock t p = (Some (c, pk_created_at pk), t + 2, p1)
      | Expired \<Rightarrow> checkout_loop ops clock t p = checkout_loop ops clock (t + 1) p1
      | ProbeFailed \<Rightarrow> checkout_loop ops clock t p = checkout_loop ops clock (t + 2) p1"
    using checkout_loop_snoc [OF snoc(2) [symmetric]] by blast
  show ?case using snoc(1) [OF p1(1) [symmetric]] snoc(3) v p1
    by (cases "judge ops clock (p_config p) t pk") auto
qed

definition rejected :: "'s client_ops \<Rightarrow> clock \<Rightarrow> pool_config \<Rightarrow> 's parked \<Rightarrow> bool" where
  "rejected ops clock cfg pk \<longleftrightarrow>
     (\<exists>n. judge ops clock cfg n pk = Expired \<or> judge ops clock cfg n pk = ProbeFailed)"

definition accepted :: "'s client_ops \<Rightarrow> clock \<Rightarrow> pool_config \<Rightarrow> 's parked \<Rightarrow> 's conn \<Rightarrow> bool" where
  "accepted ops clock cfg pk c \<longleftrightarrow> (\<exists>n. judge ops clock cfg n pk = Usable c)"

text \<open>How a run of the loop consumes the idle stack \<open>xs\<close>: it rejects \<open>gone\<close> from the top and leaves \<open>ys\<close>.\<close>

definition took ::
    "'s client_ops \<Rightarrow> clock \<Rightarrow> pool_config \<Rightarrow> ('s conn \<times> instant) option \<Rightarrow> 's parked list \<Rightarrow> 's parked list \<Rightarrow>
       's parked list \<Rightarrow> bool" where
  "took ops clock cfg r xs gone ys \<longleftrightarrow>
     list_all (rejected ops clock cfg) gone \<and>
     (case r of
        None \<Rightarrow> xs = gone \<and> ys = []
      | Some (c, created) \<Rightarrow>
          \<exists>pk. xs = ys @ pk # gone \<and> accepted ops clock cfg pk c \<and> created = pk_created_at pk)"

lemma took_reject:
  "took ops clock cfg r xs gone ys \<Longrightarrow> rejected ops clock cfg pk \<Longrightarrow> took ops clock cfg r (xs @ [pk]) (gone @ [pk]) ys"
  by (auto simp: took_def split: option.splits)

lemma checkout_loop_spec:
  "checkout_loop ops clock t p = (r, t', p') \<Longrightarrow> \<exists>gone. took ops clock (p_config p) r (p_idle p) gone (p_idle p')"
proof (induction "p_idle p" arbitrary: t p rule: rev_induct)
  case Nil
  then show ?case by (auto simp: checkout_loop_Nil took_def)
next
  case (snoc pk rest)
  note eq = snoc(2) [symmetric]
  obtain p1 where p1: "p_idle p1 = rest" "p_config p1 = p_config p"
    and v: "case judge ops clock (p_config p) t pk of
        Usable c \<Rightarrow> checkout_loop ops clock t p = (Some (c, pk_created_at pk), t + 2, p1)
      | Expired \<Rightarrow> checkout_loop ops clock t p = checkout_loop ops clock (t + 1) p1
      | ProbeFailed \<Rightarrow> checkout_loop ops clock t p = checkout_loop ops clock (t + 2) p1"
    using checkout_loop_snoc [OF eq] by blast
  show ?case
  proof (cases "\<exists>c. judge ops clock (p_config p) t pk = Usable c")
    case True
    with snoc(3) v p1 eq have "took ops clock (p_config p) r (p_idle p) [] (p_idle p')"
      by (auto simp: accepted_def took_def)
    then show ?thesis by blast
  next
    case False
    then have "rejected ops clock (p_config p) pk"
      by (cases "judge ops clock (p_config p) t pk") (auto simp: rejected_def)
    moreover have "\<exists>n. checkout_loop ops clock n p1 = (r, t', p')"
      using False snoc(3) v by (cases "judge ops clock (p_config p) t pk") (auto intro: sym)
    ultimately show ?thesis using snoc(1) [OF p1(1) [symmetric]] p1 eq took_reject by metis
  qed
qed

lemma finish_checkout_fields [simp]:
  "l_conn (fst (finish_checkout c created p)) = c" "l_created_at (fst (finish_checkout c created p)) = created"
  "p_idle (snd (finish_checkout c created p)) = p_idle p"
  "p_config (snd (finish_checkout c created p)) = p_config p"
  "p_permits (snd (finish_checkout c created p)) = p_permits p"
  "p_connect (snd (finish_checkout c created p)) = p_connect p"
  by (simp_all add: finish_checkout_def)

text \<open>The cases of a checkout that returns a lease: a parked connection, or a fresh one.\<close>

lemma checkout_Done:
  assumes "checkout ops clock connect t p = (Done l, t', p')"
  shows "p_permits p = Suc (p_permits p') \<and> p_config p' = p_config p \<and>
     (\<exists>gone. list_all (rejected ops clock (p_config p)) gone \<and>
        ((\<exists>pk. p_idle p = p_idle p' @ pk # gone \<and> accepted ops clock (p_config p) pk (l_conn l) \<and>
               l_created_at l = pk_created_at pk) \<or>
         (p_idle p = gone \<and> p_idle p' = [] \<and> (\<exists>n. connect (p_connect p) n = Done (l_conn l)))))"
proof -
  let ?p = "add_waiting (-1) (take_permit (add_waiting 1 p))"
  from assms have pos: "p_permits p \<noteq> 0" by (auto simp: checkout_def Let_def split: if_splits)
  obtain r t1 p1 where loop: "checkout_loop ops clock t ?p = (r, t1, p1)" by (metis prod_cases3)
  from checkout_loop_frame [OF loop] pos have fr:
    "p_config p1 = p_config p" "p_permits p = Suc (p_permits p1)" "p_connect p1 = p_connect p" by simp_all
  obtain gone where "took ops clock (p_config p) r (p_idle p) gone (p_idle p1)"
    using checkout_loop_spec [OF loop] by auto
  then have gone: "list_all (rejected ops clock (p_config p)) gone"
    and r: "case r of None \<Rightarrow> p_idle p = gone \<and> p_idle p1 = []
        | Some (c, created) \<Rightarrow> \<exists>pk. p_idle p = p_idle p1 @ pk # gone \<and> accepted ops clock (p_config p) pk c \<and> created = pk_created_at pk"
    unfolding took_def by blast+
  show ?thesis
  proof (cases r)
    case None
    with assms loop pos obtain c where "connect (p_connect p1) t1 = Done c"
      "(l, p') = finish_checkout c (clock (t1 + 1)) (inc_created p1)"
      by (auto simp: checkout_def Let_def split: io.splits prod.splits)
    moreover from this(2) have "l = fst (finish_checkout c (clock (t1 + 1)) (inc_created p1))"
      "p' = snd (finish_checkout c (clock (t1 + 1)) (inc_created p1))" by (metis fst_conv, metis snd_conv)
    ultimately show ?thesis using None r gone fr by auto
  next
    case (Some x)
    obtain c created where x: "x = (c, created)" by fastforce
    with assms loop pos Some have "(l, p') = finish_checkout c created p1"
      by (auto simp: checkout_def Let_def split: prod.splits)
    then have "l = fst (finish_checkout c created p1)" "p' = snd (finish_checkout c created p1)"
      by (metis fst_conv, metis snd_conv)
    with Some x r gone fr show ?thesis by auto
  qed
qed

lemma checkout_not_Done:
  assumes "checkout ops clock connect t p = (r, t', p')" "\<nexists>l. r = Done l"
  shows "p_config p' = p_config p \<and>
    ((p_permits p = 0 \<and> r = Blocked \<and> p' = add_waiting 1 p) \<or>
     (p_permits p > 0 \<and> list_all (rejected ops clock (p_config p)) (p_idle p) \<and> p_idle p' = [] \<and>
        ((\<exists>e n. r = Fail e \<and> connect (p_connect p) n = Fail e \<and> p_permits p' = p_permits p) \<or>
         (\<exists>n. r = Blocked \<and> connect (p_connect p) n = Blocked \<and> p_permits p = Suc (p_permits p')))))"
proof (cases "p_permits p = 0")
  case True
  with assms(1) show ?thesis by (auto simp: checkout_def Let_def)
next
  case False
  let ?p = "add_waiting (-1) (take_permit (add_waiting 1 p))"
  obtain o' t1 p1 where loop: "checkout_loop ops clock t ?p = (o', t1, p1)" by (metis prod_cases3)
  with assms False have n: "o' = None"
    by (auto simp: checkout_def Let_def finish_checkout_def split: prod.splits option.splits)
  obtain gone where "took ops clock (p_config p) None (p_idle p) gone (p_idle p1)"
    using checkout_loop_spec [OF loop] n by auto
  then have "list_all (rejected ops clock (p_config p)) (p_idle p)" "p_idle p1 = []" by (simp_all add: took_def)
  with assms False loop n checkout_loop_frame [OF loop] show ?thesis
    by (auto simp: checkout_def Let_def finish_checkout_def split: io.splits prod.splits)
qed

text \<open>
  The reference for the search through the idle stack, top first: it discards what it rejects, each connection judged at its own clock
  reading, and returns how many were expired and how many failed their probe, the next reading, and the stack from the first
  usable connection on.
\<close>

fun discard ::
    "'s client_ops \<Rightarrow> clock \<Rightarrow> pool_config \<Rightarrow> nat \<Rightarrow> 's parked list \<Rightarrow> nat \<times> nat \<times> nat \<times> 's parked list" where
  "discard ops clock cfg t [] = (0, 0, t, [])"
| "discard ops clock cfg t (pk # stack) =
     (case judge ops clock cfg t pk of
        Usable c \<Rightarrow> (0, 0, t, pk # stack)
      | Expired \<Rightarrow> (let (ex, fl, t', left) = discard ops clock cfg (t + 1) stack in (ex + 1, fl, t', left))
      | ProbeFailed \<Rightarrow> (let (ex, fl, t', left) = discard ops clock cfg (t + 2) stack in (ex, fl + 1, t', left)))"

text \<open>The counters after \<open>ex\<close> evictions and \<open>fl\<close> failed probes, with one more probe that succeeded if \<open>ok\<close>.\<close>

definition search_metrics :: "nat \<Rightarrow> nat \<Rightarrow> bool \<Rightarrow> pool_metrics \<Rightarrow> pool_metrics" where
  "search_metrics ex fl ok m =
     m\<lparr>m_evicted := m_evicted m + of_nat ex, m_probed := m_probed m + of_nat fl + (if ok then 1 else 0),
       m_dropped := m_dropped m + of_nat fl\<rparr>"

definition stale_at :: "clock \<Rightarrow> pool_config \<Rightarrow> nat \<Rightarrow> 's parked \<Rightarrow> bool" where
  "stale_at clock cfg t pk \<longleftrightarrow> elapsed (clock (t + 1)) (pk_idle_since pk) > stale_after cfg"

lemma discard_usable:
  "discard ops clock cfg t stack = (ex, fl, t1, pk # rest) \<Longrightarrow> \<exists>c. judge ops clock cfg t1 pk = Usable c"
  by (induction stack arbitrary: t ex fl) (auto split: verdict.splits prod.splits)

lemma checkout_loop_discard:
  assumes "discard ops clock (p_config p) t (rev (p_idle p)) = (ex, fl, t1, left)"
  shows "checkout_loop ops clock t p =
    (case left of
       [] \<Rightarrow> (None, t1, p\<lparr>p_idle := [], p_metrics := search_metrics ex fl False (p_metrics p)\<rparr>)
     | pk # rest \<Rightarrow>
         (case judge ops clock (p_config p) t1 pk of
            Usable c \<Rightarrow> (Some (c, pk_created_at pk), t1 + 2,
              p\<lparr>p_idle := rev rest, p_metrics := search_metrics ex fl (stale_at clock (p_config p) t1 pk) (p_metrics p)\<rparr>)
          | _ \<Rightarrow> undefined))"
  using assms
proof (induction "rev (p_idle p)" arbitrary: p t ex fl)
  case Nil
  then show ?case by (simp add: checkout_loop_Nil search_metrics_def)
next
  case (Cons pk stack)
  then have idle: "p_idle p = rev stack @ [pk]" by (metis rev.simps(2) rev_rev_ident)
  note unfold = checkout_loop.simps [of ops clock t p] idle
  show ?case
  proof (cases "judge ops clock (p_config p) t pk")
    case (Usable c)
    with Cons.prems Cons.hyps(2) [symmetric] have "ex = 0" "fl = 0" "t1 = t" "left = pk # stack" by simp_all
    with Usable show ?thesis
      by (auto simp: unfold judge_def search_metrics_def stale_at_def pool_simps Let_def split: if_splits prod.splits io.splits)
  next
    case Expired
    let ?p = "inc_evicted 1 (p\<lparr>p_idle := rev stack\<rparr>)"
    from Expired Cons.prems idle obtain ex' where d: "discard ops clock (p_config ?p) (t + 1) (rev (p_idle ?p)) = (ex', fl, t1, left)"
      "ex = Suc ex'" by (auto simp: pool_simps split: prod.splits)
    have "checkout_loop ops clock t p = checkout_loop ops clock (t + 1) ?p"
      using Expired by (auto simp: unfold judge_def Let_def split: if_splits prod.splits io.splits)
    with Cons.hyps(1) [OF _ d(1)] d(2) show ?thesis
      by (simp add: search_metrics_def pool_simps ac_simps split: list.split verdict.split)
  next
    case ProbeFailed
    let ?p = "inc_dropped (inc_probed (p\<lparr>p_idle := rev stack\<rparr>))"
    from ProbeFailed Cons.prems idle obtain fl' where d: "discard ops clock (p_config ?p) (t + 2) (rev (p_idle ?p)) = (ex, fl', t1, left)"
      "fl = Suc fl'" by (auto simp: pool_simps split: prod.splits)
    have "checkout_loop ops clock t p = checkout_loop ops clock (t + 2) ?p"
      using ProbeFailed by (auto simp: unfold judge_def Let_def split: if_splits prod.splits io.splits)
    with Cons.hyps(1) [OF _ d(1)] d(2) show ?thesis
      by (simp add: search_metrics_def pool_simps ac_simps split: list.split verdict.split)
  qed
qed

text \<open>
  Property C18. What \<^verbatim>\<open>checkout\<close> does, on every outcome, to the last field of the pool. Without a permit it waits and counts itself
  waiting. Otherwise it judges the parked connections from the most recently parked one down, each at its own clock reading, and
  discards those past their lifetime (counted evicted) and those that are stale and fail their probe (counted probed and dropped);
  the first usable one is handed out with its creation time and the rest stays in order. Only when all are discarded does it connect, at
  the next reading: a failed connect is counted dropped and costs no permit, one that never resolves keeps the permit, and a new
  connection is handed out with the reading after the connect as its creation time, counted created. Either lease counts as a checkout, as
  reused and as active.
\<close>

theorem checkout_outcome:
  assumes "discard ops clock (p_config p) t (rev (p_idle p)) = (ex, fl, t1, left)"
  shows "(p_permits p = 0 \<longrightarrow> checkout ops clock connect t p = (Blocked, t, add_waiting 1 p)) \<and>
    (p_permits p > 0 \<longrightarrow>
      (case left of
         pk # rest \<Rightarrow>
           (\<exists>c. judge ops clock (p_config p) t1 pk = Usable c \<and>
             (let m = search_metrics ex fl (stale_at clock (p_config p) t1 pk) (p_metrics p)
              in checkout ops clock connect t p =
                (Done \<lparr>l_conn = c, l_created_at = pk_created_at pk\<rparr>, t1 + 2,
                 p\<lparr>p_permits := p_permits p - 1, p_idle := rev rest,
                   p_metrics := m\<lparr>m_checkouts := m_checkouts m + 1, m_reused := m_reused m + 1, m_active := m_active m + 1\<rparr>\<rparr>)))
       | [] \<Rightarrow>
           (let m = search_metrics ex fl False (p_metrics p)
            in checkout ops clock connect t p =
              (case connect (p_connect p) t1 of
                 Fail e \<Rightarrow> (Fail e, t1 + 1, p\<lparr>p_idle := [], p_metrics := m\<lparr>m_dropped := m_dropped m + 1\<rparr>\<rparr>)
               | Blocked \<Rightarrow> (Blocked, t1 + 1, p\<lparr>p_permits := p_permits p - 1, p_idle := [], p_metrics := m\<rparr>)
               | Done c \<Rightarrow> (Done \<lparr>l_conn = c, l_created_at = clock (t1 + 1)\<rparr>, t1 + 2,
                   p\<lparr>p_permits := p_permits p - 1, p_idle := [],
                     p_metrics := m\<lparr>m_created := m_created m + 1, m_checkouts := m_checkouts m + 1,
                       m_reused := m_reused m + 1, m_active := m_active m + 1\<rparr>\<rparr>)))))"
proof -
  let ?p = "add_waiting (-1) (take_permit (add_waiting 1 p))"
  have p: "?p = p\<lparr>p_permits := p_permits p - 1\<rparr>" by (simp add: pool_simps)
  have loop: "discard ops clock (p_config ?p) t (rev (p_idle ?p)) = (ex, fl, t1, left)" using assms by simp
  show ?thesis
  proof (cases left)
    case Nil
    with checkout_loop_discard [OF loop] show ?thesis
      unfolding checkout_def p by (simp add: Let_def finish_checkout_def pool_simps split: io.split)
  next
    case (Cons pk rest)
    with discard_usable assms obtain c where "judge ops clock (p_config p) t1 pk = Usable c" by blast
    with Cons checkout_loop_discard [OF loop] show ?thesis
      unfolding checkout_def p by (simp add: Let_def finish_checkout_def pool_simps)
  qed
qed

definition sample_args :: connect_args where
  "sample_args = \<lparr>ca_connstring = ''host=a'', ca_user = ''u'', ca_database = None, ca_password = None,
     ca_tls = upstream_tls_default\<rparr>"

definition sample_pool :: "(server_phase \<times> tx_status) parked list \<Rightarrow> (server_phase \<times> tx_status) pool" where
  "sample_pool parked =
     (pool_new \<lparr>key_route = ''main'', key_endpoint = ''primary'', key_user = ''u'', key_database = None\<rparr>
        pool_config_default sample_args)\<lparr>p_idle := parked\<rparr>"

definition sample_parked :: "instant \<Rightarrow> (server_phase \<times> tx_status) parked" where
  "sample_parked at = \<lparr>pk_conn = sample_conn Quiet Idle, pk_idle_since = at, pk_created_at = at\<rparr>"

definition sample_lease :: "instant \<Rightarrow> (server_phase \<times> tx_status) lease" where
  "sample_lease at = \<lparr>l_conn = sample_conn Quiet Idle, l_created_at = at\<rparr>"

text \<open>
  A pool for the witnesses: the top connection was closed by the server meanwhile, the one below is alive, both are stale; the
  bottom one is past its lifetime.
\<close>

definition sample_dead :: "(server_phase \<times> tx_status) conn" where
  "sample_dead = (sample_conn Executing Idle)\<lparr>at_eof := True\<rparr>"

definition sample_stale_pool :: "(server_phase \<times> tx_status) pool" where
  "sample_stale_pool = sample_pool
     [\<lparr>pk_conn = sample_conn Quiet Idle, pk_idle_since = 0, pk_created_at = 0\<rparr>,
      \<lparr>pk_conn = sample_conn Quiet Idle, pk_idle_since = 0, pk_created_at = from_secs 3600\<rparr>,
      \<lparr>pk_conn = sample_dead, pk_idle_since = 0, pk_created_at = from_secs 3600\<rparr>]"

definition sample_clock :: clock where
  "sample_clock n = from_secs 3600 + n"

lemma sample_probes:
  "probe sample_ops sample_dead = (Fail UnexpectedEOF, sample_dead)"
  "probe sample_ops (sample_conn Quiet Idle) = (Done (), sample_conn Quiet Idle)"
  by (simp_all add: probe_def close_cycle_def conn_send_def sample_ops_def sample_dead_def sample_conn_def drain_until_ready_def
      set_transaction_status_def)

lemma sample_discard:
  "discard sample_ops sample_clock (p_config sample_stale_pool) 0 (rev (p_idle sample_stale_pool)) =
     (0, 1, 2, [\<lparr>pk_conn = sample_conn Quiet Idle, pk_idle_since = 0, pk_created_at = from_secs 3600\<rparr>,
        \<lparr>pk_conn = sample_conn Quiet Idle, pk_idle_since = 0, pk_created_at = 0\<rparr>])"
  by (simp add: sample_stale_pool_def sample_pool_def pool_new_def judge_def sample_probes pool_config_default_def
      sample_clock_def elapsed_def from_secs_def)

lemma checkout_outcome_sample:
  "fst (checkout sample_ops sample_clock (\<lambda>a n. Fail UnexpectedEOF) 0 sample_stale_pool) =
     Done \<lparr>l_conn = sample_conn Quiet Idle, l_created_at = from_secs 3600\<rparr>"
  by (simp add: checkout_def checkout_loop.simps sample_stale_pool_def sample_pool_def pool_new_def sample_probes pool_config_default_def capacity_def
      vec_pop_def sample_clock_def elapsed_def from_secs_def finish_checkout_def Let_def)

theorem checkout_outcome_witness:
  "fst (checkout sample_ops sample_clock (\<lambda>a n. Fail UnexpectedEOF) 0 sample_stale_pool) =
     Done \<lparr>l_conn = sample_conn Quiet Idle, l_created_at = from_secs 3600\<rparr>"
  using checkout_outcome [OF sample_discard]
  by (simp add: sample_stale_pool_def sample_pool_def pool_new_def judge_def sample_probes pool_config_default_def capacity_def
      sample_clock_def elapsed_def from_secs_def Let_def)

section \<open>Handing out live connections\<close>

definition no_ready :: "recv list \<Rightarrow> bool" where
  "no_ready items \<longleftrightarrow> (\<forall>st. RMsg (BReadyForQuery st) \<notin> set items)"

text \<open>
  A server that may fail but does not lie: when it answers a \<^verbatim>\<open>Sync\<close> between cycles with a \<^verbatim>\<open>ReadyForQuery\<close> at all, that one ends the
  cycle and nothing else follows.
\<close>

definition answers_sync :: "'s client_ops \<Rightarrow> ('s \<Rightarrow> server_phase) \<Rightarrow> ('s \<Rightarrow> tx_status) \<Rightarrow> bool" where
  "answers_sync ops phase tx \<longleftrightarrow>
     (\<forall>w w' items. phase w = Quiet \<and> op_send ops w FSync = Inr (w', items) \<longrightarrow>
        no_ready items \<or> ends_cycle phase tx w' items \<and> tx w' = tx w)"

text \<open>
  What a parked connection can have become: still at rest, perhaps with notices or an error delivered meanwhile, or dead - a
  \<^verbatim>\<open>Sync\<close> on it fails or brings no \<^verbatim>\<open>ReadyForQuery\<close>.
\<close>

definition at_rest :: "('s \<Rightarrow> server_phase) \<Rightarrow> ('s \<Rightarrow> tx_status) \<Rightarrow> 's conn \<Rightarrow> bool" where
  "at_rest phase tx c \<longleftrightarrow> phase (wire c) = Quiet \<and> tx (wire c) = Idle \<and> no_ready (inbox c) \<and> \<not> at_eof c"

definition dead_conn :: "'s client_ops \<Rightarrow> 's conn \<Rightarrow> bool" where
  "dead_conn ops c \<longleftrightarrow>
     no_ready (inbox c) \<and> (\<forall>w items. op_send ops (wire c) FSync = Inr (w, items) \<longrightarrow> no_ready items)"

lemma no_ready_append: "no_ready (xs @ ys) \<longleftrightarrow> no_ready xs \<and> no_ready ys"
  by (auto simp: no_ready_def)

lemma probe_Done:
  assumes "probe ops c = (Done (), c')"
  obtains w items pre st where "op_send ops (wire c) FSync = Inr (w, items)"
    "inbox c @ items = pre @ RMsg (BReadyForQuery st) # inbox c'" "list_all passes pre"
    "transaction_status c' = st" "wire c' = w" "at_eof c' = at_eof c"
proof -
  obtain w items where s: "op_send ops (wire c) FSync = Inr (w, items)"
    "drain_items (inbox c @ items) (c\<lparr>wire := w, inbox := inbox c @ items\<rparr>) = (Done (), c')"
    using assms by (auto simp: probe_def close_cycle_def conn_send_def drain_until_ready_def split: prod.splits io.splits sum.splits)
  from drain_items_Done [OF s(2)] at_eof_drain_items [of "inbox c @ items" "c\<lparr>wire := w, inbox := inbox c @ items\<rparr>"] s that
  show ?thesis by auto
qed

lemma ready_not_no_ready: "no_ready (pre @ RMsg (BReadyForQuery st) # post) = False"
  by (auto simp: no_ready_def)

lemma dead_fails_probe:
  assumes "dead_conn ops c"
  shows "probe ops c \<noteq> (Done (), c')"
proof
  assume "probe ops c = (Done (), c')"
  then obtain w items pre st where "op_send ops (wire c) FSync = Inr (w, items)"
    "inbox c @ items = pre @ RMsg (BReadyForQuery st) # inbox c'" by (rule probe_Done)
  moreover from this(1) assms have "no_ready (inbox c @ items)" by (simp add: dead_conn_def no_ready_append)
  ultimately show False by (simp add: ready_not_no_ready)
qed

lemma probe_at_rest:
  assumes "answers_sync ops phase tx" "at_rest phase tx c" "probe ops c = (Done (), c')"
  shows "neutral phase tx c'"
proof -
  obtain w items pre st where p: "op_send ops (wire c) FSync = Inr (w, items)"
    "inbox c @ items = pre @ RMsg (BReadyForQuery st) # inbox c'" "transaction_status c' = st" "wire c' = w" "at_eof c' = at_eof c"
    using assms(3) by (rule probe_Done)
  have "no_ready (inbox c)" "\<not> no_ready (inbox c @ items)" using assms(2) p(2) by (auto simp: at_rest_def no_ready_def)
  then have "\<not> no_ready items" by (simp add: no_ready_append)
  with assms(1,2) p(1) have e: "ends_cycle phase tx w items" "tx w = Idle" unfolding answers_sync_def at_rest_def by metis+
  obtain pre' where pre': "items = pre' @ [RMsg (BReadyForQuery Idle)]" "list_all passes pre'" "phase w = Quiet"
    using ends_cycle_split [OF e(1)] e(2) by metis
  have "no_ready (inbox c @ pre')" using \<open>no_ready (inbox c)\<close> pre'(2) by (auto simp: no_ready_append no_ready_def list_all_iff)
  moreover have "(inbox c @ pre') @ [RMsg (BReadyForQuery Idle)] = pre @ RMsg (BReadyForQuery st) # inbox c'" using p(2) pre'(1) by simp
  ultimately have "inbox c' = [] \<and> st = Idle"
    by (cases "inbox c'" rule: rev_cases) (auto simp: ready_not_no_ready simp flip: append_assoc append_Cons)
  with p e pre' assms(2) show ?thesis by (simp add: neutral_def at_rest_def)
qed

lemma discard_suffix:
  "discard ops clock cfg t stack = (ex, fl, t1, left) \<Longrightarrow> \<exists>gone. stack = gone @ left \<and> t \<le> t1"
proof (induction stack arbitrary: t ex fl)
  case (Cons pk stack)
  show ?case
  proof (cases "judge ops clock cfg t pk")
    case (Usable c)
    with Cons.prems show ?thesis by auto
  next
    case Expired
    with Cons.prems obtain e f where "discard ops clock cfg (t + 1) stack = (e, f, t1, left)" by (auto split: prod.splits)
    from Cons.IH [OF this] show ?thesis by (metis Cons_eq_appendI add_leD1)
  next
    case ProbeFailed
    with Cons.prems obtain e f where "discard ops clock cfg (t + 2) stack = (e, f, t1, left)" by (auto split: prod.splits)
    from Cons.IH [OF this] show ?thesis by (metis Cons_eq_appendI add_leD1)
  qed
qed simp

lemma neutral_at_rest: "neutral phase tx c \<Longrightarrow> at_rest phase tx c"
  by (simp add: neutral_def at_rest_def no_ready_def)

lemma judge_neutral:
  assumes "answers_sync ops phase tx" "judge ops clock cfg t pk = Usable c"
    and "neutral phase tx (pk_conn pk) \<or>
       (\<forall>n. stale_at clock cfg n pk) \<and> (at_rest phase tx (pk_conn pk) \<or> dead_conn ops (pk_conn pk))"
  shows "neutral phase tx c"
proof (cases "stale_at clock cfg t pk")
  case True
  with assms(2) have p: "probe ops (pk_conn pk) = (Done (), c)"
    by (auto simp: judge_def stale_at_def split: if_splits prod.splits io.splits)
  with dead_fails_probe assms(3) neutral_at_rest have "at_rest phase tx (pk_conn pk)" by blast
  from probe_at_rest [OF assms(1) this p] show ?thesis .
next
  case False
  with assms(2,3) show ?thesis by (auto simp: judge_def stale_at_def split: if_splits)
qed

text \<open>
  Property C19. \<^verbatim>\<open>checkout\<close> hands out a live, neutral connection even when parked ones have died, as long as the server does
  not lie: those that have been idle for longer than \<^verbatim>\<open>stale_after\<close> may be dead or have unread notices on them, they
  are probed first and a failed probe is not handed out; those idle for less are trusted, so they are assumed to be neutral still, and
  fresh connections are assumed to come out of their handshake neutral. The lease is within its lifetime at a reading
  the checkout made, and what is left in the pool is the lower part of the stack, untouched.
\<close>

theorem checkout_hands_out_neutral:
  assumes "answers_sync ops phase tx" "connector_clean phase tx connect"
    and "\<forall>pk\<in>set (p_idle p). neutral phase tx (pk_conn pk) \<or>
       (\<forall>n. stale_at clock (p_config p) n pk) \<and> (at_rest phase tx (pk_conn pk) \<or> dead_conn ops (pk_conn pk))"
    and "checkout ops clock connect t p = (Done l, t', p')"
  shows "neutral phase tx (l_conn l) \<and>
    (\<exists>n. t \<le> n \<and> n < t' \<and> elapsed (clock n) (l_created_at l) \<le> max_lifetime (p_config p)) \<and>
    (\<exists>gone. p_idle p = p_idle p' @ gone)"
proof -
  obtain ex fl t1 left where d: "discard ops clock (p_config p) t (rev (p_idle p)) = (ex, fl, t1, left)" by (metis prod_cases4)
  from discard_suffix [OF d] obtain gone where gone: "rev (p_idle p) = gone @ left" "t \<le> t1" by blast
  then have idle: "p_idle p = rev left @ rev gone" by (metis rev_append rev_rev_ident)
  note out = checkout_outcome [OF d, of connect]
  from assms(4) have pos: "p_permits p > 0" using out by (cases "p_permits p = 0") auto
  show ?thesis
  proof (cases left)
    case Nil
    with out pos assms(4) obtain c where "connect (p_connect p) t1 = Done c" "l = \<lparr>l_conn = c, l_created_at = clock (t1 + 1)\<rparr>"
      "t' = t1 + 2" "p_idle p' = []" by (auto simp: Let_def split: io.splits)
    with assms(2) gone(2) show ?thesis by (auto simp: connector_clean_def elapsed_def intro!: exI [of _ "t1 + 1"])
  next
    case (Cons pk rest)
    with out pos assms(4) obtain c where c: "judge ops clock (p_config p) t1 pk = Usable c" "l = \<lparr>l_conn = c, l_created_at = pk_created_at pk\<rparr>"
      "t' = t1 + 2" "p_idle p' = rev rest" by (auto simp: Let_def)
    have "pk \<in> set (p_idle p)" using idle Cons by simp
    with assms(3) judge_neutral [OF assms(1) c(1)] have "neutral phase tx c" by blast
    moreover have "elapsed (clock t1) (pk_created_at pk) \<le> max_lifetime (p_config p)"
      using c(1) by (auto simp: judge_def split: if_splits)
    ultimately show ?thesis using c(2-4) gone(2) idle Cons by (auto intro!: exI [of _ t1])
  qed
qed

lemma sample_answers_sync: "answers_sync sample_ops fst snd"
  by (auto simp: answers_sync_def sample_ops_def ends_cycle_def)

lemma sample_connector_clean: "connector_clean fst snd (\<lambda>a n. Fail UnexpectedEOF)"
  by (simp add: connector_clean_def)

theorem checkout_hands_out_neutral_witness:
  "\<exists>l t' p'. checkout sample_ops sample_clock (\<lambda>a n. Fail UnexpectedEOF) 0 sample_stale_pool = (Done l, t', p') \<and>
     neutral fst snd (l_conn l) \<and> \<not> neutral fst snd sample_dead"
proof -
  obtain l t' p' where c: "checkout sample_ops sample_clock (\<lambda>a n. Fail UnexpectedEOF) 0 sample_stale_pool = (Done l, t', p')"
    using checkout_outcome_sample by (metis prod.exhaust fst_conv)
  have "\<forall>pk\<in>set (p_idle sample_stale_pool). neutral fst snd (pk_conn pk) \<or>
       (\<forall>n. stale_at sample_clock (p_config sample_stale_pool) n pk) \<and> (at_rest fst snd (pk_conn pk) \<or> dead_conn sample_ops (pk_conn pk))"
    by (auto simp: sample_stale_pool_def sample_pool_def pool_new_def neutral_def sample_conn_def sample_dead_def stale_at_def sample_clock_def
        elapsed_def from_secs_def pool_config_default_def dead_conn_def sample_ops_def no_ready_def)
  from checkout_hands_out_neutral [OF sample_answers_sync sample_connector_clean this c] c show ?thesis
    by (auto simp: sample_dead_def neutral_def)
qed

lemma park_or_evict_spec:
  assumes "park_or_evict clock t c created p = (t', p')"
  shows "p_permits p' = Suc (p_permits p)" "p_config p' = p_config p"
    "p_idle p' = (if elapsed (clock t) created > max_lifetime (p_config p) then p_idle p
       else p_idle p @ [\<lparr>pk_conn = c, pk_idle_since = clock (t + 1), pk_created_at = created\<rparr>])"
  using assms by (auto simp: park_or_evict_def pool_simps split: if_splits)

section \<open>Only sanitized connections are parked\<close>

text \<open>
  A server that may fail at any step - a send fails, an answer breaks off with an error, a query is refused, the stream has ended -
  but whose answers, when they come, are the protocol's.
\<close>

definition cut_off :: "recv list \<Rightarrow> bool" where
  "cut_off items \<longleftrightarrow> (\<exists>pre e rest. items = pre @ RErr e # rest \<and> list_all passes pre)"

definition server_honest :: "'s client_ops \<Rightarrow> ('s \<Rightarrow> server_phase) \<Rightarrow> ('s \<Rightarrow> tx_status) \<Rightarrow> bool" where
  "server_honest ops phase tx \<longleftrightarrow>
     (\<forall>w w' items. phase w = Quiet \<or> phase w = ExtendedOpen \<longrightarrow> op_send ops w FSync = Inr (w', items) \<longrightarrow>
        cut_off items \<or> list_all passes items \<or> ends_cycle phase tx w' items) \<and>
     (\<forall>w. phase w = Quiet \<or> phase w = ExtendedOpen \<longrightarrow> op_cancel ops w = (w, [])) \<and>
     (\<forall>w w' items. phase w = Executing \<longrightarrow> op_cancel ops w = (w', items) \<longrightarrow>
        cut_off items \<or> ends_cycle phase tx w' items \<or> leaves_open phase w' items) \<and>
     (\<forall>w m w' items. phase w = CopyIn \<longrightarrow> op_send ops w (FCopyFail m) = Inr (w', items) \<longrightarrow>
        cut_off items \<or> ends_cycle phase tx w' items \<or> leaves_open phase w' items) \<and>
     (\<forall>w m w' items. phase w = Quiet \<longrightarrow> op_send ops w (FCopyFail m) = Inr (w', items) \<longrightarrow>
        items = [] \<and> phase w' = Quiet \<and> tx w' = tx w) \<and>
     (\<forall>c c'. settled phase tx c \<longrightarrow>
        (op_simple_query ops c ''ROLLBACK'' = (Done (), c') \<longrightarrow> neutral phase tx c') \<and>
        (tx (wire c) = Idle \<and> op_simple_query ops c ''DISCARD ALL'' = (Done (), c') \<longrightarrow> neutral phase tx c')) \<and>
     (\<forall>c q c'. at_eof c \<longrightarrow> op_simple_query ops c q \<noteq> (Done (), c'))"

text \<open>Where a drain either fails or ends the cycle in order, and what it then leaves.\<close>

definition orderly :: "('s \<Rightarrow> server_phase) \<Rightarrow> ('s \<Rightarrow> tx_status) \<Rightarrow> 's conn \<Rightarrow> bool" where
  "orderly phase tx c \<longleftrightarrow>
     cut_off (inbox c) \<or> ends_cycle phase tx (wire c) (inbox c) \<or>
     (phase (wire c) = Quiet \<or> phase (wire c) = ExtendedOpen) \<and> list_all passes (inbox c)"

definition cycle_ended :: "('s \<Rightarrow> server_phase) \<Rightarrow> ('s \<Rightarrow> tx_status) \<Rightarrow> 's conn \<Rightarrow> bool" where
  "cycle_ended phase tx c \<longleftrightarrow> phase (wire c) = Quiet \<and> inbox c = [] \<and> transaction_status c = tx (wire c)"

lemma cut_off_prepend: "list_all passes pre \<Longrightarrow> cut_off items \<Longrightarrow> cut_off (pre @ items)"
  unfolding cut_off_def by (metis append.assoc list_all_append)

lemma cut_off_append: "cut_off items \<Longrightarrow> cut_off (items @ new)"
  unfolding cut_off_def by (metis append.assoc append_Cons)

lemma drain_cut_off: "cut_off (inbox c) \<Longrightarrow> drain_until_ready c \<noteq> (Done (), c') \<and> drain_until_ready c \<noteq> (Blocked, c')"
  by (auto simp: cut_off_def drain_until_ready_def drain_items_pass)

lemma drain_ended:
  assumes "ends_cycle phase tx (wire c) (inbox c)"
  shows "\<exists>c'. drain_until_ready c = (Done (), c') \<and> cycle_ended phase tx c'"
  using assms by (auto simp: drain_until_ready_def drain_items_ready cycle_ended_def elim!: ends_cycle_split)

lemma drain_passes:
  assumes "list_all passes (inbox c)"
  shows "\<exists>c'. drain_until_ready c = (if at_eof c then Fail UnexpectedEOF else Blocked, c') \<and> inbox c' = [] \<and> wire c' = wire c"
  using assms drain_items_pass [of "inbox c" "[]" c] by (simp add: drain_until_ready_def)

lemma orderly_after:
  assumes "list_all passes (inbox c)" "cut_off items \<or> ends_cycle phase tx w items \<or> leaves_open phase w items"
  shows "orderly phase tx (c\<lparr>wire := w, inbox := inbox c @ items\<rparr>)"
  using assms by (auto simp: orderly_def leaves_open_def intro: ends_cycle_prepend cut_off_prepend)

lemma close_cycle_ended:
  assumes "server_honest ops phase tx" "phase (wire c) = Quiet \<or> phase (wire c) = ExtendedOpen" "list_all passes (inbox c)"
    and "close_cycle ops c = (Done (), c')"
  shows "cycle_ended phase tx c'"
proof -
  obtain w items where s: "op_send ops (wire c) FSync = Inr (w, items)"
    and d: "drain_until_ready (c\<lparr>wire := w, inbox := inbox c @ items\<rparr>) = (Done (), c')"
    using assms(4) by (auto simp: close_cycle_def conn_send_def split: sum.splits)
  have "cut_off items \<or> list_all passes items \<or> ends_cycle phase tx w items"
    using assms(1,2) s unfolding server_honest_def by blast
  moreover have "\<not> cut_off items"
    using drain_cut_off [of "c\<lparr>wire := w, inbox := inbox c @ items\<rparr>"] cut_off_prepend [OF assms(3)] d by auto
  moreover have "\<not> list_all passes items"
    using drain_passes [of "c\<lparr>wire := w, inbox := inbox c @ items\<rparr>"] assms(3) d by (auto split: if_splits)
  ultimately have "ends_cycle phase tx w items" by simp
  then have "ends_cycle phase tx w (inbox c @ items)" by (rule ends_cycle_prepend [OF assms(3)])
  with drain_ended [of phase tx "c\<lparr>wire := w, inbox := inbox c @ items\<rparr>"] d show ?thesis by simp
qed

lemma drain_or_close_ended:
  assumes "server_honest ops phase tx" "orderly phase tx c"
    and "(case drain_until_ready c of (Blocked, c3) \<Rightarrow> close_cycle ops c3 | r \<Rightarrow> r) = (Done (), c')"
  shows "cycle_ended phase tx c'"
proof -
  from assms(2) consider "cut_off (inbox c)" | "ends_cycle phase tx (wire c) (inbox c)"
    | "phase (wire c) = Quiet \<or> phase (wire c) = ExtendedOpen" "list_all passes (inbox c)" unfolding orderly_def by blast
  then show ?thesis
  proof cases
    case 1
    from drain_cut_off [OF this] assms(3) show ?thesis by (auto split: prod.splits io.splits)
  next
    case 2
    from drain_ended [OF this] assms(3) show ?thesis by auto
  next
    case 3
    from drain_passes [OF 3(2)] assms(3) obtain c3 where "inbox c3 = []" "wire c3 = wire c" "close_cycle ops c3 = (Done (), c')"
      by (auto split: if_splits)
    with 3(1) close_cycle_ended [OF assms(1), of c3 c'] show ?thesis by simp
  qed
qed

lemma orderly_cancel:
  assumes "server_honest ops phase tx" "orderly phase tx c \<or> phase (wire c) = Executing \<and> list_all passes (inbox c)"
  shows "orderly phase tx (conn_cancel ops c)"
proof -
  obtain w items where c: "op_cancel ops (wire c) = (w, items)" by fastforce
  show ?thesis
  proof (cases "cut_off (inbox c)")
    case True
    with c show ?thesis by (simp add: conn_cancel_def orderly_def cut_off_append)
  next
    case False
    show ?thesis
    proof (cases "phase (wire c) = Executing \<and> list_all passes (inbox c)")
      case True
      with assms(1) c have "cut_off items \<or> ends_cycle phase tx w items \<or> leaves_open phase w items"
        unfolding server_honest_def by blast
      from orderly_after [OF conjunct2 [OF True] this] c show ?thesis by (simp add: conn_cancel_def)
    next
      case no: False
      with assms(2) False have "phase (wire c) = Quiet \<or> phase (wire c) = ExtendedOpen"
        by (auto simp: orderly_def dest: ends_cycle_Quiet)
      then have "op_cancel ops (wire c) = (wire c, [])" using assms(1) unfolding server_honest_def by blast
      with no assms(2) show ?thesis by (auto simp: conn_cancel_def)
    qed
  qed
qed

lemma orderly_copy_fail:
  assumes "server_honest ops phase tx" "hygiene_truthful phase h c" "one_cycle phase tx h c" "copy h = ClientOwesCopy"
    and "conn_send ops (FCopyFail m) c = (None, c')"
  shows "orderly phase tx c'"
proof -
  obtain w items where s: "op_send ops (wire c) (FCopyFail m) = Inr (w, items)" "c' = c\<lparr>wire := w, inbox := inbox c @ items\<rparr>"
    using assms(5) by (auto simp: conn_send_def split: sum.splits)
  show ?thesis
  proof (cases "phase (wire c) = Quiet")
    case True
    with assms(1) s(1) have "items = []" "phase w = Quiet" "tx w = tx (wire c)" unfolding server_honest_def by blast+
    with assms(3) s(2) show ?thesis by (auto simp: orderly_def one_cycle_def ends_cycle_def)
  next
    case False
    with assms(2,4) have copy: "phase (wire c) = CopyIn" by (simp add: hygiene_truthful_def)
    then have "list_all passes (inbox c)" using assms(3) by (auto simp: one_cycle_def dest: ends_cycle_Quiet)
    moreover have "cut_off items \<or> ends_cycle phase tx w items \<or> leaves_open phase w items"
      using assms(1) copy s(1) unfolding server_honest_def by blast
    ultimately show ?thesis unfolding s(2) by (rule orderly_after)
  qed
qed

lemma orderly_without_copy:
  assumes "hygiene_truthful phase h c" "one_cycle phase tx h c" "copy h \<noteq> ClientOwesCopy"
  shows "orderly phase tx c \<or> phase (wire c) = Executing \<and> list_all passes (inbox c)"
  using assms by (cases "phase (wire c)") (auto simp: hygiene_truthful_def one_cycle_def orderly_def dest: ends_cycle_Quiet)

lemma first_stage_ended:
  assumes "server_honest ops phase tx" "prompt ops" "hygiene_truthful phase h c" "one_cycle phase tx h c"
    and "(if copy h = ClientOwesCopy then settle ops True (awaiting_response h) c
          else if awaiting_response h then settle ops False True c else close_cycle ops c) = (Done (), c')"
  shows "cycle_ended phase tx c'"
proof (cases "copy h = ClientOwesCopy")
  case True
  with assms(5) obtain c1 where c1: "conn_send ops (FCopyFail ''pgferry: client disconnected during COPY'') c = (None, c1)"
    "(case drain_until_ready (if awaiting_response h then conn_cancel ops c1 else c1) of
        (Blocked, c3) \<Rightarrow> close_cycle ops c3 | r \<Rightarrow> r) = (Done (), c')"
    by (auto simp: settle_def Let_def drain_window_prompt [OF assms(2)] split: prod.splits option.splits if_splits)
  have "orderly phase tx c1" by (rule orderly_copy_fail [OF assms(1,3,4) True c1(1)])
  then have "orderly phase tx (if awaiting_response h then conn_cancel ops c1 else c1)" using orderly_cancel [OF assms(1)] by simp
  from drain_or_close_ended [OF assms(1) this c1(2)] show ?thesis .
next
  case False
  note free = orderly_without_copy [OF assms(3,4) False]
  show ?thesis
  proof (cases "awaiting_response h")
    case True
    with False assms(5) have "(case drain_until_ready (conn_cancel ops c) of (Blocked, c3) \<Rightarrow> close_cycle ops c3 | r \<Rightarrow> r) = (Done (), c')"
      by (simp add: settle_def Let_def drain_window_prompt [OF assms(2)])
    from drain_or_close_ended [OF assms(1) orderly_cancel [OF assms(1) free] this] show ?thesis .
  next
    case no: False
    with False assms(3,4) have "(phase (wire c) = Quiet \<or> phase (wire c) = ExtendedOpen) \<and> list_all passes (inbox c)"
      by (cases "phase (wire c)") (auto simp: hygiene_truthful_def one_cycle_def)
    with False no assms(5) close_cycle_ended [OF assms(1)] show ?thesis by auto
  qed
qed

lemma sanitize_sound:
  assumes "server_honest ops phase tx" "prompt ops" "hygiene_truthful phase h c" "one_cycle phase tx h c"
    and "sanitize ops h c = (Done (), c')"
  shows "neutral phase tx c'"
proof -
  from assms(5) obtain c1 c2 where 1: "(if copy h = ClientOwesCopy then settle ops True (awaiting_response h) c
          else if awaiting_response h then settle ops False True c else close_cycle ops c) = (Done (), c1)"
    and 2: "(if transaction_status c1 \<noteq> Idle then op_simple_query ops c1 ''ROLLBACK'' else (Done (), c1)) = (Done (), c2)"
    and 3: "op_simple_query ops c2 ''DISCARD ALL'' = (Done (), c')"
    unfolding sanitize_def by (auto split: prod.splits io.splits simp del: split_paired_Ex split: if_splits)
  have e: "cycle_ended phase tx c1" by (rule first_stage_ended [OF assms(1-4) 1])
  have q: "\<not> at_eof x" if "op_simple_query ops x s = (Done (), y)" for x s y
    using assms(1) that unfolding server_honest_def by blast
  have "neutral phase tx c2"
  proof (cases "transaction_status c1 = Idle")
    case True
    with 2 3 e q [OF 3] show ?thesis by (auto simp: cycle_ended_def neutral_def)
  next
    case False
    with 2 have r: "op_simple_query ops c1 ''ROLLBACK'' = (Done (), c2)" by simp
    then have "settled phase tx c1" using e q by (auto simp: cycle_ended_def settled_def)
    with assms(1) r show ?thesis unfolding server_honest_def by blast
  qed
  then have "settled phase tx c2" "tx (wire c2) = Idle" by (auto simp: neutral_def settled_def)
  with assms(1) 3 show ?thesis unfolding server_honest_def by blast
qed

text \<open>
  Property C20. \<^verbatim>\<open>checkin\<close> parks a connection exactly when \<^verbatim>\<open>sanitize\<close> succeeded on it and it is within its lifetime, and what it parks is
  neutral - against a server that may fail at any step of the clean-up but whose answers, when they come, are the protocol's and
  arrive in time, with a truthful report and at most one response cycle outstanding. Otherwise the idle stack is left alone and
  the connection is counted dropped, or evicted when only its age was against it. The permit is given back in every case.
\<close>

theorem checkin_parks_neutral:
  assumes "server_honest ops phase tx" "prompt ops" "hygiene_truthful phase h (l_conn l)" "one_cycle phase tx h (l_conn l)"
    and "pool_clean phase tx p" "checkin ops clock h l t p = (t', p')"
  shows "pool_clean phase tx p' \<and> p_permits p' = Suc (p_permits p) \<and>
    (if is_done (fst (sanitize ops h (l_conn l))) then
       (if elapsed (clock t) (l_created_at l) > max_lifetime (p_config p)
        then p_idle p' = p_idle p \<and> m_evicted (p_metrics p') = m_evicted (p_metrics p) + 1 \<and> m_dropped (p_metrics p') = m_dropped (p_metrics p)
        else \<exists>c. p_idle p' = p_idle p @ [\<lparr>pk_conn = c, pk_idle_since = clock (t + 1), pk_created_at = l_created_at l\<rparr>] \<and>
               neutral phase tx c \<and> m_checked_in (p_metrics p') = m_checked_in (p_metrics p) + 1)
     else p_idle p' = p_idle p \<and> m_dropped (p_metrics p') = m_dropped (p_metrics p) + 1)"
proof -
  obtain r c where s: "sanitize ops h (l_conn l) = (r, c)" by fastforce
  show ?thesis
  proof (cases "r = Done ()")
    case True
    with sanitize_sound [OF assms(1-4)] s have "neutral phase tx c" by simp
    with True s assms(5,6) show ?thesis
      by (auto simp: checkin_def Let_def park_or_evict_def pool_clean_def pool_simps split: if_splits)
  next
    case False
    then have "p' = release_permit (inc_dropped (add_active (-1) p)) \<and> \<not> is_done r"
      using s assms(6) by (cases r) (auto simp: checkin_def Let_def)
    with s assms(5) show ?thesis by (simp add: pool_clean_def pool_simps)
  qed
qed

text \<open>
  The witness: the server of the samples, except that it refuses \<^verbatim>\<open>DISCARD ALL\<close> on a connection whose backend pid is 9.
\<close>

definition sample_moody :: "(server_phase \<times> tx_status) client_ops" where
  "sample_moody = sample_ops\<lparr>op_simple_query := (\<lambda>c q. if at_eof c \<or> process_id c = 9 then (Fail UnexpectedEOF, c) else sample_query c q)\<rparr>"

lemma sample_honest: "server_honest sample_moody fst snd"
  unfolding server_honest_def
  by (intro conjI) (auto simp: sample_moody_def sample_ops_def sample_query_def ends_cycle_def settled_def neutral_def split: if_splits)

theorem checkin_parks_neutral_witness:
  "(\<exists>c. p_idle (snd (checkin sample_moody (\<lambda>n. 9) \<lparr>awaiting_response = True, copy = NoCopy\<rparr>
       \<lparr>l_conn = sample_conn Executing InTransaction, l_created_at = 4\<rparr> 0 (sample_pool []))) =
       [\<lparr>pk_conn = c, pk_idle_since = 9, pk_created_at = 4\<rparr>] \<and> neutral fst snd c) \<and>
   p_idle (snd (checkin sample_moody (\<lambda>n. 9) \<lparr>awaiting_response = True, copy = NoCopy\<rparr>
       \<lparr>l_conn = (sample_conn Executing InTransaction)\<lparr>process_id := 9\<rparr>, l_created_at = 4\<rparr> 0 (sample_pool []))) = []"
proof -
  let ?h = "\<lparr>awaiting_response = True, copy = NoCopy\<rparr>"
  have prompt: "prompt sample_moody" by (simp add: prompt_def sample_moody_def sample_ops_def)
  have hyp: "hygiene_truthful fst ?h c" "one_cycle fst snd ?h c" if "c = sample_conn Executing InTransaction \<or>
      c = (sample_conn Executing InTransaction)\<lparr>process_id := 9\<rparr>" for c
    using that by (auto simp: hygiene_truthful_def one_cycle_def sample_conn_def)
  have clean: "pool_clean fst snd (sample_pool [])" by (simp add: pool_clean_def sample_pool_def)
  have ok: "is_done (fst (sanitize sample_moody ?h (sample_conn Executing InTransaction)))"
    "\<not> is_done (fst (sanitize sample_moody ?h ((sample_conn Executing InTransaction)\<lparr>process_id := 9\<rparr>)))"
    by (simp_all add: sanitize_def settle_def drain_within_def conn_cancel_def sample_moody_def sample_ops_def sample_conn_def sample_query_def
        set_transaction_status_def)
  note park = checkin_parks_neutral [OF sample_honest prompt _ _ clean prod.collapse [symmetric],
      of ?h _ "\<lambda>n. 9" 0]
  show ?thesis
    using park [of "\<lparr>l_conn = sample_conn Executing InTransaction, l_created_at = 4\<rparr>"]
      park [of "\<lparr>l_conn = (sample_conn Executing InTransaction)\<lparr>process_id := 9\<rparr>, l_created_at = 4\<rparr>"] ok hyp
    by (auto simp: sample_pool_def pool_new_def pool_config_default_def elapsed_def from_secs_def)
qed

lemma checkout_fast_path:
  assumes "p_permits p > 0" "p_idle p = rest @ [pk]"
    and "elapsed (clock t) (pk_created_at pk) \<le> max_lifetime (p_config p)"
    and "elapsed (clock (t + 1)) (pk_idle_since pk) \<le> stale_after (p_config p)"
  shows "\<exists>p'. checkout ops clock connect t p = (Done \<lparr>l_conn = pk_conn pk, l_created_at = pk_created_at pk\<rparr>, t + 2, p') \<and>
     p_idle p' = rest \<and> Suc (p_permits p') = p_permits p \<and> m_created (p_metrics p') = m_created (p_metrics p)"
  using assms by (auto simp: checkout_def Let_def checkout_loop.simps finish_checkout_def pool_simps)

text \<open>
  Lemma. Check-in and checkout round trip: a session that checks out right after a clean detach,
  before the connection goes stale or reaches its lifetime, gets the very same connection back, with
  no probe and no connect, and the pool is as it was.
\<close>

theorem detach_checkout_roundtrip:
  assumes "elapsed (clock t) (l_created_at l) \<le> max_lifetime (p_config p)"
    and "elapsed (clock (t + 2)) (l_created_at l) \<le> max_lifetime (p_config p)"
    and "elapsed (clock (t + 3)) (clock (t + 1)) \<le> stale_after (p_config p)"
    and "checkin_detached ops clock False l t p = (t1, p1)"
  shows "\<exists>p2. checkout ops clock connect t1 p1 = (Done l, t + 4, p2) \<and>
     p_idle p2 = p_idle p \<and> p_permits p2 = p_permits p \<and> m_created (p_metrics p2) = m_created (p_metrics p)"
proof -
  let ?pk = "\<lparr>pk_conn = l_conn l, pk_idle_since = clock (t + 1), pk_created_at = l_created_at l\<rparr>"
  from assms have p1: "t1 = t + 2" "p_idle p1 = p_idle p @ [?pk]" "p_permits p1 = Suc (p_permits p)"
    "p_config p1 = p_config p" "m_created (p_metrics p1) = m_created (p_metrics p)"
    by (auto simp: checkin_detached_def park_or_evict_def Let_def pool_simps)
  have "t + 3 = Suc (t1)" using p1(1) by simp
  with checkout_fast_path [of p1 "p_idle p" ?pk clock t1 ops connect] p1 assms(2,3) show ?thesis
    by (auto simp: numeral_eq_Suc)
qed

theorem detach_checkout_roundtrip_witness:
  "\<exists>p2. checkout sample_ops (\<lambda>n. 9 + n) (\<lambda>a n. Fail UnexpectedEOF)
       (fst (checkin_detached sample_ops (\<lambda>n. 9 + n) False (sample_lease 4) 0 (sample_pool [])))
       (snd (checkin_detached sample_ops (\<lambda>n. 9 + n) False (sample_lease 4) 0 (sample_pool []))) = (Done (sample_lease 4), 4, p2) \<and>
     p_idle p2 = []"
  using detach_checkout_roundtrip [OF _ _ _ prod.collapse [symmetric], of "\<lambda>n. 9 + n" 0 "sample_lease 4" "sample_pool []" sample_ops
      "\<lambda>a n. Fail UnexpectedEOF"]
  by (auto simp: sample_lease_def sample_pool_def pool_new_def pool_config_default_def elapsed_def from_secs_def)

section \<open>The sweeper\<close>

text \<open>
  Lemma. A sweep keeps, in order, exactly the parked connections within both limits, adds the
  number of the others to \<open>m_evicted\<close>, changes nothing else, and a second sweep at the same instant
  does nothing.
\<close>

theorem sweep_spec:
  "p_idle (sweep now p) = filter (sweep_keeps (p_config p) now) (p_idle p) \<and>
   m_evicted (p_metrics (sweep now p)) =
     m_evicted (p_metrics p) + of_nat (length (filter (\<lambda>pk. \<not> sweep_keeps (p_config p) now pk) (p_idle p))) \<and>
   (sweep now p)\<lparr>p_idle := p_idle p, p_metrics := p_metrics p\<rparr> = p \<and>
   (p_metrics (sweep now p))\<lparr>m_evicted := m_evicted (p_metrics p)\<rparr> = p_metrics p \<and>
   sweep now (sweep now p) = sweep now p"
proof -
  let ?k = "sweep_keeps (p_config p) now"
  have len: "length (p_idle p) - length (filter ?k (p_idle p)) = length (filter (\<lambda>pk. \<not> ?k pk) (p_idle p))"
    using sum_length_filter_compl [of ?k "p_idle p"] by simp
  have none: "length (p_idle p) \<le> length (filter ?k (p_idle p)) \<Longrightarrow> length (filter (\<lambda>pk. \<not> ?k pk) (p_idle p)) = 0"
    using len by simp
  show ?thesis
    by (auto simp: sweep_def Let_def len pool_simps dest!: none simp del: length_0_conv)
qed

section \<open>Parameters\<close>

text \<open>
  How a server reads the statement \<^verbatim>\<open>set_parameter\<close> sends: a string literal ends at the first quote that
  is not doubled (with \<^verbatim>\<open>standard_conforming_strings\<close> on, the default), and the statement has to end
  there.
\<close>

fun sql_quoted :: "string \<Rightarrow> (string \<times> string) option" where
  "sql_quoted [] = None"
| "sql_quoted [c] = (if c = CHR 0x27 then Some ([], []) else None)"
| "sql_quoted (c # d # cs) =
     (if c = CHR 0x27 then (if d = CHR 0x27 then map_option (\<lambda>(a, b). (CHR 0x27 # a, b)) (sql_quoted cs) else Some ([], d # cs))
      else map_option (\<lambda>(a, b). (c # a, b)) (sql_quoted (d # cs)))"

definition parse_set :: "string \<Rightarrow> (string \<times> string) option" where
  "parse_set q =
     (case strip_prefix ''SET '' q of
        None \<Rightarrow> None
      | Some r \<Rightarrow>
          (case split_once ('' = '' @ [CHR 0x27]) r of
             None \<Rightarrow> None
           | Some (name, lit) \<Rightarrow> (case sql_quoted lit of Some (v, []) \<Rightarrow> Some (name, v) | _ \<Rightarrow> None)))"

lemma sql_quoted_Cons:
  "c \<noteq> CHR 0x27 \<Longrightarrow> sql_quoted (c # cs) = map_option (\<lambda>(a, b). (c # a, b)) (sql_quoted cs)"
  by (cases cs) auto

lemma sql_quoted_escaped:
  "sql_quoted (replace_char (CHR 0x27) [CHR 0x27, CHR 0x27] v @ [CHR 0x27]) = Some (v, [])"
  by (induction v) (auto simp: sql_quoted_Cons)

lemma split_once_first:
  assumes "c0 \<notin> set name"
  shows "split_once (c0 # pat) (name @ (c0 # pat) @ rest) = Some (name, rest)"
  using assms
proof (induction name)
  case Nil
  have "strip_prefix pat (pat @ rest) = Some rest" by (simp add: strip_prefix_append)
  then show ?case by simp
next
  case (Cons x name)
  then show ?case by simp
qed

lemma set_parameter_query:
  assumes "CHR '' '' \<notin> set name"
  shows "\<exists>q. parse_set q = Some (name, value) \<and>
     set_parameter ops name value c =
       (case op_simple_query ops c q of
          (Done _, c1) \<Rightarrow> (Done (), set_server_parameter name value c1)
        | r \<Rightarrow> r)"
proof -
  let ?lit = "replace_char (CHR 0x27) [CHR 0x27, CHR 0x27] value @ [CHR 0x27]"
  let ?q = "''SET '' @ name @ ('' = '' @ [CHR 0x27]) @ ?lit"
  have "split_once ('' = '' @ [CHR 0x27]) (name @ ('' = '' @ [CHR 0x27]) @ ?lit) = Some (name, ?lit)"
    using split_once_first [OF assms, of "''= '' @ [CHR 0x27]" ?lit] by simp
  then have "parse_set ?q = Some (name, value)"
    by (simp add: parse_set_def sql_quoted_escaped strip_prefix_append)
  moreover have "set_parameter ops name value c =
       (case op_simple_query ops c ?q of
          (Done _, c1) \<Rightarrow> (Done (), set_server_parameter name value c1)
        | r \<Rightarrow> r)" by (simp add: set_parameter_def Let_def)
  ultimately show ?thesis by blast
qed

text \<open>
  Lemma. The SET statement cannot be broken out of: for any value, quotes included, the statement
  \<^verbatim>\<open>set_parameter\<close> runs reads back as an assignment of exactly that value to that parameter, and on
  success the cached value is the one that was set.
\<close>

theorem set_parameter_statement:
  assumes "CHR '' '' \<notin> set name"
  shows "\<exists>q. parse_set q = Some (name, value) \<and>
     set_parameter ops name value c =
       (case op_simple_query ops c q of
          (Done _, c1) \<Rightarrow> (Done (), set_server_parameter name value c1)
        | r \<Rightarrow> r)"
  using assms by (rule set_parameter_query)

theorem set_parameter_statement_witness:
  "\<exists>q. parse_set q = Some (''application_name'', ''a'' @ [CHR 0x27] @ ''; DROP TABLE t; --'')"
  using set_parameter_statement [of "''application_name''" "''a'' @ [CHR 0x27] @ ''; DROP TABLE t; --''"
      sample_ops "sample_conn Quiet Idle"] by auto

text \<open>A SET touches no other cached parameter: what the replay of startup parameters relies on.\<close>

definition set_is_local :: "'s client_ops \<Rightarrow> bool" where
  "set_is_local ops \<longleftrightarrow>
     (\<forall>c q name v r c' k. parse_set q = Some (name, v) \<and> op_simple_query ops c q = (r, c') \<and> k \<noteq> name \<longrightarrow>
        server_parameters c' k = server_parameters c k)"

lemma set_parameter_params:
  assumes "set_is_local ops" "CHR '' '' \<notin> set name" "set_parameter ops name value c = (Done u, c')"
  shows "server_parameters c' name = Some value \<and>
         (\<forall>k. k \<noteq> name \<longrightarrow> server_parameters c' k = server_parameters c k)"
proof -
  obtain q where q: "parse_set q = Some (name, value)" and s: "set_parameter ops name value c =
       (case op_simple_query ops c q of
          (Done _, c1) \<Rightarrow> (Done (), set_server_parameter name value c1)
        | r \<Rightarrow> r)" using set_parameter_query [OF assms(2)] by blast
  obtain r c1 where r: "op_simple_query ops c q = (r, c1)" by fastforce
  with s assms(3) have "c' = set_server_parameter name value c1" by (auto split: io.splits)
  then show ?thesis using assms(1) q r unfolding set_is_local_def by (auto simp: set_server_parameter_def)
qed

definition cached_parameter :: "'s conn \<Rightarrow> string \<Rightarrow> string" where
  "cached_parameter c name = (case server_parameters c name of Some v \<Rightarrow> v | None \<Rightarrow> [])"

lemma sync_parameters_spec:
  assumes "set_is_local ops" "distinct names" "list_all (\<lambda>n. CHR '' '' \<notin> set n) names"
    and "sync_parameters ops names sp c = (Done u, c')"
  shows "(\<forall>n v. n \<in> set names \<and> sp n = Some v \<longrightarrow> cached_parameter c' n = v) \<and>
         (\<forall>k. k \<notin> set names \<or> sp k = None \<longrightarrow> server_parameters c' k = server_parameters c k)"
  using assms(2-4)
proof (induction names arbitrary: c)
  case Nil
  then show ?case by simp
next
  case (Cons n names)
  show ?case
  proof (cases "\<exists>v. sp n = Some v \<and> cached_parameter c n \<noteq> v")
    case True
    then obtain v where v: "sp n = Some v" "cached_parameter c n \<noteq> v" by blast
    with Cons.prems(3) obtain u1 c1 where c1: "set_parameter ops n v c = (Done u1, c1)"
      "sync_parameters ops names sp c1 = (Done u, c')"
      by (auto simp: Let_def cached_parameter_def split: prod.splits io.splits)
    have p: "server_parameters c1 n = Some v" "\<forall>k. k \<noteq> n \<longrightarrow> server_parameters c1 k = server_parameters c k"
      using set_parameter_params [OF assms(1) _ c1(1)] Cons.prems(2) by auto
    have "(\<forall>k v. k \<in> set names \<and> sp k = Some v \<longrightarrow> cached_parameter c' k = v) \<and>
          (\<forall>k. k \<notin> set names \<or> sp k = None \<longrightarrow> server_parameters c' k = server_parameters c1 k)"
      using Cons.IH [OF _ _ c1(2)] Cons.prems by simp
    moreover have "\<forall>k. sp k = None \<longrightarrow> k \<noteq> n" using v(1) by auto
    ultimately show ?thesis using p v Cons.prems(1) by (auto simp: cached_parameter_def)
  next
    case False
    then have step: "sync_parameters ops names sp c = (Done u, c')"
      using Cons.prems(3) by (auto simp: Let_def cached_parameter_def split: option.splits if_splits)
    have "(\<forall>k v. k \<in> set names \<and> sp k = Some v \<longrightarrow> cached_parameter c' k = v) \<and>
          (\<forall>k. k \<notin> set names \<or> sp k = None \<longrightarrow> server_parameters c' k = server_parameters c k)"
      using Cons.IH [OF _ _ step] Cons.prems by simp
    with False Cons.prems(1) show ?thesis by (auto simp: cached_parameter_def)
  qed
qed

text \<open>
  Lemma. When \<^verbatim>\<open>sync_startup_parameters\<close> succeeds, the connection's tracked parameters are what the
  client's startup packet asked for, and every other cached parameter, or tracked one the client did
  not send, is what it was.
\<close>

theorem sync_startup_parameters_spec:
  assumes "set_is_local ops" "sync_startup_parameters ops sp l = (Done u, l')"
  shows "(\<forall>n v. n \<in> set TRACKED_STARTUP_PARAMETERS \<and> sp n = Some v \<longrightarrow> cached_parameter (l_conn l') n = v) \<and>
    (\<forall>k. k \<notin> set TRACKED_STARTUP_PARAMETERS \<or> sp k = None \<longrightarrow>
       server_parameters (l_conn l') k = server_parameters (l_conn l) k) \<and>
    l_created_at l' = l_created_at l"
proof -
  obtain c' where c': "sync_parameters ops TRACKED_STARTUP_PARAMETERS sp (l_conn l) = (Done u, c')" "l' = l\<lparr>l_conn := c'\<rparr>"
    using assms(2) by (auto simp: sync_startup_parameters_def split: prod.splits)
  have "distinct TRACKED_STARTUP_PARAMETERS" "list_all (\<lambda>n. CHR '' '' \<notin> set n) TRACKED_STARTUP_PARAMETERS"
    by (simp_all add: TRACKED_STARTUP_PARAMETERS_def)
  from sync_parameters_spec [OF assms(1) this c'(1)] c'(2) show ?thesis by simp
qed

lemma sample_set_is_local: "set_is_local sample_ops"
  by (auto simp: set_is_local_def sample_ops_def sample_query_def split: if_splits)

theorem sync_startup_parameters_spec_witness:
  "cached_parameter (l_conn (snd (sync_startup_parameters sample_ops [''application_name'' \<mapsto> ''psql''] (sample_lease 4))))
     ''application_name'' = ''psql''"
proof -
  have ok: "sync_startup_parameters sample_ops [''application_name'' \<mapsto> ''psql''] (sample_lease 4) =
      (Done (), snd (sync_startup_parameters sample_ops [''application_name'' \<mapsto> ''psql''] (sample_lease 4)))"
    by (simp add: sync_startup_parameters_def TRACKED_STARTUP_PARAMETERS_def set_parameter_def sample_ops_def
        sample_query_def sample_lease_def sample_conn_def Let_def)
  show ?thesis using sync_startup_parameters_spec [OF sample_set_is_local ok]
    by (simp add: TRACKED_STARTUP_PARAMETERS_def)
qed

end
