(* ===== verification/Pool_System.thy ===== *)
theory Pool_System
  imports Pool
begin

text \<open>
  The pool under concurrent use. Sessions run as tasks that share one pool (pool.rs): at every await
  point of \<^verbatim>\<open>checkout\<close>, \<^verbatim>\<open>checkin\<close> and \<^verbatim>\<open>checkin_detached\<close> another task may run, the sweeper may run, and
  a task may be cancelled by dropping its future. \<open>pool_step\<close> has one rule per such segment, in the
  order of the code; the pool's bookkeeping primitives are those of theory \<open>Pool\<close>. A rule that
  consults the outside world (the clock, the server, a connect) allows any answer.

  A connection that is dropped instead of parked counts as gone from the moment the code decides to
  drop it; closing its socket is not observed.
\<close>

section \<open>Tasks\<close>

datatype 's task =
    Out
  | Waiting
  | Permitted
  | Probing "'s parked"
  | Connecting
  | Leased "'s lease"
  | Returning "'s lease"
  | Releasing

text \<open>
  \<open>lost_waits\<close> and \<open>lost_leases\<close> count cancellations that the code's gauges do not see,
  \<open>lost_conns\<close> the connections that went away uncounted with them, and \<open>failed_connects\<close> the failed
  connects; they are history, read by no rule.
\<close>

record 's system =
  sys_pool :: "'s pool"
  sys_tasks :: "'s task list"
  lost_waits :: nat
  lost_leases :: nat
  lost_conns :: nat
  failed_connects :: nat

definition system_new :: "pool_key \<Rightarrow> pool_config \<Rightarrow> connect_args \<Rightarrow> nat \<Rightarrow> 's system" where
  "system_new key cfg connect n =
     \<lparr>sys_pool = pool_new key cfg connect, sys_tasks = replicate n Out, lost_waits = 0, lost_leases = 0,
      lost_conns = 0, failed_connects = 0\<rparr>"

definition moves :: "nat \<Rightarrow> 's task \<Rightarrow> 's task \<Rightarrow> 's pool \<Rightarrow> 's system \<Rightarrow> 's system \<Rightarrow> bool" where
  "moves i a b p' s s' \<longleftrightarrow>
     i < length (sys_tasks s) \<and> sys_tasks s ! i = a \<and> s' = s\<lparr>sys_pool := p', sys_tasks := (sys_tasks s)[i := b]\<rparr>"

section \<open>Steps\<close>

inductive pool_step :: "'s system \<Rightarrow> 's system \<Rightarrow> bool" where
  start: "moves i Out Waiting (add_waiting 1 (sys_pool s)) s s' \<Longrightarrow> pool_step s s'"
| acquire:
    "p_permits (sys_pool s) > 0 \<Longrightarrow>
     moves i Waiting Permitted (add_waiting (-1) (take_permit (sys_pool s))) s s' \<Longrightarrow> pool_step s s'"
| pop_expired:
    "p_idle (sys_pool s) = rest @ [pk] \<Longrightarrow>
     moves i Permitted Permitted (inc_evicted 1 ((sys_pool s)\<lparr>p_idle := rest\<rparr>)) s s' \<Longrightarrow> pool_step s s'"
| pop_stale:
    "p_idle (sys_pool s) = rest @ [pk] \<Longrightarrow>
     moves i Permitted (Probing pk) (inc_probed ((sys_pool s)\<lparr>p_idle := rest\<rparr>)) s s' \<Longrightarrow> pool_step s s'"
| pop_live:
    "p_idle (sys_pool s) = rest @ [pk] \<Longrightarrow>
     finish_checkout (pk_conn pk) (pk_created_at pk) ((sys_pool s)\<lparr>p_idle := rest\<rparr>) = (l, p') \<Longrightarrow>
     moves i Permitted (Leased l) p' s s' \<Longrightarrow> pool_step s s'"
| probe_ok:
    "finish_checkout c (pk_created_at pk) (sys_pool s) = (l, p') \<Longrightarrow>
     moves i (Probing pk) (Leased l) p' s s' \<Longrightarrow> pool_step s s'"
| probe_fail: "moves i (Probing pk) Permitted (inc_dropped (sys_pool s)) s s' \<Longrightarrow> pool_step s s'"
| pop_none: "p_idle (sys_pool s) = [] \<Longrightarrow> moves i Permitted Connecting (sys_pool s) s s' \<Longrightarrow> pool_step s s'"
| connect_ok:
    "finish_checkout c now (inc_created (sys_pool s)) = (l, p') \<Longrightarrow>
     moves i Connecting (Leased l) p' s s' \<Longrightarrow> pool_step s s'"
| connect_fail:
    "moves i Connecting Out (release_permit (inc_dropped (sys_pool s))) s s1 \<Longrightarrow>
     s' = s1\<lparr>failed_connects := failed_connects s1 + 1\<rparr> \<Longrightarrow> pool_step s s'"
| use: "moves i (Leased l) (Leased (l\<lparr>l_conn := c\<rparr>)) (sys_pool s) s s' \<Longrightarrow> pool_step s s'"
| return: "moves i (Leased l) (Returning l) (add_active (-1) (sys_pool s)) s s' \<Longrightarrow> pool_step s s'"
| clean: "moves i (Returning l) (Returning (l\<lparr>l_conn := c\<rparr>)) (sys_pool s) s s' \<Longrightarrow> pool_step s s'"
| baseline:
    "moves i (Returning l) (Returning l) ((sys_pool s)\<lparr>p_baseline := Some (server_parameters (l_conn l))\<rparr>) s s' \<Longrightarrow>
     pool_step s s'"
| return_park:
    "moves i (Returning l) Releasing (inc_checked_in (park (l_conn l) now (l_created_at l) (sys_pool s))) s s' \<Longrightarrow>
     pool_step s s'"
| return_evict: "moves i (Returning l) Releasing (inc_evicted 1 (sys_pool s)) s s' \<Longrightarrow> pool_step s s'"
| return_drop: "moves i (Returning l) Releasing (inc_dropped (sys_pool s)) s s' \<Longrightarrow> pool_step s s'"
| release: "moves i Releasing Out (release_permit (sys_pool s)) s s' \<Longrightarrow> pool_step s s'"
| destroyed: "moves i (Leased l) Out (destroy l (sys_pool s)) s s' \<Longrightarrow> pool_step s s'"
| swept: "s' = s\<lparr>sys_pool := sweep now (sys_pool s)\<rparr> \<Longrightarrow> pool_step s s'"
| cancel_wait:
    "moves i Waiting Out (sys_pool s) s s1 \<Longrightarrow> s' = s1\<lparr>lost_waits := lost_waits s1 + 1\<rparr> \<Longrightarrow> pool_step s s'"
| cancel_checkout:
    "a = Permitted \<or> a = Connecting \<Longrightarrow> moves i a Out (release_permit (sys_pool s)) s s' \<Longrightarrow> pool_step s s'"
| cancel_probe:
    "moves i (Probing pk) Out (release_permit (sys_pool s)) s s1 \<Longrightarrow>
     s' = s1\<lparr>lost_conns := lost_conns s1 + 1\<rparr> \<Longrightarrow> pool_step s s'"
| cancel_return:
    "moves i (Returning l) Out (release_permit (sys_pool s)) s s1 \<Longrightarrow>
     s' = s1\<lparr>lost_conns := lost_conns s1 + 1\<rparr> \<Longrightarrow> pool_step s s'"
| dropped_lease:
    "moves i (Leased l) Out (drop_lease l (sys_pool s)) s s1 \<Longrightarrow>
     s' = s1\<lparr>lost_leases := lost_leases s1 + 1, lost_conns := lost_conns s1 + 1\<rparr> \<Longrightarrow> pool_step s s'"

inductive reachable :: "'s system \<Rightarrow> bool" where
  init: "reachable (system_new key cfg connect n)"
| step: "reachable s \<Longrightarrow> pool_step s s' \<Longrightarrow> reachable s'"

abbreviation pool_steps :: "'s system \<Rightarrow> 's system \<Rightarrow> bool" where
  "pool_steps \<equiv> pool_step\<^sup>*\<^sup>*"

section \<open>What a task holds\<close>

fun holds_permit :: "'s task \<Rightarrow> nat" where
  "holds_permit Out = 0"
| "holds_permit Waiting = 0"
| "holds_permit _ = 1"

text \<open>A connection the task has, or is opening.\<close>

fun holds_conn :: "'s task \<Rightarrow> nat" where
  "holds_conn (Probing _) = 1"
| "holds_conn Connecting = 1"
| "holds_conn (Leased _) = 1"
| "holds_conn (Returning _) = 1"
| "holds_conn _ = 0"

fun open_conn :: "'s task \<Rightarrow> nat" where
  "open_conn Connecting = 0"
| "open_conn a = holds_conn a"

fun is_leased :: "'s task \<Rightarrow> nat" where
  "is_leased (Leased _) = 1"
| "is_leased _ = 0"

fun is_waiting :: "'s task \<Rightarrow> nat" where
  "is_waiting Waiting = 1"
| "is_waiting _ = 0"

definition tally :: "('s task \<Rightarrow> nat) \<Rightarrow> 's system \<Rightarrow> nat" where
  "tally w s = sum_list (map w (sys_tasks s))"

lemma moves_tally:
  "moves i a b p' s s' \<Longrightarrow> tally w s' + w a = tally w s + w b"
  by (auto simp: moves_def tally_def sum_list_update_nat)

lemma moves_fields:
  assumes "moves i a b p' s s'"
  shows "sys_pool s' = p'" "lost_waits s' = lost_waits s" "lost_leases s' = lost_leases s"
    "lost_conns s' = lost_conns s" "failed_connects s' = failed_connects s"
  using assms by (auto simp: moves_def)

lemma tally_history [simp]:
  "tally w (s\<lparr>lost_waits := n\<rparr>) = tally w s" "tally w (s\<lparr>lost_leases := n\<rparr>) = tally w s"
  "tally w (s\<lparr>lost_conns := n\<rparr>) = tally w s" "tally w (s\<lparr>failed_connects := n\<rparr>) = tally w s"
  "tally w (s\<lparr>sys_pool := p\<rparr>) = tally w s"
  by (simp_all add: tally_def)

lemma tally_new: "w Out = 0 \<Longrightarrow> tally w (system_new key cfg connect n) = 0"
  by (simp add: tally_def system_new_def sum_list_replicate)

lemma tally_mono: "(\<And>a. w a \<le> w' a) \<Longrightarrow> tally w s \<le> tally w' s"
  by (simp add: tally_def sum_list_mono)

section \<open>Invariants\<close>

lemma sweep_fields [simp]:
  "p_permits (sweep now p) = p_permits p" "p_config (sweep now p) = p_config p"
  "p_idle (sweep now p) = filter (sweep_keeps (p_config p) now) (p_idle p)"
  "m_active (p_metrics (sweep now p)) = m_active (p_metrics p)"
  "m_waiting (p_metrics (sweep now p)) = m_waiting (p_metrics p)"
  "m_checkouts (p_metrics (sweep now p)) = m_checkouts (p_metrics p)"
  "m_reused (p_metrics (sweep now p)) = m_reused (p_metrics p)"
  "m_created (p_metrics (sweep now p)) = m_created (p_metrics p)"
  "m_dropped (p_metrics (sweep now p)) = m_dropped (p_metrics p)"
  by (simp_all add: sweep_def Let_def pool_simps)

lemma sweep_evicted:
  "m_evicted (p_metrics (sweep now p)) + of_nat (length (p_idle (sweep now p))) =
     m_evicted (p_metrics p) + of_nat (length (p_idle p))"
proof -
  let ?n = "length (p_idle p)" and ?k = "length (filter (sweep_keeps (p_config p) now) (p_idle p))"
  have le: "?k \<le> ?n" by (rule length_filter_le)
  show ?thesis
  proof (cases "?k = ?n")
    case True
    then show ?thesis by (simp add: sweep_def Let_def)
  next
    case False
    with le have "\<not> ?n \<le> ?k" by linarith
    then have "m_evicted (p_metrics (sweep now p)) = m_evicted (p_metrics p) + of_nat (?n - ?k)"
      by (simp add: sweep_def Let_def pool_simps)
    then show ?thesis using le by (simp add: of_nat_diff)
  qed
qed

lemma step_permits:
  "pool_step s s' \<Longrightarrow>
     p_permits (sys_pool s') + tally holds_permit s' = p_permits (sys_pool s) + tally holds_permit s \<and>
     p_config (sys_pool s') = p_config (sys_pool s)"
  by (induction rule: pool_step.induct)
    (auto simp: moves_fields finish_checkout_def destroy_def drop_lease_def dest!: moves_tally [where w = holds_permit]
      dest: moves_fields)


lemma holds_conn_le: "holds_conn a \<le> holds_permit a"
  by (cases a) simp_all

lemma step_conns:
  "pool_step s s' \<Longrightarrow> p_permits (sys_pool s') + tally holds_permit s' = K \<Longrightarrow>
     length (p_idle (sys_pool s)) + tally holds_conn s \<le> K \<Longrightarrow>
     length (p_idle (sys_pool s')) + tally holds_conn s' \<le> K"
proof (induction rule: pool_step.induct)
  case (pop_none s i s')
  have "tally holds_conn s' \<le> tally holds_permit s'" by (rule tally_mono) (rule holds_conn_le)
  with pop_none show ?case by (simp add: moves_fields)
next
  case (swept s' now s)
  have "length (filter (sweep_keeps (p_config (sys_pool s)) now) (p_idle (sys_pool s))) \<le> length (p_idle (sys_pool s))"
    by (rule length_filter_le)
  with swept show ?case by (simp del: length_filter_le)
qed (auto simp: moves_fields finish_checkout_def destroy_def drop_lease_def pool_simps
  dest!: moves_tally [where w = holds_conn] dest: moves_fields)

lemma moves_tally_word:
  assumes "moves i a b p' s s'"
  shows "(of_nat (tally w s') :: 64 word) = of_nat (tally w s) + of_nat (w b) - of_nat (w a)"
proof -
  have "(of_nat (tally w s' + w a) :: 64 word) = of_nat (tally w s + w b)"
    using moves_tally [OF assms, of w] by simp
  then show ?thesis by (simp add: algebra_simps)
qed

lemma step_active:
  "pool_step s s' \<Longrightarrow> m_active (p_metrics (sys_pool s)) = of_nat (tally is_leased s + lost_leases s) \<Longrightarrow>
     m_active (p_metrics (sys_pool s')) = of_nat (tally is_leased s' + lost_leases s')"
  by (induction rule: pool_step.induct)
    (auto simp: moves_fields finish_checkout_def destroy_def drop_lease_def pool_simps
      dest!: moves_tally_word [where w = is_leased] dest: moves_fields)

lemma step_waiting:
  "pool_step s s' \<Longrightarrow> m_waiting (p_metrics (sys_pool s)) = of_nat (tally is_waiting s + lost_waits s) \<Longrightarrow>
     m_waiting (p_metrics (sys_pool s')) = of_nat (tally is_waiting s' + lost_waits s')"
  by (induction rule: pool_step.induct)
    (auto simp: moves_fields finish_checkout_def destroy_def drop_lease_def pool_simps
      dest!: moves_tally_word [where w = is_waiting] dest: moves_fields)

lemma step_reused:
  "pool_step s s' \<Longrightarrow> m_reused (p_metrics (sys_pool s)) = m_checkouts (p_metrics (sys_pool s)) \<Longrightarrow>
     m_reused (p_metrics (sys_pool s')) = m_checkouts (p_metrics (sys_pool s'))"
  by (induction rule: pool_step.induct)
    (auto simp: moves_fields finish_checkout_def destroy_def drop_lease_def pool_simps dest: moves_fields)

definition conn_ledger :: "'s system \<Rightarrow> u64" where
  "conn_ledger s = of_nat (length (p_idle (sys_pool s)) + tally open_conn s + lost_conns s) +
     m_dropped (p_metrics (sys_pool s)) + m_evicted (p_metrics (sys_pool s))"

lemma step_ledger:
  "pool_step s s' \<Longrightarrow>
     m_created (p_metrics (sys_pool s)) + of_nat (failed_connects s) = conn_ledger s \<Longrightarrow>
     m_created (p_metrics (sys_pool s')) + of_nat (failed_connects s') = conn_ledger s'"
proof (induction rule: pool_step.induct)
  case (swept s' now s)
  then show ?case using sweep_evicted [of now "sys_pool s"] by (simp add: conn_ledger_def algebra_simps)
qed (auto simp: conn_ledger_def moves_fields finish_checkout_def destroy_def drop_lease_def pool_simps
      dest!: moves_tally_word [where w = open_conn] dest: moves_fields)

lemma reachable_permits:
  "reachable s \<Longrightarrow> p_permits (sys_pool s) + tally holds_permit s = capacity (p_config (sys_pool s))"
proof (induction rule: reachable.induct)
  case (init key cfg connect n)
  show ?case by (simp add: tally_new) (simp add: system_new_def pool_new_def)
next
  case (step s s')
  with step_permits [OF step(2)] show ?case by simp
qed

lemma reachable_conns:
  "reachable s \<Longrightarrow> length (p_idle (sys_pool s)) + tally holds_conn s \<le> capacity (p_config (sys_pool s))"
proof (induction rule: reachable.induct)
  case (init key cfg connect n)
  show ?case by (simp add: tally_new) (simp add: system_new_def pool_new_def)
next
  case (step s s')
  have "p_permits (sys_pool s') + tally holds_permit s' = capacity (p_config (sys_pool s))"
    using step_permits [OF step(2)] reachable_permits [OF step(1)] by simp
  from step_conns [OF step(2) this step(3)] step_permits [OF step(2)] show ?case by simp
qed

lemma reachable_metrics:
  "reachable s \<Longrightarrow>
     m_active (p_metrics (sys_pool s)) = of_nat (tally is_leased s + lost_leases s) \<and>
     m_waiting (p_metrics (sys_pool s)) = of_nat (tally is_waiting s + lost_waits s) \<and>
     m_reused (p_metrics (sys_pool s)) = m_checkouts (p_metrics (sys_pool s)) \<and>
     m_created (p_metrics (sys_pool s)) + of_nat (failed_connects s) = conn_ledger s"
proof (induction rule: reachable.induct)
  case (init key cfg connect n)
  show ?case by (simp add: tally_new conn_ledger_def) (simp add: system_new_def pool_new_def metrics_default_def)
next
  case (step s s')
  then show ?case
    using step_active [OF step(2)] step_waiting [OF step(2)] step_reused [OF step(2)] step_ledger [OF step(2)] by blast
qed

text \<open>A run of one task through a checkout that connects, used by the witnesses.\<close>

definition sample_system :: "(server_phase \<times> tx_status) system" where
  "sample_system = system_new \<lparr>key_route = ''main'', key_endpoint = ''primary'', key_user = ''u'', key_database = None\<rparr>
     (pool_config_default\<lparr>max_size := 1\<rparr>) sample_args 2"

definition sample_waiting :: "(server_phase \<times> tx_status) system" where
  "sample_waiting = sample_system\<lparr>sys_pool := add_waiting 1 (sys_pool sample_system), sys_tasks := [Waiting, Out]\<rparr>"

definition sample_permitted :: "(server_phase \<times> tx_status) system" where
  "sample_permitted = sample_waiting\<lparr>sys_pool := add_waiting (-1) (take_permit (sys_pool sample_waiting)), sys_tasks := [Permitted, Out]\<rparr>"

lemma sample_reachable: "reachable sample_system" "reachable sample_waiting" "reachable sample_permitted"
proof -
  show 0: "reachable sample_system" unfolding sample_system_def by (rule reachable.init)
  show 1: "reachable sample_waiting"
    by (rule reachable.step [OF 0 pool_step.start [of 0]])
      (simp add: moves_def sample_waiting_def sample_system_def system_new_def numeral_2_eq_2)
  show "reachable sample_permitted"
    by (rule reachable.step [OF 1 pool_step.acquire [of _ 0]])
      (simp_all add: moves_def sample_permitted_def sample_waiting_def sample_system_def system_new_def pool_new_def capacity_def)
qed

text \<open>
  Property C6. Permits are never lost or duplicated, under any interleaving, sweep or cancellation: the
  free permits and the tasks that hold one always add up to the capacity, so once every task is out
  or still waiting, every permit is back and a waiting task can go on.
\<close>

theorem permits_conserved:
  assumes "reachable s"
  shows "p_permits (sys_pool s) + tally holds_permit s = capacity (p_config (sys_pool s)) \<and>
    (set (sys_tasks s) \<subseteq> {Out, Waiting} \<longrightarrow>
       p_permits (sys_pool s) = capacity (p_config (sys_pool s)) \<and>
       (\<forall>i < length (sys_tasks s). sys_tasks s ! i = Waiting \<longrightarrow>
          (\<exists>s'. pool_step s s' \<and> sys_tasks s' = (sys_tasks s)[i := Permitted])))"
proof -
  note inv = reachable_permits [OF assms]
  { assume q: "set (sys_tasks s) \<subseteq> {Out, Waiting}"
    then have "sum_list (map holds_permit (sys_tasks s)) = 0" by (auto simp: sum_list_eq_0_iff)
    then have "tally holds_permit s = 0" unfolding tally_def .
    then have full: "p_permits (sys_pool s) = capacity (p_config (sys_pool s))" using inv by simp
    then have pos: "p_permits (sys_pool s) > 0" by (simp add: capacity_def)
    have "\<exists>s'. pool_step s s' \<and> sys_tasks s' = (sys_tasks s)[i := Permitted]"
      if "i < length (sys_tasks s)" "sys_tasks s ! i = Waiting" for i
      using pool_step.acquire [OF pos, of i] that by (fastforce simp: moves_def)
    with full have "p_permits (sys_pool s) = capacity (p_config (sys_pool s)) \<and>
       (\<forall>i < length (sys_tasks s). sys_tasks s ! i = Waiting \<longrightarrow>
          (\<exists>s'. pool_step s s' \<and> sys_tasks s' = (sys_tasks s)[i := Permitted]))" by blast }
  with inv show ?thesis by blast
qed

theorem permits_conserved_witness:
  "p_permits (sys_pool sample_permitted) + tally holds_permit sample_permitted = 1 \<and>
   (\<exists>s'. pool_step sample_waiting s' \<and> sys_tasks s' = [Permitted, Out])"
proof
  show "p_permits (sys_pool sample_permitted) + tally holds_permit sample_permitted = 1"
    using permits_conserved [OF sample_reachable(3)]
    by (simp add: sample_permitted_def sample_waiting_def sample_system_def system_new_def pool_new_def capacity_def)
  have "sys_tasks sample_waiting = [Waiting, Out]" by (simp add: sample_waiting_def)
  then show "\<exists>s'. pool_step sample_waiting s' \<and> sys_tasks s' = [Permitted, Out]"
    using permits_conserved [OF sample_reachable(2)] by force
qed

text \<open>
  Property C7. The pool never has more connections than its capacity \<^verbatim>\<open>max(max_size, 1)\<close>: parked ones,
  those being probed, leased or returned, and those being opened together stay within it at every
  moment of every interleaving, although parked connections hold no permit.
\<close>

theorem connections_bounded:
  assumes "reachable s"
  shows "length (p_idle (sys_pool s)) + tally holds_conn s \<le> max (max_size (p_config (sys_pool s))) 1"
  using reachable_conns [OF assms] by (simp add: capacity_def)

theorem connections_bounded_witness:
  "length (p_idle (sys_pool sample_permitted)) + tally holds_conn sample_permitted \<le> 1"
  using connections_bounded [OF sample_reachable(3)]
  by (simp add: sample_permitted_def sample_waiting_def sample_system_def system_new_def pool_new_def pool_simps)

text \<open>
  Property C38. What the metrics mean, at every moment: \<open>m_active\<close> is the number of leases out plus the
  leases that were dropped without check-in or destroy, \<open>m_waiting\<close> the number of waiting tasks plus
  the waits that were cancelled (neither gauge comes down again for those), \<open>m_reused\<close> always equals
  \<open>m_checkouts\<close>, and every connection created is parked, held, dropped, evicted or lost to a
  cancellation - where \<open>m_dropped\<close> also counts failed connects.
\<close>

theorem metrics_account:
  assumes "reachable s"
  shows "m_active (p_metrics (sys_pool s)) = of_nat (tally is_leased s + lost_leases s) \<and>
     m_waiting (p_metrics (sys_pool s)) = of_nat (tally is_waiting s + lost_waits s) \<and>
     m_reused (p_metrics (sys_pool s)) = m_checkouts (p_metrics (sys_pool s)) \<and>
     m_created (p_metrics (sys_pool s)) + of_nat (failed_connects s) =
       of_nat (length (p_idle (sys_pool s)) + tally open_conn s + lost_conns s) +
         m_dropped (p_metrics (sys_pool s)) + m_evicted (p_metrics (sys_pool s))"
  using reachable_metrics [OF assms] by (simp add: conn_ledger_def)

theorem metrics_account_witness: "m_waiting (p_metrics (sys_pool sample_waiting)) = 1"
  using metrics_account [OF sample_reachable(2)] by (simp add: tally_def) (simp add: sample_waiting_def sample_system_def system_new_def)

section \<open>The sequential operations are runs of the steps\<close>

definition at :: "'s system \<Rightarrow> nat \<Rightarrow> 's pool \<Rightarrow> 's task \<Rightarrow> 's system" where
  "at s i p a = s\<lparr>sys_pool := p, sys_tasks := (sys_tasks s)[i := a]\<rparr>"

lemma at_moves: "i < length (sys_tasks s) \<Longrightarrow> moves i a b p' (at s i p a) (at s i p' b)"
  by (simp add: moves_def at_def)

lemma at_at [simp]: "at (at s i p a) i p' b = at s i p' b"
  by (simp add: at_def)

lemma at_pool [simp]: "sys_pool (at s i p a) = p"
  by (simp add: at_def)

lemma at_self: "i < length (sys_tasks s) \<Longrightarrow> sys_tasks s ! i = a \<Longrightarrow> at s i (sys_pool s) a = s"
  by (simp add: at_def list_update_same_conv)

text \<open>One transition of task \<open>i\<close> as an element of \<open>pool_steps\<close>.\<close>

lemma step_at:
  assumes "i < length (sys_tasks s)" "\<And>x y. x = at s i p a \<Longrightarrow> moves i a b p' x y \<Longrightarrow> pool_step x y"
  shows "pool_steps (at s i p a) (at s i p' b)"
  using assms(2) [OF refl at_moves [OF assms(1)]] by (rule r_into_rtranclp)

lemma checkout_loop_steps:
  assumes i: "i < length (sys_tasks s)"
  shows "checkout_loop ops clock t p = (r, t', p') \<Longrightarrow>
    pool_steps (at s i p Permitted)
      (case r of
         None \<Rightarrow> at s i p' Connecting
       | Some (c, created) \<Rightarrow> at s i (snd (finish_checkout c created p')) (Leased (fst (finish_checkout c created p'))))"
proof (induction "p_idle p" arbitrary: t p rule: rev_induct)
  case Nil
  have "pool_steps (at s i p Permitted) (at s i p Connecting)"
    by (rule step_at [OF i]) (auto intro: pool_step.pop_none simp: Nil(1) [symmetric])
  with Nil show ?case by (simp add: checkout_loop_Nil [OF Nil(1) [symmetric]] flip: Nil(1))
next
  case (snoc pk rest)
  note idle = snoc(2) [symmetric]
  let ?p = "p\<lparr>p_idle := rest\<rparr>"
  consider (expired) "elapsed (clock t) (pk_created_at pk) > max_lifetime (p_config p)"
    | (fresh) "elapsed (clock t) (pk_created_at pk) \<le> max_lifetime (p_config p)"
        "elapsed (clock (t + 1)) (pk_idle_since pk) \<le> stale_after (p_config p)"
    | (alive) c u where "elapsed (clock t) (pk_created_at pk) \<le> max_lifetime (p_config p)"
        "elapsed (clock (t + 1)) (pk_idle_since pk) > stale_after (p_config p)" "probe ops (pk_conn pk) = (Done u, c)"
    | (broken) "elapsed (clock t) (pk_created_at pk) \<le> max_lifetime (p_config p)"
        "elapsed (clock (t + 1)) (pk_idle_since pk) > stale_after (p_config p)" "\<not> is_done (fst (probe ops (pk_conn pk)))"
    by (cases "probe ops (pk_conn pk)") (fastforce simp: not_le)
  then show ?case
  proof cases
    case expired
    have "pool_steps (at s i p Permitted) (at s i (inc_evicted 1 ?p) Permitted)"
      by (rule step_at [OF i]) (auto intro: pool_step.pop_expired simp: idle)
    moreover have "checkout_loop ops clock (t + 1) (inc_evicted 1 ?p) = (r, t', p')"
      using snoc(3) expired idle by (simp add: checkout_loop.simps [of ops clock t p] Let_def)
    from snoc(1) [OF _ this] have "pool_steps (at s i (inc_evicted 1 ?p) Permitted)
      (case r of
         None \<Rightarrow> at s i p' Connecting
       | Some (c, created) \<Rightarrow> at s i (snd (finish_checkout c created p')) (Leased (fst (finish_checkout c created p'))))"
      by simp
    ultimately show ?thesis by (rule rtranclp_trans)
  next
    case fresh
    then have "r = Some (pk_conn pk, pk_created_at pk)" "p' = ?p"
      using snoc(3) idle by (simp_all add: checkout_loop.simps [of ops clock t p] Let_def)
    moreover have "pool_steps (at s i p Permitted)
        (at s i (snd (finish_checkout (pk_conn pk) (pk_created_at pk) ?p)) (Leased (fst (finish_checkout (pk_conn pk) (pk_created_at pk) ?p))))"
      by (rule step_at [OF i], rule pool_step.pop_live) (auto simp: idle)
    ultimately show ?thesis by simp
  next
    case (alive c u)
    then have r: "r = Some (c, pk_created_at pk)" "p' = inc_probed ?p"
      using snoc(3) idle by (simp_all add: checkout_loop.simps [of ops clock t p] Let_def not_less)
    have "pool_steps (at s i p Permitted) (at s i (inc_probed ?p) (Probing pk))"
      by (rule step_at [OF i]) (auto intro: pool_step.pop_stale simp: idle)
    also have "pool_steps (at s i (inc_probed ?p) (Probing pk))
        (at s i (snd (finish_checkout c (pk_created_at pk) (inc_probed ?p))) (Leased (fst (finish_checkout c (pk_created_at pk) (inc_probed ?p)))))"
      by (rule step_at [OF i], rule pool_step.probe_ok) auto
    finally show ?thesis using r by simp
  next
    case broken
    have "pool_steps (at s i p Permitted) (at s i (inc_probed ?p) (Probing pk))"
      by (rule step_at [OF i]) (auto intro: pool_step.pop_stale simp: idle)
    also have "pool_steps (at s i (inc_probed ?p) (Probing pk)) (at s i (inc_dropped (inc_probed ?p)) Permitted)"
      by (rule step_at [OF i]) (auto intro: pool_step.probe_fail)
    finally have 1: "pool_steps (at s i p Permitted) (at s i (inc_dropped (inc_probed ?p)) Permitted)" .
    have "checkout_loop ops clock (t + 2) (inc_dropped (inc_probed ?p)) = (r, t', p')"
      using snoc(3) broken idle
      by (auto simp: checkout_loop.simps [of ops clock t p] Let_def not_less split: io.splits prod.splits)
    from snoc(1) [OF _ this] have "pool_steps (at s i (inc_dropped (inc_probed ?p)) Permitted)
      (case r of
         None \<Rightarrow> at s i p' Connecting
       | Some (c, created) \<Rightarrow> at s i (snd (finish_checkout c created p')) (Leased (fst (finish_checkout c created p'))))"
      by simp
    with 1 show ?thesis by (rule rtranclp_trans)
  qed
qed

lemma checkout_begins:
  assumes "i < length (sys_tasks s)" "p_permits p > 0"
  shows "pool_steps (at s i p Out) (at s i (add_waiting (-1) (take_permit (add_waiting 1 p))) Permitted)"
proof -
  have "pool_steps (at s i p Out) (at s i (add_waiting 1 p) Waiting)"
    by (rule step_at [OF assms(1)]) (auto intro: pool_step.start)
  also have "pool_steps (at s i (add_waiting 1 p) Waiting) (at s i (add_waiting (-1) (take_permit (add_waiting 1 p))) Permitted)"
    using assms(2) by (intro step_at [OF assms(1)]) (auto intro: pool_step.acquire)
  finally show ?thesis .
qed

lemma checkout_runs:
  assumes i: "i < length (sys_tasks s)" and c: "checkout ops clock connect t p = (Done l, t', p')"
  shows "pool_steps (at s i p Out) (at s i p' (Leased l))"
proof -
  let ?p = "add_waiting (-1) (take_permit (add_waiting 1 p))"
  from c have pos: "p_permits p > 0" by (auto simp: checkout_def Let_def split: if_splits)
  obtain r t1 p1 where loop: "checkout_loop ops clock t ?p = (r, t1, p1)" by (metis prod_cases3)
  note run = rtranclp_trans [OF checkout_begins [OF i pos] checkout_loop_steps [OF i loop]]
  show ?thesis
  proof (cases r)
    case None
    with c loop pos obtain cn where f: "finish_checkout cn (clock (t1 + 1)) (inc_created p1) = (l, p')"
      by (auto simp: checkout_def Let_def split: io.splits prod.splits)
    have "pool_steps (at s i p1 Connecting) (at s i p' (Leased l))"
      by (rule step_at [OF i]) (use f in \<open>auto intro: pool_step.connect_ok\<close>)
    with run None show ?thesis by (metis (no_types, lifting) option.simps(4) rtranclp_trans)
  next
    case (Some x)
    obtain cn created where x: "x = (cn, created)" by fastforce
    with c loop pos Some have "finish_checkout cn created p1 = (l, p')"
      by (auto simp: checkout_def Let_def split: prod.splits)
    with run Some x show ?thesis by simp
  qed
qed

lemma returns:
  assumes i: "i < length (sys_tasks s)"
    and "\<And>x y. sys_pool x = p1 \<Longrightarrow> moves i (Returning l1) Releasing p2 x y \<Longrightarrow> pool_step x y"
  shows "pool_steps (at s i p1 (Returning l1)) (at s i (release_permit p2) Out)"
proof -
  have "pool_steps (at s i p1 (Returning l1)) (at s i p2 Releasing)"
    by (rule step_at [OF i]) (auto intro: assms(2))
  also have "pool_steps (at s i p2 Releasing) (at s i (release_permit p2) Out)"
    by (rule step_at [OF i]) (auto intro: pool_step.release)
  finally show ?thesis .
qed

lemma park_or_evict_runs:
  assumes "i < length (sys_tasks s)" "park_or_evict clock t (l_conn l) (l_created_at l) p = (t', p')"
  shows "pool_steps (at s i p (Returning l)) (at s i p' Out)"
proof (cases "elapsed (clock t) (l_created_at l) > max_lifetime (p_config p)")
  case True
  with assms(2) have p': "p' = release_permit (inc_evicted 1 p)" by (simp add: park_or_evict_def)
  show ?thesis unfolding p' by (rule returns [OF assms(1)]) (auto intro: pool_step.return_evict)
next
  case False
  with assms(2) have p': "p' = release_permit (inc_checked_in (park (l_conn l) (clock (t + 1)) (l_created_at l) p))"
    by (simp add: park_or_evict_def)
  show ?thesis unfolding p' by (rule returns [OF assms(1)]) (auto intro: pool_step.return_park)
qed

lemma return_begins:
  assumes "i < length (sys_tasks s)"
  shows "pool_steps (at s i p (Leased l)) (at s i (add_active (-1) p) (Returning (l\<lparr>l_conn := c\<rparr>)))"
proof -
  have "pool_steps (at s i p (Leased l)) (at s i (add_active (-1) p) (Returning l))"
    by (rule step_at [OF assms]) (auto intro: pool_step.return)
  also have "pool_steps (at s i (add_active (-1) p) (Returning l)) (at s i (add_active (-1) p) (Returning (l\<lparr>l_conn := c\<rparr>)))"
    by (rule step_at [OF assms]) (auto intro: pool_step.clean)
  finally show ?thesis .
qed

lemma drop_runs:
  assumes "i < length (sys_tasks s)"
  shows "pool_steps (at s i p (Returning l)) (at s i (release_permit (inc_dropped p)) Out)"
  by (rule returns [OF assms]) (auto intro: pool_step.return_drop)

lemma checkin_runs:
  assumes i: "i < length (sys_tasks s)" and c: "checkin ops clock h l t p = (t', p')"
  shows "pool_steps (at s i p (Leased l)) (at s i p' Out)"
proof -
  obtain r c1 where s: "sanitize ops h (l_conn l) = (r, c1)" by fastforce
  note run = return_begins [OF i, of p l c1]
  show ?thesis
  proof (cases "is_done r")
    case True
    with c s have "park_or_evict clock t (l_conn (l\<lparr>l_conn := c1\<rparr>)) (l_created_at (l\<lparr>l_conn := c1\<rparr>)) (add_active (-1) p) = (t', p')"
      by (auto simp: checkin_def Let_def)
    from rtranclp_trans [OF run park_or_evict_runs [OF i this]] show ?thesis .
  next
    case False
    with c s have "p' = release_permit (inc_dropped (add_active (-1) p))"
      by (auto simp: checkin_def Let_def split: io.splits)
    with rtranclp_trans [OF run drop_runs [OF i]] show ?thesis by simp
  qed
qed

lemma checkin_detached_runs:
  assumes i: "i < length (sys_tasks s)" and c: "checkin_detached ops clock dirty l t p = (t', p')"
  shows "pool_steps (at s i p (Leased l)) (at s i p' Out)"
proof -
  obtain cleaned c1 where cl: "(if dirty then (case op_simple_query ops (l_conn l) ''DISCARD ALL'' of
                              (Done _, c) \<Rightarrow> (True, c)
                            | (_, c) \<Rightarrow> (False, c))
             else (True, l_conn l)) = (cleaned, c1)" by fastforce
  let ?l = "l\<lparr>l_conn := c1\<rparr>" and ?p = "add_active (-1) p"
  let ?b = "?p\<lparr>p_baseline := Some (server_parameters c1)\<rparr>"
  note run = return_begins [OF i, of p l c1]
  show ?thesis
  proof (cases cleaned)
    case True
    have "pool_steps (at s i ?p (Returning ?l)) (at s i ?b (Returning ?l))"
      by (rule step_at [OF i], rule pool_step.baseline [where l = ?l and i = i]) auto
    moreover have "park_or_evict clock t (l_conn ?l) (l_created_at ?l) ?b = (t', p')"
      using c cl True unfolding checkin_detached_def by (simp add: Let_def)
    ultimately show ?thesis using run park_or_evict_runs [OF i] by (meson rtranclp_trans)
  next
    case False
    then have "p' = release_permit (inc_dropped ?p)"
      using c cl unfolding checkin_detached_def by (simp add: Let_def)
    with rtranclp_trans [OF run drop_runs [OF i]] show ?thesis by simp
  qed
qed

text \<open>
  Property C8. The functions of theory \<open>Pool\<close> refine the interleaving system: a completed \<^verbatim>\<open>checkout\<close>,
  \<^verbatim>\<open>checkin\<close>, \<^verbatim>\<open>checkin_detached\<close> or \<^verbatim>\<open>destroy\<close> of one task is a run of steps of that task, so every
  state reached by whole operations is a reachable state of the system and has its invariants.
\<close>

theorem operations_refine_steps:
  assumes "i < length (sys_tasks s)"
  shows "(checkout ops clock connect t p = (Done l, t', p') \<longrightarrow> pool_steps (at s i p Out) (at s i p' (Leased l))) \<and>
    (checkin ops clock h l t p = (t', p') \<longrightarrow> pool_steps (at s i p (Leased l)) (at s i p' Out)) \<and>
    (checkin_detached ops clock dirty l t p = (t', p') \<longrightarrow> pool_steps (at s i p (Leased l)) (at s i p' Out)) \<and>
    pool_steps (at s i p (Leased l)) (at s i (destroy l p) Out)"
proof -
  have "pool_steps (at s i p (Leased l)) (at s i (destroy l p) Out)"
    by (rule step_at [OF assms]) (auto intro: pool_step.destroyed)
  then show ?thesis
    by (intro conjI impI) (rule checkout_runs [OF assms] checkin_runs [OF assms] checkin_detached_runs [OF assms], assumption)+
qed

theorem operations_refine_steps_witness:
  "pool_steps (at sample_system 0 (sys_pool sample_system) (Leased (sample_lease 4)))
     (at sample_system 0 (destroy (sample_lease 4) (sys_pool sample_system)) Out)"
  using operations_refine_steps [of 0 sample_system] by (simp add: sample_system_def system_new_def)

end
