(* ===== verification/Rows.thy ===== *)
theory Rows
  imports Wire
begin

text \<open>
  Value-level row access (src/crates/pgferry/src/intercept.rs): \<^verbatim>\<open>RowSchema\<close>, \<^verbatim>\<open>RowError\<close> and
  \<^verbatim>\<open>DataRowMut\<close>, the decoded \<^verbatim>\<open>DataRow\<close> handed to the \<^verbatim>\<open>on_row\<close> hook. The bytes of a row are big-endian
  length-prefixed cells, a negative length marking NULL. Rust panics are values of \<open>outcome\<close>. The
  lemmas show that decoding inverts encoding, that slots never reach outside the row, and that
  rewriting a cell leaves the framing and every other cell alone.
\<close>

unbundle bit_operations_syntax

section \<open>Bytes\<close>

datatype 'a outcome = Ret 'a | Panic

text \<open>\<^verbatim>\<open>Buf::get_i32\<close> and \<^verbatim>\<open>BufMut::put_i32\<close>; reading from fewer than four bytes panics.\<close>

definition put_i32 :: "i32 \<Rightarrow> u8 list" where
  "put_i32 w = [ucast (drop_bit 24 w), ucast (drop_bit 16 w), ucast (drop_bit 8 w), ucast w]"

definition be32 :: "u8 \<Rightarrow> u8 \<Rightarrow> u8 \<Rightarrow> u8 \<Rightarrow> i32" where
  "be32 a b c d = push_bit 24 (ucast a) OR push_bit 16 (ucast b) OR push_bit 8 (ucast c) OR ucast d"

fun get_i32 :: "u8 list \<Rightarrow> (i32 \<times> u8 list) outcome" where
  "get_i32 (a # b # c # d # rest) = Ret (be32 a b c d, rest)"
| "get_i32 _ = Panic"

lemma be32_put: "be32 (ucast (drop_bit 24 w)) (ucast (drop_bit 16 w)) (ucast (drop_bit 8 w)) (ucast w) = w"
  for w :: i32
proof (rule bit_word_eqI)
  fix n assume n: "n < LENGTH(32)"
  consider "n < 8" | "8 \<le> n \<and> n < 16" | "16 \<le> n \<and> n < 24" | "24 \<le> n" by linarith
  then show "bit (be32 (ucast (drop_bit 24 w)) (ucast (drop_bit 16 w)) (ucast (drop_bit 8 w)) (ucast w)) n = bit w n"
    using n by cases (auto simp: be32_def bit_simps)
qed

lemma get_put_i32 [simp]: "get_i32 (put_i32 w @ rest) = Ret (w, rest)"
  by (simp add: put_i32_def be32_put)

lemma length_put_i32 [simp]: "length (put_i32 w) = 4"
  by (simp add: put_i32_def)

lemma get_i32_Ret: "4 \<le> length bs \<Longrightarrow> \<exists>w. get_i32 bs = Ret (w, drop 4 bs)"
  by (cases bs rule: get_i32.cases) (auto simp: numeral_eq_Suc)

text \<open>\<^verbatim>\<open>std::str::from_utf8\<close>: well-formed UTF-8, with the surrogate and overlong forms excluded.\<close>

definition u8_in :: "nat \<Rightarrow> nat \<Rightarrow> u8 \<Rightarrow> bool" where
  "u8_in lo hi b \<longleftrightarrow> lo \<le> unat b \<and> unat b \<le> hi"

abbreviation (input) cont :: "u8 \<Rightarrow> bool" where
  "cont \<equiv> u8_in 0x80 0xBF"

fun valid_utf8 :: "u8 list \<Rightarrow> bool" where
  "valid_utf8 [] = True"
| "valid_utf8 (a # bs) =
     (if u8_in 0 0x7F a then valid_utf8 bs
      else (case bs of
        b # cs \<Rightarrow>
          if u8_in 0xC2 0xDF a \<and> cont b then valid_utf8 cs
          else (case cs of
            c # ds \<Rightarrow>
              if cont c \<and>
                 (u8_in 0xE0 0xE0 a \<and> u8_in 0xA0 0xBF b \<or>
                  u8_in 0xE1 0xEC a \<and> cont b \<or>
                  u8_in 0xED 0xED a \<and> u8_in 0x80 0x9F b \<or>
                  u8_in 0xEE 0xEF a \<and> cont b)
              then valid_utf8 ds
              else (case ds of
                d # es \<Rightarrow>
                  if cont c \<and> cont d \<and>
                     (u8_in 0xF0 0xF0 a \<and> u8_in 0x90 0xBF b \<or>
                      u8_in 0xF1 0xF3 a \<and> cont b \<or>
                      u8_in 0xF4 0xF4 a \<and> u8_in 0x80 0x8F b)
                  then valid_utf8 es
                  else False
              | [] \<Rightarrow> False)
          | [] \<Rightarrow> False)
      | [] \<Rightarrow> False))"

section \<open>Schemas\<close>

record column_meta =
  col_name :: string
  type_oid :: u32
  col_format :: i16

definition is_text :: "column_meta \<Rightarrow> bool" where
  "is_text c \<longleftrightarrow> col_format c = 0"

type_synonym row_schema = "column_meta list"

definition from_row_description :: "field_description list \<Rightarrow> row_schema" where
  "from_row_description fs =
     map (\<lambda>f. \<lparr>col_name = fd_name f, type_oid = fd_type_id f, col_format = fd_format_code f\<rparr>) fs"

fun position :: "('a \<Rightarrow> bool) \<Rightarrow> 'a list \<Rightarrow> nat option" where
  "position P [] = None"
| "position P (x # xs) = (if P x then Some 0 else map_option Suc (position P xs))"

definition column_index :: "row_schema \<Rightarrow> string \<Rightarrow> nat option" where
  "column_index cols n = position (\<lambda>c. col_name c = n) cols"

section \<open>Decoded rows\<close>

datatype row_error = OutOfRange nat nat | BinaryColumn nat | NullColumn nat

datatype value_slot = Range nat nat | Owned "u8 list"

record data_row_mut =
  mut_row :: data_row
  mut_values :: "value_slot option list"
  mut_modified :: bool

definition usize_max :: nat where
  "usize_max = 2 ^ 64 - 1"

text \<open>
  The decoding loop: \<open>n\<close> cells remain, \<open>cursor\<close> is the unread tail of the data and \<open>offset\<close> its
  position. \<open>fc\<close> is the field count the error reports.
\<close>

fun parse_loop :: "nat \<Rightarrow> u8 list \<Rightarrow> nat \<Rightarrow> nat \<Rightarrow> row_error + value_slot option list" where
  "parse_loop 0 cursor offset fc = Inr []"
| "parse_loop (Suc n) cursor offset fc =
     (if length cursor < 4 then Inl (OutOfRange usize_max fc)
      else (case get_i32 cursor of
          Panic \<Rightarrow> Inl (OutOfRange usize_max fc)
        | Ret (len, cursor) \<Rightarrow>
            let offset = offset + 4
            in if sint len < 0 then map_sum id (Cons None) (parse_loop n cursor offset fc)
               else let len = unat len
                    in if length cursor < len then Inl (OutOfRange usize_max fc)
                       else map_sum id (Cons (Some (Range offset len)))
                              (parse_loop n (drop len cursor) (offset + len) fc)))"

text \<open>
  \<^verbatim>\<open>DataRowMut::parse\<close>. The vector is allocated with the field count as its capacity: a negative
  \<^verbatim>\<open>i16\<close> casts to a capacity near \<^verbatim>\<open>usize::MAX\<close>, which panics.
\<close>

definition row_parse :: "data_row \<Rightarrow> (row_error + data_row_mut) outcome" where
  "row_parse row =
     (if sint (field_count row) < 0 then Panic
      else Ret (case parse_loop (unat (field_count row)) (row_data row) 0 (unat (field_count row)) of
          Inl e \<Rightarrow> Inl e
        | Inr values \<Rightarrow> Inr \<lparr>mut_row = row, mut_values = values, mut_modified = False\<rparr>))"

definition row_len :: "data_row_mut \<Rightarrow> nat" where
  "row_len m = length (mut_values m)"

definition row_is_null :: "data_row_mut \<Rightarrow> nat \<Rightarrow> row_error + bool" where
  "row_is_null m i =
     (if i < length (mut_values m) then Inr (mut_values m ! i = None)
      else Inl (OutOfRange i (length (mut_values m))))"

definition slice :: "u8 list \<Rightarrow> nat \<Rightarrow> nat \<Rightarrow> u8 list" where
  "slice data offset len = take len (drop offset data)"

definition row_text :: "data_row_mut \<Rightarrow> nat \<Rightarrow> row_error + u8 list option" where
  "row_text m i =
     (if i < length (mut_values m)
      then (case mut_values m ! i of
          None \<Rightarrow> Inr None
        | Some (Owned bytes) \<Rightarrow> if valid_utf8 bytes then Inr (Some bytes) else Inl (BinaryColumn i)
        | Some (Range offset len) \<Rightarrow>
            (let bytes = slice (row_data (mut_row m)) offset len
             in if valid_utf8 bytes then Inr (Some bytes) else Inl (BinaryColumn i)))
      else Inl (OutOfRange i (length (mut_values m))))"

definition row_set_text :: "data_row_mut \<Rightarrow> nat \<Rightarrow> u8 list \<Rightarrow> row_error + data_row_mut" where
  "row_set_text m i v =
     (if i \<ge> length (mut_values m) then Inl (OutOfRange i (length (mut_values m)))
      else Inr (m\<lparr>mut_values := (mut_values m)[i := Some (Owned v)], mut_modified := True\<rparr>))"

definition row_set_null :: "data_row_mut \<Rightarrow> nat \<Rightarrow> row_error + data_row_mut" where
  "row_set_null m i =
     (if i \<ge> length (mut_values m) then Inl (OutOfRange i (length (mut_values m)))
      else Inr (m\<lparr>mut_values := (mut_values m)[i := None], mut_modified := True\<rparr>))"

fun slot_encode :: "u8 list \<Rightarrow> value_slot option \<Rightarrow> u8 list" where
  "slot_encode data (Some (Range offset len)) = put_i32 (of_nat len) @ slice data offset len"
| "slot_encode data (Some (Owned bytes)) = put_i32 (of_nat (length bytes)) @ bytes"
| "slot_encode data None = put_i32 (-1)"

definition row_apply :: "data_row_mut \<Rightarrow> data_row" where
  "row_apply m =
     (if mut_modified m
      then (mut_row m)\<lparr>row_data := concat (map (slot_encode (row_data (mut_row m))) (mut_values m))\<rparr>
      else mut_row m)"

section \<open>The reference encoding and what a decoded row denotes\<close>

fun cell_encode :: "u8 list option \<Rightarrow> u8 list" where
  "cell_encode None = put_i32 (-1)"
| "cell_encode (Some b) = put_i32 (of_nat (length b)) @ b"

definition row_encode :: "u8 list option list \<Rightarrow> u8 list" where
  "row_encode cells = concat (map cell_encode cells)"

fun slot_bytes :: "u8 list \<Rightarrow> value_slot \<Rightarrow> u8 list" where
  "slot_bytes data (Range offset len) = slice data offset len"
| "slot_bytes data (Owned b) = b"

definition row_cells :: "data_row_mut \<Rightarrow> u8 list option list" where
  "row_cells m = map (map_option (slot_bytes (row_data (mut_row m)))) (mut_values m)"

definition cell_ok :: "u8 list option \<Rightarrow> bool" where
  "cell_ok c \<longleftrightarrow> (case c of None \<Rightarrow> True | Some b \<Rightarrow> length b < 2 ^ 31)"

fun slot_ok :: "u8 list \<Rightarrow> value_slot option \<Rightarrow> bool" where
  "slot_ok data None = True"
| "slot_ok data (Some (Range offset len)) = (offset + len \<le> length data \<and> len < 2 ^ 31)"
| "slot_ok data (Some (Owned b)) = (length b < 2 ^ 31)"

definition row_wf :: "data_row_mut \<Rightarrow> bool" where
  "row_wf m \<longleftrightarrow> length (mut_values m) = unat (field_count (mut_row m)) \<and> 0 \<le> sint (field_count (mut_row m))
     \<and> list_all (slot_ok (row_data (mut_row m))) (mut_values m)"

lemma unat_less_31:
  fixes w :: i32
  assumes "0 \<le> sint w"
  shows "unat w < 2 ^ 31"
proof -
  have lt: "sint w < 2 ^ 31" using sint_lt [of w] by simp
  have "uint w = take_bit 32 (sint w)" using uint_sint [of w] by simp
  also have "\<dots> = sint w" using assms lt by (simp add: take_bit_int_eq_self)
  finally have "uint w < 2 ^ 31" using lt by simp
  then have "int (unat w) < int (2 ^ 31)" by simp
  then show ?thesis by (simp only: of_nat_less_iff)
qed

lemma sint_of_nat_small: "n < 2 ^ 31 \<Longrightarrow> sint (of_nat n :: i32) = int n"
  by (simp add: sint_uint unsigned_of_nat, subst signed_take_bit_int_eq_self)
    (auto simp: take_bit_nat_eq_self)

lemma unat_of_nat_small: "n < 2 ^ 31 \<Longrightarrow> unat (of_nat n :: i32) = n"
  by (simp add: unat_of_nat)

lemma drop_of_length: "drop (length xs + k) (xs @ ys) = drop k ys"
  by simp

text \<open>Decoding inverts encoding: the slots found denote exactly the encoded cells.\<close>

lemma parse_loop_encode:
  assumes "list_all cell_ok cells" and "drop offset data = row_encode cells @ rest"
  shows "\<exists>slots. parse_loop (length cells) (row_encode cells @ rest) offset fc = Inr slots \<and>
           map (map_option (slot_bytes data)) slots = cells"
  using assms
proof (induction cells arbitrary: offset)
  case Nil
  then show ?case by simp
next
  case (Cons c cells)
  show ?case
  proof (cases c)
    case None
    have "drop (offset + 4) data = drop 4 (drop offset data)" by (simp add: add.commute)
    also have "\<dots> = row_encode cells @ rest"
      using Cons.prems(2) None by (simp add: row_encode_def put_i32_def)
    finally obtain slots where
      "parse_loop (length cells) (row_encode cells @ rest) (offset + 4) fc = Inr slots"
      "map (map_option (slot_bytes data)) slots = cells"
      using Cons.IH Cons.prems(1) by auto
    with None show ?thesis by (simp add: row_encode_def)
  next
    case (Some b)
    with Cons.prems(1) have len: "length b < 2 ^ 31" by (simp add: cell_ok_def)
    have d4: "drop (offset + 4) data = b @ row_encode cells @ rest"
    proof -
      have "drop (offset + 4) data = drop 4 (drop offset data)" by (simp add: add.commute)
      with Cons.prems(2) Some show ?thesis by (simp add: row_encode_def put_i32_def)
    qed
    have "drop (offset + 4 + length b) data = drop (length b) (drop (offset + 4) data)"
      by (simp add: add.commute)
    with d4 have "drop (offset + 4 + length b) data = row_encode cells @ rest" by simp
    then obtain slots where
      "parse_loop (length cells) (row_encode cells @ rest) (offset + 4 + length b) fc = Inr slots"
      "map (map_option (slot_bytes data)) slots = cells"
      using Cons.IH Cons.prems(1) by auto
    moreover have "slice data (offset + 4) (length b) = b" by (simp add: slice_def d4)
    ultimately show ?thesis
      using Some len by (simp add: row_encode_def sint_of_nat_small unat_of_nat_small Let_def)
  qed
qed

text \<open>Whatever the bytes, a successful decoding yields slots inside the row.\<close>

lemma parse_loop_sound:
  assumes "parse_loop n cursor offset fc = Inr slots" and "drop offset data = cursor"
    and "offset \<le> length data"
  shows "length slots = n \<and> list_all (slot_ok data) slots"
  using assms
proof (induction n arbitrary: cursor offset slots)
  case 0
  then show ?case by simp
next
  case (Suc n)
  have four: "4 \<le> length cursor" using Suc.prems(1) by (auto split: if_splits)
  then obtain w where w: "get_i32 cursor = Ret (w, drop 4 cursor)" by (auto dest: get_i32_Ret)
  have len: "length data = offset + length cursor" using Suc.prems(2,3) by auto
  have d4: "drop (offset + 4) data = drop 4 cursor" using Suc.prems(2) by (auto simp: add.commute)
  show ?case
  proof (cases "sint w < 0")
    case True
    with Suc.prems(1) four w obtain ss where
      "parse_loop n (drop 4 cursor) (offset + 4) fc = Inr ss" "slots = None # ss"
      by (auto simp: Let_def map_sum_def split: sum.splits)
    with Suc.IH [OF _ d4] len four show ?thesis by simp
  next
    case False
    let ?l = "unat w"
    from False Suc.prems(1) four w obtain ss where
      p: "parse_loop n (drop ?l (drop 4 cursor)) (offset + 4 + ?l) fc = Inr ss"
      and s: "slots = Some (Range (offset + 4) ?l) # ss" and l: "?l \<le> length cursor - 4"
      by (auto simp: Let_def map_sum_def split: sum.splits if_splits)
    have d: "drop (offset + 4 + ?l) data = drop ?l (drop 4 cursor)"
      using d4 by (metis add.commute drop_drop)
    have "offset + 4 + ?l \<le> length data" using l len four by simp
    with Suc.IH [OF p d] have "length ss = n \<and> list_all (slot_ok data) ss" by simp
    moreover have "?l < 2 ^ 31" by (rule unat_less_31) (use False in simp)
    ultimately show ?thesis using s l len four by simp
  qed
qed

lemma row_wf_parse: "row_parse row = Ret (Inr m) \<Longrightarrow> row_wf m \<and> mut_row m = row \<and> \<not> mut_modified m"
  by (auto simp: row_parse_def row_wf_def split: if_splits sum.splits dest!: parse_loop_sound)

lemma row_wf_set_text: "row_wf m \<Longrightarrow> length v < 2 ^ 31 \<Longrightarrow> row_set_text m i v = Inr m' \<Longrightarrow> row_wf m'"
  by (auto simp: row_wf_def row_set_text_def list_all_iff split: if_splits dest!: set_update_subset_insert [THEN subsetD])

lemma row_wf_set_null: "row_wf m \<Longrightarrow> row_set_null m i = Inr m' \<Longrightarrow> row_wf m'"
  by (auto simp: row_wf_def row_set_null_def list_all_iff split: if_splits dest!: set_update_subset_insert [THEN subsetD])

lemma row_cells_set_text: "row_set_text m i v = Inr m' \<Longrightarrow> row_cells m' = (row_cells m)[i := Some v]"
  by (auto simp: row_cells_def row_set_text_def map_update split: if_splits)

lemma row_cells_set_null: "row_set_null m i = Inr m' \<Longrightarrow> row_cells m' = (row_cells m)[i := None]"
  by (auto simp: row_cells_def row_set_null_def map_update split: if_splits)

lemma slot_encode_cell:
  "slot_ok data s \<Longrightarrow> slot_encode data s = cell_encode (map_option (slot_bytes data) s)"
  by (cases "(data, s)" rule: slot_ok.cases) (auto simp: slice_def)

lemma slot_ok_cell: "slot_ok data s \<Longrightarrow> cell_ok (map_option (slot_bytes data) s)"
  by (cases "(data, s)" rule: slot_ok.cases) (auto simp: slice_def cell_ok_def)

text \<open>Re-encoding a row and decoding it again yields the same cells.\<close>

lemma row_apply_data:
  assumes "row_wf m" and "mut_modified m"
  shows "row_apply m = (mut_row m)\<lparr>row_data := row_encode (row_cells m)\<rparr>"
proof -
  have "map (slot_encode (row_data (mut_row m))) (mut_values m) = map cell_encode (row_cells m)"
    using assms(1) by (auto simp: row_wf_def row_cells_def list_all_iff slot_encode_cell)
  with assms(2) show ?thesis by (simp add: row_apply_def row_encode_def)
qed

lemma row_apply_reparse:
  assumes "row_wf m" and "mut_modified m"
  shows "\<exists>m'. row_parse (row_apply m) = Ret (Inr m') \<and> row_cells m' = row_cells m"
proof -
  let ?data = "row_encode (row_cells m)"
  have "list_all cell_ok (row_cells m)"
    using assms(1) by (auto simp: row_wf_def row_cells_def list_all_iff slot_ok_cell)
  moreover have "drop 0 ?data = ?data @ []" by simp
  ultimately obtain slots where
    p: "parse_loop (length (row_cells m)) (?data @ []) 0 (unat (field_count (mut_row m))) = Inr slots"
    and c: "map (map_option (slot_bytes ?data)) slots = row_cells m"
    using parse_loop_encode [of "row_cells m" 0 ?data "[]"] by blast
  have n: "length (row_cells m) = unat (field_count (mut_row m))"
    using assms(1) by (simp add: row_wf_def row_cells_def)
  from p c n assms show ?thesis
    by (auto simp: row_parse_def row_apply_data row_cells_def row_wf_def)
qed

section \<open>Properties\<close>

datatype row_edit = SetText nat "u8 list" | SetNull nat

fun apply_edit :: "row_edit \<Rightarrow> data_row_mut \<Rightarrow> row_error + data_row_mut" where
  "apply_edit (SetText i v) m = row_set_text m i v"
| "apply_edit (SetNull i) m = row_set_null m i"

fun apply_edits :: "row_edit list \<Rightarrow> data_row_mut \<Rightarrow> row_error + data_row_mut" where
  "apply_edits [] m = Inr m"
| "apply_edits (e # es) m = (case apply_edit e m of Inl err \<Rightarrow> Inl err | Inr m' \<Rightarrow> apply_edits es m')"

fun edit_cells :: "row_edit \<Rightarrow> u8 list option list \<Rightarrow> u8 list option list" where
  "edit_cells (SetText i v) cells = cells[i := Some v]"
| "edit_cells (SetNull i) cells = cells[i := None]"

fun edit_ok :: "row_edit \<Rightarrow> bool" where
  "edit_ok (SetText i v) = (length v < 2 ^ 31)"
| "edit_ok (SetNull i) = True"

lemma apply_edit_sound:
  assumes "apply_edit e m = Inr m'" and "row_wf m" and "edit_ok e"
  shows "row_wf m' \<and> mut_modified m' \<and> row_cells m' = edit_cells e (row_cells m) \<and> mut_row m' = mut_row m"
proof (cases e)
  case (SetText i v)
  with assms show ?thesis
    by (auto simp: row_cells_set_text intro: row_wf_set_text) (auto simp: row_set_text_def split: if_splits)
next
  case (SetNull i)
  with assms show ?thesis
    by (auto simp: row_cells_set_null intro: row_wf_set_null) (auto simp: row_set_null_def split: if_splits)
qed

lemma apply_edits_sound:
  assumes "apply_edits es m = Inr m'" and "row_wf m" and "list_all edit_ok es"
  shows "row_wf m' \<and> row_cells m' = fold edit_cells es (row_cells m) \<and> mut_row m' = mut_row m \<and>
    (mut_modified m' \<longleftrightarrow> mut_modified m \<or> es \<noteq> [])"
  using assms
proof (induction es arbitrary: m)
  case Nil
  then show ?case by simp
next
  case (Cons e es)
  then obtain m1 where "apply_edit e m = Inr m1" and "apply_edits es m1 = Inr m'"
    by (auto split: sum.splits)
  with Cons apply_edit_sound [of e m m1] show ?case by auto
qed

text \<open>
  Property C22. Encoding a row of cells (any number of cells a field count can express, any mix of NULLs
  and values shorter than 2 GiB) and decoding it yields exactly those cells, and the decoded row
  re-encodes to the very same message when nothing was changed.
\<close>

theorem row_decode_encode:
  assumes "list_all cell_ok cells" and "0 \<le> sint (field_count row)"
    and "length cells = unat (field_count row)" and "row_data row = row_encode cells"
  shows "\<exists>m. row_parse row = Ret (Inr m) \<and> row_cells m = cells \<and> row_apply m = row"
proof -
  obtain slots where
    "parse_loop (length cells) (row_encode cells @ []) 0 (unat (field_count row)) = Inr slots"
    "map (map_option (slot_bytes (row_data row))) slots = cells"
    using parse_loop_encode [OF assms(1), of 0 "row_data row" "[]"] assms(4) by auto
  with assms show ?thesis by (auto simp: row_parse_def row_cells_def row_apply_def)
qed

theorem row_decode_encode_witness:
  "\<exists>m. row_parse \<lparr>row_data = row_encode [Some [65, 66], None], field_count = 2\<rparr> = Ret (Inr m) \<and>
     row_cells m = [Some [65, 66], None] \<and>
     row_apply m = \<lparr>row_data = row_encode [Some [65, 66], None], field_count = 2\<rparr>"
  by (rule row_decode_encode) (simp_all add: cell_ok_def)

text \<open>
  Property C21. Editing a row through \<^verbatim>\<open>DataRowMut\<close> cannot corrupt its framing: whatever sequence of
  \<^verbatim>\<open>set_text\<close> and \<^verbatim>\<open>set_null\<close> calls a hook makes on a decoded row, the re-encoded message decodes again,
  with the same number of fields, to exactly the original cells with those edits applied.
\<close>

theorem row_edits_preserve_framing:
  assumes "row_parse row = Ret (Inr m)" and "apply_edits es m = Inr m'" and "list_all edit_ok es"
  shows "\<exists>m''. row_parse (row_apply m') = Ret (Inr m'') \<and>
           row_cells m'' = fold edit_cells es (row_cells m) \<and>
           field_count (row_apply m') = field_count row"
proof -
  from assms(1) have m: "row_wf m" "mut_row m = row" "\<not> mut_modified m" by (auto dest: row_wf_parse)
  from apply_edits_sound [OF assms(2) m(1) assms(3)] m have m':
    "row_wf m'" "row_cells m' = fold edit_cells es (row_cells m)" "mut_row m' = row"
    "mut_modified m' \<longleftrightarrow> es \<noteq> []" by auto
  have fc: "field_count (row_apply m') = field_count row" using m'(3) by (simp add: row_apply_def)
  show ?thesis
  proof (cases "es = []")
    case True
    with assms m m' fc show ?thesis by (auto simp: row_apply_def)
  next
    case False
    with m' fc row_apply_reparse [of m'] show ?thesis by auto
  qed
qed

theorem row_edits_preserve_framing_witness:
  "\<exists>m''. row_parse (row_apply \<lparr>mut_row = \<lparr>row_data = [0, 0, 0, 1, 65, 255, 255, 255, 255], field_count = 2\<rparr>,
        mut_values = [Some (Owned [42, 42]), None], mut_modified = True\<rparr>) = Ret (Inr m'') \<and>
     row_cells m'' = [Some [42, 42], None]"
proof -
  let ?row = "\<lparr>row_data = [0, 0, 0, 1, 65, 255, 255, 255, 255], field_count = 2\<rparr> :: data_row"
  let ?m = "\<lparr>mut_row = ?row, mut_values = [Some (Range 4 1), None], mut_modified = False\<rparr>"
  have "row_parse ?row = Ret (Inr ?m)" by code_simp
  moreover have "apply_edits [SetText 0 [42, 42]] ?m =
      Inr \<lparr>mut_row = ?row, mut_values = [Some (Owned [42, 42]), None], mut_modified = True\<rparr>"
    by (simp add: row_set_text_def)
  moreover have "list_all edit_ok [SetText 0 [42, 42]]" by simp
  moreover have "row_cells ?m = [Some [65], None]" by (simp add: row_cells_def slice_def)
  ultimately show ?thesis using row_edits_preserve_framing by fastforce
qed

text \<open>
  Lemma. Decoding never looks outside the message: every slot of a decoded row lies inside its
  data, so the slices taken by \<^verbatim>\<open>text\<close> and \<^verbatim>\<open>apply\<close> cannot panic; and a decoded row that no hook modified
  is forwarded byte for byte.
\<close>

theorem decoded_slots_in_bounds:
  assumes "row_parse row = Ret (Inr m)"
  shows "row_apply m = row \<and> row_len m = unat (field_count row) \<and>
    (\<forall>offset len. Some (Range offset len) \<in> set (mut_values m) \<longrightarrow> offset + len \<le> length (row_data row))"
proof -
  from assms have m: "row_wf m" "mut_row m = row" "\<not> mut_modified m" by (auto dest: row_wf_parse)
  then have "\<forall>s\<in>set (mut_values m). slot_ok (row_data row) s" by (simp add: row_wf_def list_all_iff)
  with m show ?thesis by (fastforce simp: row_apply_def row_len_def row_wf_def)
qed

theorem decoded_slots_in_bounds_witness:
  "row_apply \<lparr>mut_row = \<lparr>row_data = [0, 0, 0, 1, 65], field_count = 1\<rparr>,
      mut_values = [Some (Range 4 1)], mut_modified = False\<rparr> = \<lparr>row_data = [0, 0, 0, 1, 65], field_count = 1\<rparr>"
proof -
  have "row_parse \<lparr>row_data = [0, 0, 0, 1, 65], field_count = 1\<rparr> =
      Ret (Inr \<lparr>mut_row = \<lparr>row_data = [0, 0, 0, 1, 65], field_count = 1\<rparr>,
        mut_values = [Some (Range 4 1)], mut_modified = False\<rparr>)" by code_simp
  from decoded_slots_in_bounds [OF this] show ?thesis by blast
qed

end
