(* ===== verification/Routing.thy ===== *)
theory Routing
  imports Config
begin

text \<open>
  Routing and passive health tracking (src/crates/pgferry/src/routing.rs) with the routing part of
  the interceptor API (src/crates/pgferry/src/intercept.rs): \<open>endpoint_group\<close> is \<^verbatim>\<open>EndpointGroup\<close>,
  \<open>rw_split\<close> is \<^verbatim>\<open>RwSplit\<close>, the \<open>failover_*\<close> functions are the hooks of \<^verbatim>\<open>FailoverRouter\<close>. The mutex
  around the health map makes each call atomic; the current time is an argument.
\<close>

section \<open>The routing part of the interceptor API\<close>

record routing_info =
  ri_endpoints :: "endpoint_config list"
  ri_user :: string
  ri_database :: "string option"
  ri_sql :: "string option"

definition ri_endpoint :: "routing_info \<Rightarrow> endpoint_id \<Rightarrow> endpoint_config option" where
  "ri_endpoint info i = List.find (\<lambda>e. ep_id e = i) (ri_endpoints info)"

definition default_endpoint :: "routing_info \<Rightarrow> endpoint_id" where
  "default_endpoint info = (case ri_endpoints info of [] \<Rightarrow> [] | e # _ \<Rightarrow> ep_id e)"

datatype upstream_error =
    Connect endpoint_id string
  | ConnectionLost endpoint_id string

fun error_endpoint :: "upstream_error \<Rightarrow> endpoint_id" where
  "error_endpoint (Connect e _) = e"
| "error_endpoint (ConnectionLost e _) = e"

datatype retry_decision = Relink | CloseSession

section \<open>Endpoint groups\<close>

definition DEFAULT_FAILURE_THRESHOLD :: u32 where
  "DEFAULT_FAILURE_THRESHOLD = 2"

definition DEFAULT_REVIVE_AFTER :: duration where
  "DEFAULT_REVIVE_AFTER = from_secs 30"

datatype health = Alive u32 | Dead instant

record endpoint_group =
  health :: "endpoint_id \<rightharpoonup> health"
  failure_threshold :: u32
  revive_after :: duration

definition group_new :: "endpoint_id list \<Rightarrow> endpoint_group" where
  "group_new ids =
     \<lparr>health = map_of (map (\<lambda>i. (i, Alive 0)) ids),
      failure_threshold = DEFAULT_FAILURE_THRESHOLD, revive_after = DEFAULT_REVIVE_AFTER\<rparr>"

definition group_from_endpoints :: "endpoint_config list \<Rightarrow> endpoint_group" where
  "group_from_endpoints es = group_new (map ep_id es)"

definition with_failure_threshold :: "u32 \<Rightarrow> endpoint_group \<Rightarrow> endpoint_group" where
  "with_failure_threshold t g = g\<lparr>failure_threshold := max t 1\<rparr>"

definition with_revive_after :: "duration \<Rightarrow> endpoint_group \<Rightarrow> endpoint_group" where
  "with_revive_after d g = g\<lparr>revive_after := d\<rparr>"

definition is_alive :: "instant \<Rightarrow> endpoint_group \<Rightarrow> endpoint_id \<Rightarrow> bool" where
  "is_alive now g i =
     (case health g i of
        None \<Rightarrow> True
      | Some (Alive _) \<Rightarrow> True
      | Some (Dead since) \<Rightarrow> elapsed now since \<ge> revive_after g)"

definition report_failure :: "instant \<Rightarrow> endpoint_id \<Rightarrow> endpoint_group \<Rightarrow> endpoint_group" where
  "report_failure now i g =
     (let entry = (case health g i of None \<Rightarrow> Alive 0 | Some h \<Rightarrow> h);
          entry' = (case entry of
                      Alive failures \<Rightarrow>
                        (let failures' = failures + 1
                         in if failures' \<ge> failure_threshold g then Dead now else Alive failures')
                    | Dead since \<Rightarrow> Dead now)
      in g\<lparr>health := (health g)(i \<mapsto> entry')\<rparr>)"

definition report_success :: "endpoint_id \<Rightarrow> endpoint_group \<Rightarrow> endpoint_group" where
  "report_success i g =
     (case health g i of
        None \<Rightarrow> g
      | Some _ \<Rightarrow> g\<lparr>health := (health g)(i \<mapsto> Alive 0)\<rparr>)"

definition select_first_alive :: "instant \<Rightarrow> endpoint_group \<Rightarrow> routing_info \<Rightarrow> endpoint_id option" where
  "select_first_alive now g info =
     map_option ep_id (List.find (\<lambda>e. is_alive now g (ep_id e)) (ri_endpoints info))"

text \<open>
  The round-robin pick is driven by the sub-second part of the wall clock, \<open>nanos\<close>; it is 0 when
  the clock is before the epoch.
\<close>

definition select_round_robin ::
    "instant \<Rightarrow> nat \<Rightarrow> endpoint_group \<Rightarrow> routing_info \<Rightarrow> endpoint_id option" where
  "select_round_robin now nanos g info =
     (let alive = filter (\<lambda>e. is_alive now g (ep_id e)) (ri_endpoints info)
      in if alive = [] then None else Some (ep_id (alive ! (nanos mod length alive))))"

section \<open>Read/write split\<close>

datatype read_preference = PrimaryOnly | ReplicaFirst

function strip_comments :: "string \<Rightarrow> string" where
  "strip_comments s =
     (case strip_prefix ''--'' s of
        Some rest \<Rightarrow>
          strip_comments (case split_once [CHR 0x0A] rest of Some (_, r) \<Rightarrow> r | None \<Rightarrow> [])
      | None \<Rightarrow>
          (case strip_prefix ''/*'' s of
             Some rest \<Rightarrow>
               strip_comments (case split_once ''*/'' rest of Some (_, r) \<Rightarrow> r | None \<Rightarrow> [])
           | None \<Rightarrow> s))"
  by pat_completeness auto
termination
  by (relation "measure length")
    (auto dest!: length_strip_prefix split: option.splits dest: split_once_length)

declare strip_comments.simps [simp del]

definition default_is_read :: "string \<Rightarrow> bool" where
  "default_is_read sql =
     (let stripped = strip_comments (trim_start sql);
          first = (case List.find (\<lambda>w. w \<noteq> []) (split_on (\<lambda>c. is_ws c \<or> c = CHR ''('') stripped) of
                     None \<Rightarrow> [] | Some w \<Rightarrow> map ascii_upper w)
      in first = ''SELECT'' \<or> first = ''SHOW'' \<or> first = ''TABLE'')"

record rw_split =
  rw_group :: endpoint_group
  rw_primary :: endpoint_id
  rw_preference :: read_preference
  rw_classifier :: "string \<Rightarrow> bool"

definition rw_split_new :: "endpoint_group \<Rightarrow> endpoint_id \<Rightarrow> rw_split" where
  "rw_split_new g p =
     \<lparr>rw_group = g, rw_primary = p, rw_preference = ReplicaFirst, rw_classifier = default_is_read\<rparr>"

definition with_read_preference :: "read_preference \<Rightarrow> rw_split \<Rightarrow> rw_split" where
  "with_read_preference p s = s\<lparr>rw_preference := p\<rparr>"

definition with_classifier :: "(string \<Rightarrow> bool) \<Rightarrow> rw_split \<Rightarrow> rw_split" where
  "with_classifier f s = s\<lparr>rw_classifier := f\<rparr>"

definition rw_route :: "instant \<Rightarrow> rw_split \<Rightarrow> routing_info \<Rightarrow> bool \<Rightarrow> endpoint_id" where
  "rw_route now s info is_read =
     (if \<not> is_read \<or> rw_preference s = PrimaryOnly then rw_primary s
      else (case List.find (\<lambda>e. ep_id e \<noteq> rw_primary s \<and> is_alive now (rw_group s) (ep_id e))
                   (ri_endpoints info) of
              Some e \<Rightarrow> ep_id e
            | None \<Rightarrow> rw_primary s))"

definition rw_route_sql :: "instant \<Rightarrow> rw_split \<Rightarrow> routing_info \<Rightarrow> string \<Rightarrow> endpoint_id" where
  "rw_route_sql now s info sql =
     (let is_read = rw_classifier s sql
      in if \<not> is_read \<or> rw_preference s = PrimaryOnly then rw_primary s
         else (case List.find (\<lambda>e. ep_id e \<noteq> rw_primary s \<and> is_alive now (rw_group s) (ep_id e))
                      (ri_endpoints info) of
                 Some e \<Rightarrow> ep_id e
               | None \<Rightarrow> rw_primary s))"

section \<open>The default router\<close>

definition failover_upstream :: "instant \<Rightarrow> endpoint_group \<Rightarrow> routing_info \<Rightarrow> endpoint_id" where
  "failover_upstream now g info =
     (case select_first_alive now g info of Some i \<Rightarrow> i | None \<Rightarrow> default_endpoint info)"

definition failover_on_upstream_error ::
    "instant \<Rightarrow> endpoint_group \<Rightarrow> upstream_error \<Rightarrow> retry_decision \<times> endpoint_group" where
  "failover_on_upstream_error now g err = (Relink, report_failure now (error_endpoint err) g)"

definition failover_on_upstream_connected :: "endpoint_group \<Rightarrow> endpoint_id \<Rightarrow> endpoint_group" where
  "failover_on_upstream_connected g i = report_success i g"

section \<open>Well-formed groups\<close>

text \<open>
  The code's own bound on the failure counter: an endpoint that is still counted as alive has fewer
  failures than the threshold, and the threshold is at least one.
\<close>

definition group_wf :: "endpoint_group \<Rightarrow> bool" where
  "group_wf g \<longleftrightarrow> 1 \<le> failure_threshold g \<and>
     (\<forall>i f. health g i = Some (Alive f) \<longrightarrow> f < failure_threshold g)"

lemma map_of_constant: "map_of (map (\<lambda>i. (i, c)) ids) i = (if i \<in> set ids then Some c else None)"
  by (induction ids) auto

lemma group_new_health: "health (group_new ids) i = (if i \<in> set ids then Some (Alive 0) else None)"
  by (simp add: group_new_def map_of_constant)

lemma group_wf_new: "group_wf (group_new ids)"
  by (auto simp: group_wf_def group_new_def map_of_constant DEFAULT_FAILURE_THRESHOLD_def
      split: if_splits)

lemma word_inc_less:
  fixes f t :: "'a::len word"
  assumes "f < t"
  shows "unat (f + 1) = Suc (unat f)"
proof -
  have "Suc (unat f) \<le> unat t" using assms by (simp add: word_less_nat_alt Suc_le_eq)
  also have "unat t < 2 ^ LENGTH('a)" by simp
  finally show ?thesis by (simp add: unat_word_ariths)
qed

lemma group_wf_report_failure: "group_wf g \<Longrightarrow> group_wf (report_failure t i g)"
  by (auto simp: group_wf_def report_failure_def Let_def not_le split: option.splits health.splits)

lemma group_wf_report_success: "group_wf g \<Longrightarrow> group_wf (report_success i g)"
  by (auto simp: group_wf_def report_success_def split: option.splits)
    (meson order_less_le_trans word_gt_0 zero_neq_one zero_less_one)

lemma report_failure_threshold [simp]: "failure_threshold (report_failure t i g) = failure_threshold g"
  by (simp add: report_failure_def Let_def)

lemma report_failure_revive [simp]: "revive_after (report_failure t i g) = revive_after g"
  by (simp add: report_failure_def Let_def)

lemma report_success_threshold [simp]: "failure_threshold (report_success i g) = failure_threshold g"
  by (simp add: report_success_def split: option.splits)

lemma report_success_revive [simp]: "revive_after (report_success i g) = revive_after g"
  by (simp add: report_success_def split: option.splits)

lemma report_failure_other [simp]: "j \<noteq> i \<Longrightarrow> health (report_failure t i g) j = health g j"
  by (simp add: report_failure_def Let_def)

lemma report_success_other [simp]: "j \<noteq> i \<Longrightarrow> health (report_success i g) j = health g j"
  by (simp add: report_success_def split: option.splits)

text \<open>How many more failures an endpoint survives before it is marked dead.\<close>

definition failures_left :: "endpoint_group \<Rightarrow> endpoint_id \<Rightarrow> nat" where
  "failures_left g i =
     (case health g i of
        None \<Rightarrow> unat (failure_threshold g)
      | Some (Alive f) \<Rightarrow> unat (failure_threshold g) - unat f
      | Some (Dead _) \<Rightarrow> 0)"

lemma failures_left_failure:
  assumes "group_wf g"
  shows "failures_left (report_failure t i g) i = failures_left g i - 1"
proof -
  have pos: "1 \<le> failure_threshold g" using assms by (simp add: group_wf_def)
  have inc: "\<And>f. f < failure_threshold g \<Longrightarrow> unat (f + 1) = Suc (unat f)"
    by (rule word_inc_less)
  have "unat ((0 :: u32) + 1) = 1" by simp
  with pos inc assms show ?thesis
    by (auto simp: failures_left_def report_failure_def Let_def group_wf_def word_le_nat_alt
        word_less_nat_alt split: option.splits health.splits)
qed

lemma failures_left_failure_other [simp]:
  "j \<noteq> i \<Longrightarrow> failures_left (report_failure t i g) j = failures_left g j"
  by (simp add: failures_left_def split: option.splits health.splits)

lemma failures_left_pos_alive: "0 < failures_left g i \<Longrightarrow> is_alive t g i"
  by (auto simp: failures_left_def is_alive_def split: option.splits health.splits)

lemma last_failure_kills:
  assumes "group_wf g" and "failures_left g i \<le> 1" and "elapsed t u < revive_after g"
  shows "\<not> is_alive t (report_failure u i g) i"
proof -
  have "failures_left (report_failure u i g) i = 0"
    using failures_left_failure [OF assms(1), of u i] assms(2) by simp
  moreover have "group_wf (report_failure u i g)"
    using assms(1) by (rule group_wf_report_failure)
  moreover have "\<exists>h. health (report_failure u i g) i = Some h"
    by (simp add: report_failure_def Let_def)
  ultimately obtain v where v: "health (report_failure u i g) i = Some (Dead v)"
    by (fastforce simp: failures_left_def group_wf_def word_less_nat_alt split: health.splits)
  then have "v = u"
    by (auto simp: report_failure_def Let_def split: option.splits health.splits if_splits)
  with v show ?thesis using assms(3) by (simp add: is_alive_def)
qed

section \<open>The contract of a health tracker\<close>

text \<open>
  What a router may rely on when it consults passive health: a success makes an endpoint alive again,
  reports about one endpoint do not touch the others, an endpoint survives a fixed number of failures
  and, once these are used up, is skipped until its cooldown has passed.
\<close>

locale health_tracker =
  fixes alive :: "nat \<Rightarrow> 'g \<Rightarrow> string \<Rightarrow> bool"
    and failure :: "nat \<Rightarrow> string \<Rightarrow> 'g \<Rightarrow> 'g"
    and success :: "string \<Rightarrow> 'g \<Rightarrow> 'g"
    and invar :: "'g \<Rightarrow> bool"
    and budget :: "'g \<Rightarrow> string \<Rightarrow> nat"
    and cooldown :: "'g \<Rightarrow> nat"
  assumes invar_failure: "invar g \<Longrightarrow> invar (failure t e g)"
    and invar_success: "invar g \<Longrightarrow> invar (success e g)"
    and success_alive: "alive t (success e g) e"
    and success_frame: "e' \<noteq> e \<Longrightarrow> alive t (success e g) e' = alive t g e'"
    and failure_frame: "e' \<noteq> e \<Longrightarrow> alive t (failure u e g) e' = alive t g e'"
    and budget_failure: "invar g \<Longrightarrow> budget (failure t e g) e = budget g e - 1"
    and budget_frame: "e' \<noteq> e \<Longrightarrow> budget (failure t e g) e' = budget g e'"
    and budget_alive: "0 < budget g e \<Longrightarrow> alive t g e"
    and exhausted_dead: "invar g \<Longrightarrow> budget g e \<le> 1 \<Longrightarrow> t - u < cooldown g \<Longrightarrow> \<not> alive t (failure u e g) e"
    and cooldown_failure: "cooldown (failure t e g) = cooldown g"
begin

lemma invar_failures: "invar g \<Longrightarrow> invar (fold (\<lambda>t. failure t e) ts g)"
  by (induction ts arbitrary: g) (simp_all add: invar_failure)

lemma budget_failures: "invar g \<Longrightarrow> budget (fold (\<lambda>t. failure t e) ts g) e = budget g e - length ts"
  by (induction ts arbitrary: g) (simp_all add: invar_failure budget_failure)

lemma cooldown_failures: "cooldown (fold (\<lambda>t. failure t e) ts g) = cooldown g"
  by (induction ts arbitrary: g) (simp_all add: cooldown_failure)

text \<open>Fewer failures than the budget leave the endpoint alive.\<close>

lemma survives: "invar g \<Longrightarrow> length ts < budget g e \<Longrightarrow> alive t (fold (\<lambda>t. failure t e) ts g) e"
  by (rule budget_alive) (simp add: budget_failures)

text \<open>Using up the budget takes it out of rotation until the cooldown after the last failure.\<close>

lemma dies:
  assumes "invar g" and "budget g e \<le> length ts" and "ts \<noteq> []" and "t - last ts < cooldown g"
  shows "\<not> alive t (fold (\<lambda>t. failure t e) ts g) e"
proof -
  obtain us u where ts: "ts = us @ [u]" using assms(3) by (cases ts rule: rev_cases) auto
  let ?g = "fold (\<lambda>t. failure t e) us g"
  have "invar ?g" using assms(1) by (rule invar_failures)
  moreover have "budget ?g e \<le> 1" using assms(1,2) ts by (simp add: budget_failures)
  moreover have "t - u < cooldown ?g" using assms(4) ts by (simp add: cooldown_failures)
  ultimately have "\<not> alive t (failure u e ?g) e" by (rule exhausted_dead)
  then show ?thesis by (simp add: ts)
qed

end

interpretation eg: health_tracker is_alive report_failure report_success group_wf failures_left revive_after
proof (unfold_locales, goal_cases)
  case (1 g t e) then show ?case by (rule group_wf_report_failure)
next
  case (2 g e) then show ?case by (rule group_wf_report_success)
next
  case (3 t e g) then show ?case by (simp add: is_alive_def report_success_def split: option.splits)
next
  case (4 e' e t g) then show ?case by (simp add: is_alive_def split: option.splits health.splits)
next
  case (5 e' e t u g) then show ?case by (simp add: is_alive_def split: option.splits health.splits)
next
  case (6 g t e) then show ?case by (rule failures_left_failure)
next
  case (7 e' e t g) then show ?case by simp
next
  case (8 g e t) then show ?case by (rule failures_left_pos_alive)
next
  case (9 g e t u) then show ?case by (simp add: last_failure_kills elapsed_def)
next
  case (10 t e g) then show ?case by simp
qed

section \<open>Properties of health tracking\<close>

lemma fold_report_failure_health:
  assumes "group_wf g" and "health g e = None \<or> health g e = Some (Alive 0)" and "ts \<noteq> []"
  shows "health (fold (\<lambda>t. report_failure t e) ts g) e =
           (if length ts < unat (failure_threshold g) then Some (Alive (of_nat (length ts)))
            else Some (Dead (last ts)))"
  using assms(3)
proof (induction ts rule: rev_induct)
  case Nil
  then show ?case by simp
next
  case (snoc u us)
  have thr: "unat (failure_threshold g) < 2 ^ 32"
    using unsigned_less [of "failure_threshold g"] by simp
  have "failure_threshold (fold (\<lambda>t. report_failure t e) us g) = failure_threshold g"
    by (induction us arbitrary: g) simp_all
  note [simp] = this
  show ?case
  proof (cases "us = []")
    case True
    have "1 \<le> failure_threshold g" using assms(1) by (simp add: group_wf_def)
    with True assms(2) show ?thesis
      by (auto simp: report_failure_def Let_def word_le_nat_alt)
  next
    case False
    then have IH: "health (fold (\<lambda>t. report_failure t e) us g) e =
        (if length us < unat (failure_threshold g) then Some (Alive (of_nat (length us)))
         else Some (Dead (last us)))"
      by (rule snoc.IH)
    have "length us < unat (failure_threshold g) \<Longrightarrow>
        unat (of_nat (length us) + 1 :: u32) = Suc (length us)"
      using thr by (simp add: unat_word_ariths unat_of_nat)
    moreover define h where "h = fold (\<lambda>t. report_failure t e) us g"
    moreover from h_def have "failure_threshold h = failure_threshold g" by simp
    ultimately show ?thesis
      using IH by (auto simp: report_failure_def [of u e h] Let_def word_le_nat_alt add.commute
          simp flip: h_def)
  qed
qed

text \<open>
  Lemma. An endpoint that starts with a clean record stays alive, with an exact failure count,
  for fewer than \<^verbatim>\<open>failure_threshold\<close> consecutive failures, and from the threshold on it is dead since
  the time of the last reported failure.
\<close>

theorem consecutive_failures_until_dead:
  assumes "group_wf g" and "health g e = None \<or> health g e = Some (Alive 0)" and "ts \<noteq> []"
  shows "health (fold (\<lambda>t. report_failure t e) ts g) e =
           (if length ts < unat (failure_threshold g) then Some (Alive (of_nat (length ts)))
            else Some (Dead (last ts)))"
  using assms by (rule fold_report_failure_health)

theorem consecutive_failures_until_dead_witness:
  "health (fold (\<lambda>t. report_failure t ''a'') [5, 9] (group_new [''a'', ''b''])) ''a'' = Some (Dead 9)"
proof -
  have "health (group_new [''a'', ''b'']) ''a'' = Some (Alive 0)" by (simp add: group_new_def)
  moreover have "unat (failure_threshold (group_new [''a'', ''b''])) = 2"
    by (simp add: group_new_def DEFAULT_FAILURE_THRESHOLD_def)
  ultimately show ?thesis
    using consecutive_failures_until_dead [OF group_wf_new, of "[''a'', ''b'']" "''a''" "[5, 9]"]
    by simp
qed

datatype group_event = FailureReport instant endpoint_id | SuccessReport endpoint_id

fun group_apply :: "group_event \<Rightarrow> endpoint_group \<Rightarrow> endpoint_group" where
  "group_apply (FailureReport t i) g = report_failure t i g"
| "group_apply (SuccessReport i) g = report_success i g"

lemma group_wf_apply: "group_wf g \<Longrightarrow> group_wf (group_apply ev g)"
  by (cases ev) (simp_all add: group_wf_report_failure group_wf_report_success)

interpretation gr: event_system group_apply group_wf
  by unfold_locales (rule group_wf_apply)

text \<open>
  Lemma. Whatever sequence of failure and success reports a group sees, the failure counter of
  an endpoint stays below the threshold, so the \<^verbatim>\<open>*failures += 1\<close> of \<^verbatim>\<open>report_failure\<close> never
  overflows its 32 bits.
\<close>

theorem failure_counter_never_overflows:
  assumes "health (fold group_apply evs (with_failure_threshold n (group_new ids))) i = Some (Alive f)"
  shows "f < max n 1 \<and> unat (f + 1) = unat f + 1"
proof -
  let ?g = "with_failure_threshold n (group_new ids)"
  have wf: "group_wf ?g"
    by (auto simp: group_wf_def with_failure_threshold_def group_new_health split: if_splits)
      (metis max.cobounded2 order_less_le_trans word_gt_0_no zero_less_one word_gt_0 zero_neq_one)
  have thr: "failure_threshold (fold group_apply evs g) = failure_threshold g" for g
  proof (induction evs arbitrary: g)
    case (Cons ev evs)
    then show ?case by (cases ev) simp_all
  qed simp
  have "f < failure_threshold ?g"
    using gr.run_inv [OF wf, of evs] assms thr [of ?g] by (auto simp: group_wf_def)
  then have "f < max n 1" by (simp add: with_failure_threshold_def)
  moreover from this have "unat (f + 1) = Suc (unat f)" by (rule word_inc_less)
  ultimately show ?thesis by simp
qed

theorem failure_counter_never_overflows_witness:
  "(2 :: u32) < max 3 1 \<and> unat ((2 :: u32) + 1) = unat (2 :: u32) + 1"
proof (rule failure_counter_never_overflows [where ids = "[''a'']" and i = "''a''"
      and evs = "[FailureReport 1 ''a'', FailureReport 2 ''a'']"])
  show "health (fold group_apply [FailureReport 1 ''a'', FailureReport 2 ''a'']
      (with_failure_threshold 3 (group_new [''a'']))) ''a'' = Some (Alive 2)"
    by (simp add: report_failure_def with_failure_threshold_def group_new_def max_def
        word_le_nat_alt)
qed

section \<open>Properties of endpoint selection\<close>

text \<open>
  Lemma. \<^verbatim>\<open>select_first_alive\<close> respects the configured order: it returns an endpoint exactly when
  that endpoint is alive and every endpoint configured before it is dead, and nothing exactly when
  all of them are dead.
\<close>

theorem select_first_alive_spec:
  "(select_first_alive now g info = Some i \<longleftrightarrow>
      (\<exists>pre e post. ri_endpoints info = pre @ e # post \<and> ep_id e = i \<and> is_alive now g i \<and>
         (\<forall>p\<in>set pre. \<not> is_alive now g (ep_id p)))) \<and>
   (select_first_alive now g info = None \<longleftrightarrow> (\<forall>e\<in>set (ri_endpoints info). \<not> is_alive now g (ep_id e)))"
  by (auto simp: select_first_alive_def find_Some_split find_None_all)

theorem select_first_alive_spec_witness:
  "select_first_alive 10 (group_new [''a'', ''b''])
     \<lparr>ri_endpoints = [\<lparr>ep_id = ''a'', ep_upstream = [], ep_password = None, ep_tls = None\<rparr>],
      ri_user = ''u'', ri_database = None, ri_sql = None\<rparr> = Some ''a''"
proof -
  let ?e = "\<lparr>ep_id = ''a'', ep_upstream = [], ep_password = None, ep_tls = None\<rparr>"
  let ?info = "\<lparr>ri_endpoints = [?e], ri_user = ''u'', ri_database = None, ri_sql = None\<rparr>"
  have "ri_endpoints ?info = [] @ ?e # [] \<and> ep_id ?e = ''a'' \<and>
      is_alive 10 (group_new [''a'', ''b'']) ''a'' \<and>
      (\<forall>p\<in>set []. \<not> is_alive 10 (group_new [''a'', ''b'']) (ep_id p))"
    by (simp add: is_alive_def group_new_def)
  then show ?thesis
    using select_first_alive_spec [of 10 "group_new [''a'', ''b'']" ?info "''a''"] by blast
qed

lemma failover_upstream_mem:
  "ri_endpoints info \<noteq> [] \<Longrightarrow> failover_upstream now g info \<in> ep_id ` set (ri_endpoints info)"
  by (auto simp: failover_upstream_def select_first_alive_def default_endpoint_def
      split: option.splits list.splits dest!: find_Some_in_set)

text \<open>
  Lemma. The default router always picks a configured endpoint, so with \<^verbatim>\<open>FailoverRouter\<close> the
  attach loop never meets an unknown endpoint; and it picks a dead endpoint only when every endpoint
  is dead, in which case it falls back to the first one configured.
\<close>

theorem failover_router_picks_configured:
  assumes "ri_endpoints info \<noteq> []"
  shows "failover_upstream now g info \<in> ep_id ` set (ri_endpoints info) \<and>
    (is_alive now g (failover_upstream now g info) \<or>
     (\<forall>e\<in>set (ri_endpoints info). \<not> is_alive now g (ep_id e)) \<and>
     failover_upstream now g info = ep_id (hd (ri_endpoints info)))"
  using assms failover_upstream_mem [OF assms]
  by (auto simp: failover_upstream_def select_first_alive_def default_endpoint_def find_None_all
      split: option.splits list.splits dest!: find_Some_in_set)

theorem failover_router_picks_configured_witness:
  "failover_upstream 10 (report_failure 9 ''a'' (report_failure 8 ''a'' (group_new [''a'', ''b''])))
     \<lparr>ri_endpoints = [\<lparr>ep_id = ''a'', ep_upstream = [], ep_password = None, ep_tls = None\<rparr>,
                       \<lparr>ep_id = ''b'', ep_upstream = [], ep_password = None, ep_tls = None\<rparr>],
      ri_user = ''u'', ri_database = None, ri_sql = None\<rparr> \<in> {''a'', ''b''}"
  using failover_router_picks_configured
    [of "\<lparr>ri_endpoints = [\<lparr>ep_id = ''a'', ep_upstream = [], ep_password = None, ep_tls = None\<rparr>,
                       \<lparr>ep_id = ''b'', ep_upstream = [], ep_password = None, ep_tls = None\<rparr>],
      ri_user = ''u'', ri_database = None, ri_sql = None\<rparr>" 10
      "report_failure 9 ''a'' (report_failure 8 ''a'' (group_new [''a'', ''b'']))"]
  by simp

text \<open>
  Lemma. \<^verbatim>\<open>RwSplit\<close>: a statement the classifier calls a write, and every statement under
  \<^verbatim>\<open>PrimaryOnly\<close>, goes to the primary whatever its health; any other statement goes to the first
  configured non-primary endpoint that is alive, and to the primary exactly when there is none.
\<close>

theorem rw_split_routes:
  "rw_route_sql now s info sql =
     (if rw_classifier s sql \<and> rw_preference s = ReplicaFirst \<and>
         (\<exists>e. e \<in> set (ri_endpoints info) \<and> ep_id e \<noteq> rw_primary s \<and> is_alive now (rw_group s) (ep_id e))
      then the (select_first_alive now (rw_group s)
             (info\<lparr>ri_endpoints := filter (\<lambda>e. ep_id e \<noteq> rw_primary s) (ri_endpoints info)\<rparr>))
      else rw_primary s)"
proof -
  have find_filter: "List.find Q (filter P es) = List.find (\<lambda>e. P e \<and> Q e) es"
    for P Q and es :: "endpoint_config list"
    by (induction es) auto
  have pref: "rw_preference s = PrimaryOnly \<or> rw_preference s = ReplicaFirst"
    by (cases "rw_preference s") auto
  show ?thesis
    using pref
    by (auto simp: rw_route_sql_def Let_def select_first_alive_def find_filter find_None_all
        split: option.splits dest: find_Some_in_set)
qed

section \<open>The read classifier\<close>

lemma strip_comments_no_comment:
  "strip_prefix ''--'' (strip_comments s) = None \<and> strip_prefix ''/*'' (strip_comments s) = None"
proof (induction s rule: strip_comments.induct)
  case (1 s)
  show ?case
  proof (cases "strip_prefix ''--'' s")
    case (Some rest)
    with 1(2) [OF Some] show ?thesis by (simp add: strip_comments.simps [of s])
  next
    case None
    note n = None
    show ?thesis
    proof (cases "strip_prefix ''/*'' s")
      case (Some rest)
      with n 1(1) [OF n Some] show ?thesis by (simp add: strip_comments.simps [of s])
    next
      case None
      with n show ?thesis by (simp add: strip_comments.simps [of s])
    qed
  qed
qed

lemma strip_comments_suffix: "\<exists>pre. s = pre @ strip_comments s"
proof (induction s rule: strip_comments.induct)
  case (1 s)
  have rest_suffix: "\<exists>pre. rest = pre @ (case split_once pat rest of Some (_, r) \<Rightarrow> r | None \<Rightarrow> [])"
    for pat rest :: string
    by (auto split: option.splits dest: split_once_append)
  have chain: "\<exists>pre. s = pre @ strip_comments r"
    if "s = c @ rest" and "\<exists>pre. rest = pre @ r" and "\<exists>pre. r = pre @ strip_comments r"
    for c rest r :: string
    using that by (metis append.assoc)
  show ?case
  proof (cases "strip_prefix ''--'' s")
    case (Some rest)
    then have "s = ''--'' @ rest" by (simp add: strip_prefix_append)
    from chain [OF this rest_suffix 1(2) [OF Some]] Some show ?thesis
      by (simp add: strip_comments.simps [of s])
  next
    case None
    note n = None
    show ?thesis
    proof (cases "strip_prefix ''/*'' s")
      case (Some rest)
      then have "s = ''/*'' @ rest" by (simp add: strip_prefix_append)
      from chain [OF this rest_suffix 1(1) [OF n Some]] n Some show ?thesis
        by (simp add: strip_comments.simps [of s])
    next
      case None
      with n show ?thesis by (simp add: strip_comments.simps [of s])
    qed
  qed
qed

text \<open>
  Lemma. Stripping comments ends on every input (unterminated comments included); what is left
  is a suffix of the statement that does not begin with a comment.
\<close>

theorem strip_comments_spec:
  "(\<exists>pre. s = pre @ strip_comments s) \<and>
   strip_prefix ''--'' (strip_comments s) = None \<and> strip_prefix ''/*'' (strip_comments s) = None \<and>
   strip_comments (strip_comments s) = strip_comments s"
  using strip_comments_suffix [of s] strip_comments_no_comment [of s]
  by (simp add: strip_comments.simps [of "strip_comments s"])

lemma split_on_first_word:
  "\<not> p c \<Longrightarrow> \<exists>w ws. split_on p (c # cs) = (c # w) # ws"
  by (auto split: list.splits)

text \<open>
  Lemma. The classifier skips whitespace only before the first comment: a read whose leading
  comments are separated by a blank is classified as a write, whatever statement follows.
\<close>

theorem separated_comments_are_writes:
  assumes "split_once ''*/'' body = Some (a, '' /*'' @ rest)"
  shows "\<not> default_is_read (''/*'' @ body)"
proof -
  have strip: "strip_comments (''/*'' @ body) = '' /*'' @ rest"
    using assms by (simp add: strip_comments.simps)
  have trim: "trim_start (''/*'' @ body) = ''/*'' @ body"
    by (simp add: trim_start_def is_ws_def)
  let ?p = "\<lambda>c. is_ws c \<or> c = CHR ''(''"
  obtain w ws where w: "split_on ?p (''/*'' @ rest) = (CHR ''/'' # w) # ws"
    using split_on_first_word [of ?p "CHR ''/''" "''*'' @ rest"] by (auto simp: is_ws_def)
  have "split_on ?p ('' /*'' @ rest) = [] # split_on ?p (''/*'' @ rest)"
    by (simp add: is_ws_def)
  with w have "List.find (\<lambda>x. x \<noteq> []) (split_on ?p ('' /*'' @ rest)) = Some (CHR ''/'' # w)"
    by simp
  moreover have "ascii_upper CHR ''/'' = CHR ''/''" by (simp add: ascii_upper_def)
  ultimately show ?thesis
    by (simp only: default_is_read_def Let_def trim strip option.case list.map) simp
qed

theorem separated_comments_are_writes_witness:
  "\<not> default_is_read ''/* a */ /* b */ SELECT 1'' \<and> default_is_read ''/* b */ SELECT 1''"
proof -
  have "split_once ''*/'' '' a */ /* b */ SELECT 1'' = Some ('' a '', '' /*'' @ '' b */ SELECT 1'')"
    by simp
  then have "\<not> default_is_read (''/*'' @ '' a */ /* b */ SELECT 1'')"
    by (rule separated_comments_are_writes)
  moreover have "default_is_read ''/* b */ SELECT 1''" by code_simp
  ultimately show ?thesis by simp
qed

end
