(* ===== verification/Intercept.thy ===== *)
theory Intercept
  imports Rows Routing
begin

text \<open>
  The interceptor API (src/crates/pgferry/src/intercept.rs) and the per-session state the pump keeps
  for it (\<^verbatim>\<open>SessionHooks\<close> and \<^verbatim>\<open>CycleTracking\<close> of src/crates/pgferry/src/session.rs). A user's gateway is
  a value of type \<open>'c interceptor\<close>: the hooks of the trait as functions that thread the per-session
  context \<open>'c\<close>. State a gateway shares between sessions is part of \<open>'c\<close> as one session sees it.
\<close>

section \<open>Actions and scatter requests\<close>

datatype merge_policy = Concat | Sum

record scatter_leg =
  leg_endpoint :: endpoint_id
  leg_sql :: string

record scatter_request =
  sr_legs :: "scatter_leg list"
  sr_merge :: merge_policy
  sr_tag :: string

datatype action =
    Forward
  | Reply "backend_msg list"
  | Deny error_info
  | Scatter scatter_request
  | Close

datatype row_action = Keep | Drop

section \<open>Query cycles\<close>

datatype cycle_kind = Simple | Extended "string option"

record query_cycle =
  qc_sql :: string
  qc_kind :: cycle_kind
  qc_rewritten :: bool

definition query_cycle_new :: "string \<Rightarrow> cycle_kind \<Rightarrow> query_cycle" where
  "query_cycle_new sql kind = \<lparr>qc_sql = sql, qc_kind = kind, qc_rewritten = False\<rparr>"

definition set_sql :: "string \<Rightarrow> query_cycle \<Rightarrow> query_cycle" where
  "set_sql sql q = q\<lparr>qc_sql := sql, qc_rewritten := True\<rparr>"

definition take_rewritten :: "query_cycle \<Rightarrow> string option \<times> query_cycle" where
  "take_rewritten q =
     (if qc_rewritten q then (Some (qc_sql q), q\<lparr>qc_rewritten := False, qc_sql := []\<rparr>) else (None, q))"

record cycle_error =
  ce_code :: string
  ce_message :: string

definition cycle_error_from_info :: "error_info \<Rightarrow> cycle_error" where
  "cycle_error_from_info i = \<lparr>ce_code = code i, ce_message = message i\<rparr>"

definition to_error_response :: "err_codec \<Rightarrow> cycle_error \<Rightarrow> backend_msg" where
  "to_error_response cod e =
     BErrorResponse (err_into cod (error_info_new ''ERROR'' (ce_code e) (ce_message e)))"

record cycle_report =
  rep_sql :: "string option"
  rep_kind :: cycle_kind
  rep_tag :: "string option"
  rep_rows :: u64
  rep_rows_dropped :: u64
  rep_error :: "cycle_error option"
  rep_latency :: duration

section \<open>The trait\<close>

record 'c interceptor =
  hook_on_query :: "'c \<Rightarrow> query_cycle \<Rightarrow> action \<times> query_cycle \<times> 'c"
  hook_on_frontend :: "'c \<Rightarrow> frontend_msg \<Rightarrow> action \<times> frontend_msg \<times> 'c"
  hook_on_backend :: "'c \<Rightarrow> backend_msg \<Rightarrow> action \<times> backend_msg \<times> 'c"
  hook_on_row :: "'c \<Rightarrow> row_schema \<Rightarrow> data_row_mut \<Rightarrow> row_action \<times> data_row_mut \<times> 'c"
  hook_wants_rows :: bool
  hook_adjust_command_counts :: bool
  hook_on_cycle_end :: "'c \<Rightarrow> cycle_report \<Rightarrow> 'c"
  hook_upstream :: "'c \<Rightarrow> routing_info \<Rightarrow> endpoint_id \<times> 'c"
  hook_on_upstream_error :: "'c \<Rightarrow> upstream_error \<Rightarrow> retry_decision \<times> 'c"
  hook_on_upstream_connected :: "'c \<Rightarrow> endpoint_id \<Rightarrow> 'c"
  hook_new_ctx :: 'c

text \<open>The default hooks of the trait, which \<^verbatim>\<open>NoopInterceptor\<close> inherits unchanged.\<close>

definition default_hooks :: "'c \<Rightarrow> 'c interceptor" where
  "default_hooks ctx =
     \<lparr>hook_on_query = (\<lambda>c q. (Forward, q, c)),
      hook_on_frontend = (\<lambda>c m. (Forward, m, c)),
      hook_on_backend = (\<lambda>c m. (Forward, m, c)),
      hook_on_row = (\<lambda>c s r. (Keep, r, c)),
      hook_wants_rows = False,
      hook_adjust_command_counts = False,
      hook_on_cycle_end = (\<lambda>c r. c),
      hook_upstream = (\<lambda>c info. (default_endpoint info, c)),
      hook_on_upstream_error = (\<lambda>c e. (Relink, c)),
      hook_on_upstream_connected = (\<lambda>c e. c),
      hook_new_ctx = ctx\<rparr>"

definition noop_interceptor :: "unit interceptor" where
  "noop_interceptor = default_hooks ()"

text \<open>
  \<^verbatim>\<open>FailoverRouter\<close> as an interceptor. Its hooks take the mutex of the health group and read the clock each time
  they run: \<open>clock n\<close> is the instant of the n-th call that looks at it, \<open>fo_reads\<close> the number of such calls so far. The
  group is shared by all sessions of a proxy; \<open>fo_group\<close> is the group as the hooks of one session find it.
\<close>

record failover_ctx =
  fo_group :: endpoint_group
  fo_reads :: nat

definition failover_router :: "(nat \<Rightarrow> instant) \<Rightarrow> endpoint_group \<Rightarrow> failover_ctx interceptor" where
  "failover_router clock g =
     (default_hooks \<lparr>fo_group = g, fo_reads = 0\<rparr>)\<lparr>
       hook_upstream := (\<lambda>c info. (failover_upstream (clock (fo_reads c)) (fo_group c) info, c\<lparr>fo_reads := Suc (fo_reads c)\<rparr>)),
       hook_on_upstream_error := (\<lambda>c e.
         let (d, g) = failover_on_upstream_error (clock (fo_reads c)) (fo_group c) e
         in (d, c\<lparr>fo_group := g, fo_reads := Suc (fo_reads c)\<rparr>)),
       hook_on_upstream_connected := (\<lambda>c e. c\<lparr>fo_group := failover_on_upstream_connected (fo_group c) e\<rparr>)\<rparr>"

section \<open>Cycle telemetry\<close>

record cycle_tracking =
  ct_active :: bool
  ct_sql :: "string option"
  ct_kind :: cycle_kind
  ct_started :: instant
  ct_tag :: "string option"
  ct_rows :: u64
  ct_dropped_pending :: u64
  ct_dropped_total :: u64
  ct_error :: "cycle_error option"

definition cycle_default :: "instant \<Rightarrow> cycle_tracking" where
  "cycle_default now =
     \<lparr>ct_active = False, ct_sql = None, ct_kind = Simple, ct_started = now, ct_tag = None, ct_rows = 0,
      ct_dropped_pending = 0, ct_dropped_total = 0, ct_error = None\<rparr>"

definition cycle_start :: "instant \<Rightarrow> string option \<Rightarrow> cycle_kind \<Rightarrow> cycle_tracking \<Rightarrow> cycle_tracking" where
  "cycle_start now sql kind ct =
     ct\<lparr>ct_active := True, ct_sql := sql, ct_kind := kind, ct_started := now, ct_tag := None, ct_rows := 0,
        ct_dropped_pending := 0, ct_dropped_total := 0, ct_error := None\<rparr>"

definition cycle_finish :: "instant \<Rightarrow> cycle_tracking \<Rightarrow> cycle_report \<times> cycle_tracking" where
  "cycle_finish now ct =
     (\<lparr>rep_sql = ct_sql ct, rep_kind = ct_kind ct, rep_tag = ct_tag ct, rep_rows = ct_rows ct,
       rep_rows_dropped = ct_dropped_total ct, rep_error = ct_error ct,
       rep_latency = elapsed now (ct_started ct)\<rparr>,
      ct\<lparr>ct_sql := None, ct_kind := Simple, ct_tag := None, ct_error := None, ct_active := False\<rparr>)"

record 'c session_hooks =
  sh_interceptor :: "'c interceptor"
  sh_ctx :: 'c
  sh_wants_rows :: bool
  sh_adjust_counts :: bool
  sh_schema :: row_schema
  sh_cycle :: cycle_tracking

definition session_hooks_new :: "instant \<Rightarrow> 'c interceptor \<Rightarrow> 'c session_hooks" where
  "session_hooks_new now i =
     \<lparr>sh_interceptor = i, sh_ctx = hook_new_ctx i, sh_wants_rows = hook_wants_rows i,
      sh_adjust_counts = hook_adjust_command_counts i, sh_schema = [], sh_cycle = cycle_default now\<rparr>"

text \<open>Finish the current cycle and hand its report to the \<^verbatim>\<open>on_cycle_end\<close> hook.\<close>

definition end_cycle :: "instant \<Rightarrow> 'c session_hooks \<Rightarrow> 'c session_hooks" where
  "end_cycle now h =
     (let (report, ct) = cycle_finish now (sh_cycle h)
      in h\<lparr>sh_cycle := ct, sh_ctx := hook_on_cycle_end (sh_interceptor h) (sh_ctx h) report\<rparr>)"

lemma cycle_finish_report:
  "rep_rows (fst (cycle_finish now ct)) = ct_rows ct"
  "rep_error (fst (cycle_finish now ct)) = ct_error ct"
  "rep_tag (fst (cycle_finish now ct)) = ct_tag ct"
  "rep_rows_dropped (fst (cycle_finish now ct)) = ct_dropped_total ct"
  by (simp_all add: cycle_finish_def)

lemma cycle_finish_inactive [simp]: "ct_active (snd (cycle_finish now ct)) = False"
  by (simp add: cycle_finish_def)

lemma take_rewritten_set_sql: "fst (take_rewritten (set_sql sql q)) = Some sql"
  by (simp add: take_rewritten_def set_sql_def)

end
