(* ===== verification/Session_State.thy ===== *)
theory Session_State
  imports Intercept
begin

text \<open>
  The session state layer and the pure helpers of src/crates/pgferry/src/session.rs: startup
  parameters, the named-statement registry, GUC overrides, and the functions that read SQL out of a
  message, write a rewritten SQL back, snapshot an error and adjust a command tag.

  The two hash maps (Rust's standard \<^verbatim>\<open>HashMap\<close>) are association lists: the list stands for the entries in the map's
  unspecified iteration order, which a replay goes through. \<open>al_insert\<close> and \<open>al_remove\<close> are the standard library's \<^verbatim>\<open>insert\<close> and
  \<^verbatim>\<open>remove\<close>; an insertion of a new key may place it anywhere in Rust, and the theorems do not depend on the position.
\<close>

section \<open>Startup parameters\<close>

record session_params =
  sp_user :: string
  sp_database :: "string option"
  sp_replication :: bool

definition from_startup :: "startup_msg \<Rightarrow> session_params" where
  "from_startup s =
     \<lparr>sp_user = (case startup_parameters s ''user'' of Some u \<Rightarrow> u | None \<Rightarrow> []),
      sp_database = startup_parameters s ''database'',
      sp_replication = (case startup_parameters s ''replication'' of
          Some v \<Rightarrow> v = ''1'' \<or> v = ''true'' \<or> v = ''database'' \<or> v = ''on''
        | None \<Rightarrow> False)\<rparr>"

section \<open>Association lists\<close>

fun al_insert :: "'k \<Rightarrow> 'v \<Rightarrow> ('k \<times> 'v) list \<Rightarrow> ('k \<times> 'v) list" where
  "al_insert k v [] = [(k, v)]"
| "al_insert k v ((k', v') # xs) = (if k = k' then (k, v) # xs else (k', v') # al_insert k v xs)"

definition al_remove :: "'k \<Rightarrow> ('k \<times> 'v) list \<Rightarrow> ('k \<times> 'v) list" where
  "al_remove k xs = filter (\<lambda>(k', v'). k' \<noteq> k) xs"

lemma map_of_al_insert [simp]: "map_of (al_insert k v xs) = (map_of xs)(k \<mapsto> v)"
  by (induction k v xs rule: al_insert.induct) auto

lemma map_of_al_remove [simp]: "map_of (al_remove k xs) = (map_of xs)(k := None)"
  by (induction xs) (auto simp: al_remove_def)

section \<open>The statement registry and GUC overrides\<close>

type_synonym statement_registry = "(string \<times> string \<times> u32 list) list"

type_synonym guc_overrides = "(string \<times> string) list"

definition record_parse :: "string \<Rightarrow> string \<Rightarrow> u32 list \<Rightarrow> statement_registry \<Rightarrow> statement_registry" where
  "record_parse name sql oids r = al_insert name (sql, oids) r"

definition registry_lookup :: "statement_registry \<Rightarrow> string \<Rightarrow> (string \<times> u32 list) option" where
  "registry_lookup r name = map_of r name"

definition record_close :: "string \<Rightarrow> statement_registry \<Rightarrow> statement_registry" where
  "record_close name r = al_remove name r"

text \<open>\<^verbatim>\<open>StatementRegistry::replay\<close>: feed a \<^verbatim>\<open>Parse\<close> per statement, \<^verbatim>\<open>Sync\<close>, then read to \<^verbatim>\<open>ReadyForQuery\<close>.\<close>

fun replay_feed :: "'s client_ops \<Rightarrow> statement_registry \<Rightarrow> 's conn \<Rightarrow> bool \<times> 's conn" where
  "replay_feed ops [] c = (True, c)"
| "replay_feed ops ((name, sql, oids) # r) c =
     (case conn_feed ops (FParse \<lparr>parse_name = Some name, parse_query = sql, parse_type_oids = oids\<rparr>) c of
        (None, c') \<Rightarrow> replay_feed ops r c'
      | (Some _, c') \<Rightarrow> (False, c'))"

fun replay_read :: "recv list \<Rightarrow> 's conn \<Rightarrow> (unit, unit) io \<times> 's conn" where
  "replay_read [] c = ((if at_eof c then Fail () else Blocked), c\<lparr>inbox := []\<rparr>)"
| "replay_read (RErr e # items) c = (Fail (), c\<lparr>inbox := items\<rparr>)"
| "replay_read (RMsg m # items) c =
     (case m of
        BReadyForQuery st \<Rightarrow> (Done (), (set_transaction_status st c)\<lparr>inbox := items\<rparr>)
      | BParameterStatus k v \<Rightarrow> replay_read items (set_server_parameter k v c)
      | BErrorResponse _ \<Rightarrow> (Fail (), c\<lparr>inbox := items\<rparr>)
      | _ \<Rightarrow> replay_read items c)"

definition registry_replay :: "'s client_ops \<Rightarrow> statement_registry \<Rightarrow> 's conn \<Rightarrow> (unit, unit) io \<times> 's conn" where
  "registry_replay ops r c =
     (if r = [] then (Done (), c)
      else (case replay_feed ops r c of
          (False, c1) \<Rightarrow> (Fail (), c1)
        | (True, c1) \<Rightarrow>
            (case conn_send ops FSync c1 of
               (Some _, c2) \<Rightarrow> (Fail (), c2)
             | (None, c2) \<Rightarrow> replay_read (inbox c2) c2)))"

section \<open>Message helpers\<close>

record cycle_input =
  ci_sql :: string
  ci_kind :: cycle_kind

fun cycle_input_of :: "frontend_msg \<Rightarrow> cycle_input option" where
  "cycle_input_of (FQuery q) = Some \<lparr>ci_sql = q, ci_kind = Simple\<rparr>"
| "cycle_input_of (FParse p) = Some \<lparr>ci_sql = parse_query p, ci_kind = Extended (parse_name p)\<rparr>"
| "cycle_input_of _ = None"

fun apply_rewrite :: "frontend_msg \<Rightarrow> string option \<Rightarrow> frontend_msg" where
  "apply_rewrite (FQuery q) (Some sql) = FQuery sql"
| "apply_rewrite (FParse p) (Some sql) = FParse (p\<lparr>parse_query := sql\<rparr>)"
| "apply_rewrite m _ = m"

fun bind_statement_sql :: "frontend_msg \<Rightarrow> statement_registry \<Rightarrow> string option" where
  "bind_statement_sql (FBind st p) r =
     (let name = (case st of Some n \<Rightarrow> n | None \<Rightarrow> [])
      in if name \<noteq> [] then map_option fst (registry_lookup r name) else None)"
| "bind_statement_sql _ r = None"

fun cycle_sql_of :: "frontend_msg \<Rightarrow> string option" where
  "cycle_sql_of (FQuery q) = Some q"
| "cycle_sql_of (FParse p) = Some (parse_query p)"
| "cycle_sql_of _ = None"

fun cycle_error_fields :: "err_fields \<Rightarrow> cycle_error \<Rightarrow> cycle_error" where
  "cycle_error_fields [] e = e"
| "cycle_error_fields ((k, v) # fs) e =
     cycle_error_fields fs (if k = CHR ''C'' then e\<lparr>ce_code := v\<rparr>
                            else if k = CHR ''M'' then e\<lparr>ce_message := v\<rparr> else e)"

definition cycle_error_of :: "err_fields \<Rightarrow> cycle_error" where
  "cycle_error_of fs = cycle_error_fields fs \<lparr>ce_code = [], ce_message = []\<rparr>"

text \<open>A count that does not fit 64 bits fails to parse and is taken as 0, as \<^verbatim>\<open>unwrap_or(0)\<close> does.\<close>

definition adjust_tag :: "string \<Rightarrow> u64 \<Rightarrow> string" where
  "adjust_tag tag dropped =
     (case rsplit_once_char (CHR '' '') tag of
        Some (head, count) \<Rightarrow>
          if count \<noteq> [] \<and> list_all is_ascii_digit count
          then (let n = (if digits_val count < 2 ^ 64 then digits_val count else 0)
                in head @ '' '' @ show_nat (n - unat dropped))
          else tag
      | None \<Rightarrow> tag)"

section \<open>Replay\<close>

definition parse_of :: "string \<times> string \<times> u32 list \<Rightarrow> frontend_msg" where
  "parse_of st = FParse \<lparr>parse_name = Some (fst st), parse_query = fst (snd st), parse_type_oids = snd (snd st)\<rparr>"

text \<open>A transport that records what it is given: what the connection has been sent, oldest first.\<close>

definition logs :: "'s client_ops \<Rightarrow> ('s \<Rightarrow> frontend_msg list) \<Rightarrow> bool" where
  "logs ops log \<longleftrightarrow>
     (\<forall>w m w' items. (op_feed ops w m = Inr (w', items) \<or> op_send ops w m = Inr (w', items)) \<longrightarrow> log w' = log w @ [m])"

lemma logs_feed:
  assumes "logs ops log" "conn_feed ops m c = (None, c')"
  shows "log (wire c') = log (wire c) @ [m]"
proof -
  obtain w items where "op_feed ops (wire c) m = Inr (w, items)" "c' = c\<lparr>wire := w, inbox := inbox c @ items\<rparr>"
    using assms(2) by (auto simp: conn_feed_def split: sum.splits)
  with assms(1) show ?thesis unfolding logs_def by auto
qed

lemma logs_send:
  assumes "logs ops log" "conn_send ops m c = (None, c')"
  shows "log (wire c') = log (wire c) @ [m]"
proof -
  obtain w items where "op_send ops (wire c) m = Inr (w, items)" "c' = c\<lparr>wire := w, inbox := inbox c @ items\<rparr>"
    using assms(2) by (auto simp: conn_send_def split: sum.splits)
  with assms(1) show ?thesis unfolding logs_def by auto
qed

lemma replay_feed_log:
  "logs ops log \<Longrightarrow> replay_feed ops r c = (True, c') \<Longrightarrow> log (wire c') = log (wire c) @ map parse_of r"
proof (induction ops r c rule: replay_feed.induct)
  case (2 ops name sql oids r c)
  obtain f c1 where f: "conn_feed ops (parse_of (name, sql, oids)) c = (f, c1)" by fastforce
  with 2(3) have n: "f = None" and rest: "replay_feed ops r c1 = (True, c')"
    by (auto simp: parse_of_def split: option.splits)
  have "log (wire c') = log (wire c1) @ map parse_of r"
    using 2(1) [OF _ n 2(2) rest] f by (auto simp: parse_of_def)
  with logs_feed [OF 2(2)] f n show ?case by simp
qed simp

lemma replay_read_wire: "replay_read items c = (Done (), c') \<Longrightarrow> wire c' = wire c"
proof (induction items c rule: replay_read.induct)
  case (3 m items c)
  then show ?case by (cases m) (auto simp: set_transaction_status_def set_server_parameter_def)
qed (auto split: if_splits)

fun no_error_item :: "recv \<Rightarrow> bool" where
  "no_error_item (RErr e) = False"
| "no_error_item (RMsg (BErrorResponse f)) = False"
| "no_error_item (RMsg m) = True"

text \<open>What a replay reads over: anything but an error and a \<^verbatim>\<open>ReadyForQuery\<close>.\<close>

fun reads_over :: "recv \<Rightarrow> bool" where
  "reads_over (RMsg (BReadyForQuery st)) = False"
| "reads_over i = no_error_item i"

definition replay_verdict :: "bool \<Rightarrow> recv list \<Rightarrow> (unit, unit) io" where
  "replay_verdict eof items =
     (case dropWhile reads_over items of
        [] \<Rightarrow> if eof then Fail () else Blocked
      | RMsg (BReadyForQuery st) # rest \<Rightarrow> Done ()
      | _ \<Rightarrow> Fail ())"

lemma replay_verdict_simps [simp]:
  "replay_verdict eof [] = (if eof then Fail () else Blocked)"
  "reads_over i \<Longrightarrow> replay_verdict eof (i # items) = replay_verdict eof items"
  by (simp_all add: replay_verdict_def)

lemma replay_read_over:
  "reads_over i \<Longrightarrow> \<exists>c1. replay_read (i # items) c = replay_read items c1 \<and> wire c1 = wire c \<and> at_eof c1 = at_eof c"
proof (cases i)
  case (RMsg m)
  assume "reads_over i"
  with RMsg show ?thesis by (cases m) (auto simp: set_server_parameter_def)
qed simp

lemma replay_read_outcome:
  "\<exists>c'. replay_read items c = (replay_verdict (at_eof c) items, c') \<and> wire c' = wire c \<and> inbox c' = tl (dropWhile reads_over items)"
proof (induction items arbitrary: c)
  case (Cons i items)
  show ?case
  proof (cases "reads_over i")
    case True
    then obtain c1 where c1: "replay_read (i # items) c = replay_read items c1" "wire c1 = wire c" "at_eof c1 = at_eof c"
      using replay_read_over by blast
    from Cons.IH [of c1] c1 True show ?thesis by simp
  next
    case False
    show ?thesis
    proof (cases i)
      case (RMsg m)
      with False show ?thesis by (cases m) (auto simp: set_transaction_status_def replay_verdict_def)
    qed (use False in \<open>simp add: replay_verdict_def\<close>)
  qed
qed simp

text \<open>
  Property C26. What a replay does, on every branch. An empty registry sends nothing and succeeds. Otherwise one Parse per registered
  statement, with its SQL and parameter types, is fed, then a Sync is sent; a write that fails makes the replay fail. With all of
  them written, it reads past everything but an error and a ReadyForQuery: at a ReadyForQuery it succeeds with the rest left unread, at an error -
  the server's or the connection's - or the end of the stream it fails, and otherwise it waits.
\<close>

theorem replay_prepares_registry:
  assumes "logs ops log" "replay_feed ops r c = (ok, c1)" "conn_send ops FSync c1 = (e, c2)"
  shows "(r = [] \<longrightarrow> registry_replay ops r c = (Done (), c)) \<and>
    (r \<noteq> [] \<and> \<not> (ok \<and> e = None) \<longrightarrow> fst (registry_replay ops r c) = Fail ()) \<and>
    (r \<noteq> [] \<and> ok \<and> e = None \<longrightarrow>
       (\<exists>c'. registry_replay ops r c = (replay_verdict (at_eof c2) (inbox c2), c') \<and>
          log (wire c') = log (wire c) @ map parse_of r @ [FSync] \<and> inbox c' = tl (dropWhile reads_over (inbox c2))))"
proof (intro conjI impI)
  assume "r \<noteq> [] \<and> \<not> (ok \<and> e = None)"
  with assms(2,3) show "fst (registry_replay ops r c) = Fail ()"
    by (cases ok) (auto simp: registry_replay_def split: option.splits)
next
  assume sent: "r \<noteq> [] \<and> ok \<and> e = None"
  obtain c' where c': "replay_read (inbox c2) c2 = (replay_verdict (at_eof c2) (inbox c2), c')" "wire c' = wire c2" "inbox c' = tl (dropWhile reads_over (inbox c2))"
    using replay_read_outcome [of "inbox c2" c2] by blast
  have "log (wire c2) = log (wire c) @ map parse_of r @ [FSync]"
    using replay_feed_log [OF assms(1), of r c c1] logs_send [OF assms(1), of FSync c1 c2] sent assms(2,3) by simp
  with c' sent assms(2,3) show "\<exists>c'. registry_replay ops r c = (replay_verdict (at_eof c2) (inbox c2), c') \<and>
          log (wire c') = log (wire c) @ map parse_of r @ [FSync] \<and> inbox c' = tl (dropWhile reads_over (inbox c2))"
    by (intro exI [of _ c']) (simp add: registry_replay_def)
qed (simp add: registry_replay_def)

text \<open>A transport that answers each Sync, on which the theorem is exercised.\<close>

definition log_ops :: "frontend_msg list client_ops" where
  "log_ops = \<lparr>op_send = (\<lambda>w m. Inr (w @ [m], if m = FSync then [RMsg BParseComplete, RMsg (BReadyForQuery Idle)] else [])),
     op_feed = (\<lambda>w m. Inr (w @ [m], [])), op_cancel = (\<lambda>w. (w, [])),
     op_simple_query = (\<lambda>c q. (Done (), c\<lparr>wire := wire c @ [FQuery q]\<rparr>)), op_show_error = (\<lambda>e. []), op_window = (\<lambda>c. Suc (length (inbox c)))\<rparr>"

definition log_conn :: "frontend_msg list conn" where
  "log_conn = \<lparr>wire = [], inbox = [], at_eof = False, process_id = 7, server_parameters = Map.empty, transaction_status = Idle\<rparr>"

lemma log_ops_logs: "logs log_ops (\<lambda>w. w)"
  by (auto simp: logs_def log_ops_def)

text \<open>The same, except that the server refuses the statements.\<close>

definition refusing_ops :: "frontend_msg list client_ops" where
  "refusing_ops = log_ops\<lparr>op_send := (\<lambda>w m. Inr (w @ [m], [RMsg (BErrorResponse []), RMsg (BReadyForQuery Idle)]))\<rparr>"

theorem replay_prepares_registry_witness:
  "(\<exists>c'. registry_replay log_ops [(''s1'', ''SELECT 1'', [23])] log_conn = (Done (), c') \<and>
      wire c' = [parse_of (''s1'', ''SELECT 1'', [23]), FSync]) \<and>
   (\<exists>c'. registry_replay refusing_ops [(''s1'', ''SELECT 1'', [23])] log_conn = (Fail (), c'))"
proof
  let ?r = "[(''s1'', ''SELECT 1'', [23])]"
  have logs: "logs refusing_ops (\<lambda>w. w)" by (auto simp: logs_def refusing_ops_def log_ops_def)
  have fed: "replay_feed ops ?r log_conn = (True, log_conn\<lparr>wire := [parse_of (''s1'', ''SELECT 1'', [23])]\<rparr>)"
    if "ops = log_ops \<or> ops = refusing_ops" for ops
    using that by (auto simp: refusing_ops_def log_ops_def log_conn_def conn_feed_def parse_of_def)
  show "\<exists>c'. registry_replay log_ops ?r log_conn = (Done (), c') \<and> wire c' = [parse_of (''s1'', ''SELECT 1'', [23]), FSync]"
    using replay_prepares_registry [OF log_ops_logs fed [OF disjI1 [OF refl]] prod.collapse [symmetric]]
    by (auto simp: log_ops_def log_conn_def conn_send_def replay_verdict_def)
  show "\<exists>c'. registry_replay refusing_ops ?r log_conn = (Fail (), c')"
    using replay_prepares_registry [OF logs fed [OF disjI2 [OF refl]] prod.collapse [symmetric]]
    by (auto simp: refusing_ops_def log_conn_def conn_send_def replay_verdict_def)
qed

section \<open>Command tags\<close>

lemma takeWhile_no_sep: "c \<notin> set xs \<Longrightarrow> takeWhile (\<lambda>x. x \<noteq> c) (xs @ c # ys) = xs"
  by (induction xs) auto

lemma dropWhile_no_sep: "c \<notin> set xs \<Longrightarrow> dropWhile (\<lambda>x. x \<noteq> c) (xs @ c # ys) = c # ys"
  by (induction xs) auto

lemma rsplit_once_char_last:
  assumes "c \<notin> set b"
  shows "rsplit_once_char c (a @ c # b) = Some (a, b)"
proof -
  have "c \<notin> set (rev b)" using assms by simp
  then show ?thesis
    by (simp add: rsplit_once_char_def takeWhile_no_sep dropWhile_no_sep)
qed

lemma show_nat_no_space: "CHR '' '' \<notin> set (show_nat n)"
  using show_nat_digits [of n] by (auto simp: list_all_iff is_ascii_digit_def)

text \<open>
  Lemma. The row count of a command tag is adjusted by exactly the rows dropped, never below zero,
  with the rest of the tag kept; a tag whose last word is not a count is left as it is.
\<close>

theorem adjust_tag_spec:
  "(n < 2 ^ 64 \<longrightarrow> adjust_tag (head @ '' '' @ show_nat n) dropped = head @ '' '' @ show_nat (n - unat dropped)) \<and>
   (CHR '' '' \<notin> set word \<and> (word = [] \<or> \<not> list_all is_ascii_digit word) \<longrightarrow>
      adjust_tag (head @ '' '' @ word) dropped = head @ '' '' @ word) \<and>
   (CHR '' '' \<notin> set word \<longrightarrow> adjust_tag word dropped = word)"
proof -
  have "adjust_tag (head @ '' '' @ show_nat n) dropped = head @ '' '' @ show_nat (n - unat dropped)" if "n < 2 ^ 64"
    using that rsplit_once_char_last [OF show_nat_no_space [of n], of head] show_nat_digits [of n]
    by (simp add: adjust_tag_def)
  moreover have "adjust_tag (head @ '' '' @ word) dropped = head @ '' '' @ word"
    if "CHR '' '' \<notin> set word" "word = [] \<or> \<not> list_all is_ascii_digit word"
    using that(2) rsplit_once_char_last [OF that(1), of head] by (auto simp: adjust_tag_def)
  moreover have "adjust_tag word dropped = word" if "CHR '' '' \<notin> set word"
    using that by (simp add: adjust_tag_def rsplit_once_char_def)
  ultimately show ?thesis by blast
qed

theorem adjust_tag_spec_witness: "adjust_tag (''SELECT'' @ '' '' @ show_nat 5) 2 = ''SELECT'' @ '' '' @ show_nat 3"
  using adjust_tag_spec [of 5 "''SELECT''" 2] by simp

end
