(* ===== verification/Attach.thy ===== *)
theory Attach
  imports Pool Session_State
begin

text \<open>
  Attaching a session to an upstream connection (src/crates/pgferry/src/session.rs): the routing hook
  picks an endpoint, the endpoint's pool is resolved, a connection is checked out and brought to the
  session's state, and failures go through the error policy. Also the transaction-mode startup probe,
  the detach, and the answer to a lost connection.

  \<open>env\<close> holds what does not change during a session, \<open>world\<close> the shared pool registry and the number
  of clock readings so far. The session sees the pools as they are when it runs; other sessions change
  them between its operations (theory \<open>Pool_System\<close>). \<open>Stuck\<close> is the outcome of awaiting something
  that never resolves and has no timeout.

  The per-session cache of connect factories is not a component of the state: \<open>make_factory_for\<close> is a
  function of the endpoint and the session, so a cached factory is the one that would be built.
\<close>

section \<open>Environment and session state\<close>

record 's env =
  e_ops :: "'s client_ops"
  e_clock :: clock
  e_connect :: "'s connector"
  e_codec :: err_codec
  e_route :: route_config
  e_pool_config :: pool_config

record 's world =
  w_pools :: "'s pool_manager"
  w_tick :: nat

text \<open>A lease knows its pool; here by the pool's key.\<close>

record 's held =
  h_lease :: "'s lease"
  h_key :: pool_key

definition h_conn :: "'s held \<Rightarrow> 's conn" where
  "h_conn h = l_conn (h_lease h)"

definition set_h_conn :: "'s conn \<Rightarrow> 's held \<Rightarrow> 's held" where
  "set_h_conn c h = h\<lparr>h_lease := (h_lease h)\<lparr>l_conn := c\<rparr>\<rparr>"

definition pool_apply :: "pool_key \<Rightarrow> (nat \<Rightarrow> 's pool \<Rightarrow> nat \<times> 's pool) \<Rightarrow> 's world \<Rightarrow> 's world" where
  "pool_apply key f w =
     (case w_pools w key of
        None \<Rightarrow> w
      | Some p \<Rightarrow> (let (t, p') = f (w_tick w) p in w\<lparr>w_pools := (w_pools w)(key \<mapsto> p'), w_tick := t\<rparr>))"

definition lease_destroy :: "'s held \<Rightarrow> 's world \<Rightarrow> 's world" where
  "lease_destroy h = pool_apply (h_key h) (\<lambda>t p. (t, destroy (h_lease h) p))"

definition lease_checkin :: "'s env \<Rightarrow> hygiene \<Rightarrow> 's held \<Rightarrow> 's world \<Rightarrow> 's world" where
  "lease_checkin env hyg h =
     pool_apply (h_key h) (\<lambda>t p. checkin (e_ops env) (e_clock env) hyg (h_lease h) t p)"

definition lease_checkin_detached :: "'s env \<Rightarrow> bool \<Rightarrow> 's held \<Rightarrow> 's world \<Rightarrow> 's world" where
  "lease_checkin_detached env dirty h =
     pool_apply (h_key h) (\<lambda>t p. checkin_detached (e_ops env) (e_clock env) dirty (h_lease h) t p)"

record ('s, 'c) attach_state =
  a_world :: "'s world"
  a_ds :: downstream
  a_hooks :: "'c session_hooks option"
  a_lease :: "'s held option"
  a_dirty :: bool
  a_endpoint :: "endpoint_id option"

datatype attach_result = Attached | Refused | Stuck

section \<open>Routing dispatch\<close>

definition make_factory_for :: "endpoint_config \<Rightarrow> route_config \<Rightarrow> session_params \<Rightarrow> connect_args" where
  "make_factory_for ep route params =
     \<lparr>ca_connstring = ep_upstream ep, ca_user = sp_user params, ca_database = sp_database params,
      ca_password = (case ep_password ep of Some pw \<Rightarrow> Some pw | None \<Rightarrow> route_password route),
      ca_tls = (case ep_tls ep of Some t \<Rightarrow> t | None \<Rightarrow> route_tls route)\<rparr>"

definition pool_key_for :: "route_config \<Rightarrow> session_params \<Rightarrow> endpoint_config \<Rightarrow> pool_key" where
  "pool_key_for route params ep =
     \<lparr>key_route = route_name route, key_endpoint = ep_id ep, key_user = sp_user params, key_database = sp_database params\<rparr>"

definition resolve_pool :: "'s env \<Rightarrow> session_params \<Rightarrow> endpoint_config \<Rightarrow> 's world \<Rightarrow> pool_key \<times> 's pool \<times> 's world" where
  "resolve_pool env params ep w =
     (let key = pool_key_for (e_route env) params ep;
          (p, ps) = get_or_create key (e_pool_config env) (make_factory_for ep (e_route env) params) (w_pools w)
      in (key, p, w\<lparr>w_pools := ps\<rparr>))"

definition dispatch_upstream ::
    "'s env \<Rightarrow> session_params \<Rightarrow> string option \<Rightarrow> 'c session_hooks option \<Rightarrow> endpoint_id \<times> 'c session_hooks option" where
  "dispatch_upstream env params sql hooks =
     (let info = \<lparr>ri_endpoints = route_endpoints (e_route env), ri_user = sp_user params,
                  ri_database = sp_database params, ri_sql = sql\<rparr>
      in case hooks of
           Some h \<Rightarrow> (let (i, ctx) = hook_upstream (sh_interceptor h) (sh_ctx h) info in (i, Some (h\<lparr>sh_ctx := ctx\<rparr>)))
         | None \<Rightarrow> (default_endpoint info, None))"

definition dispatch_on_upstream_error ::
    "upstream_error \<Rightarrow> 'c session_hooks option \<Rightarrow> retry_decision \<times> 'c session_hooks option" where
  "dispatch_on_upstream_error e hooks =
     (case hooks of
        Some h \<Rightarrow> (let (d, ctx) = hook_on_upstream_error (sh_interceptor h) (sh_ctx h) e in (d, Some (h\<lparr>sh_ctx := ctx\<rparr>)))
      | None \<Rightarrow> (Relink, None))"

definition dispatch_on_upstream_connected :: "endpoint_id \<Rightarrow> 'c session_hooks option \<Rightarrow> 'c session_hooks option" where
  "dispatch_on_upstream_connected i hooks =
     (case hooks of
        Some h \<Rightarrow> Some (h\<lparr>sh_ctx := hook_on_upstream_connected (sh_interceptor h) (sh_ctx h) i\<rparr>)
      | None \<Rightarrow> None)"

definition send_attach_fatal :: "err_codec \<Rightarrow> string \<Rightarrow> downstream \<Rightarrow> downstream" where
  "send_attach_fatal cod msg d =
     snd (ds_send (BErrorResponse (err_into cod (error_info_new ''FATAL'' ''08006'' msg))) d)"

section \<open>Bringing a connection to the session's state\<close>

text \<open>
  The outcome of preparing a checked-out connection: ready (with the dirty flag), failed (with the
  error policy's message and the client's), or suspended.
\<close>

datatype 's prepared =
    Ready "'s conn" bool
  | Unready "'s conn" bool string string
  | Hung

fun replay_gucs :: "'s client_ops \<Rightarrow> guc_overrides \<Rightarrow> 's conn \<Rightarrow> bool \<Rightarrow> 's prepared" where
  "replay_gucs ops [] c dirty = Ready c dirty"
| "replay_gucs ops ((name, value) # gucs) c dirty =
     (let current = (case server_parameters c name of Some v \<Rightarrow> v | None \<Rightarrow> [])
      in if current \<noteq> value
         then (let escaped = replace_char (CHR 0x27) [CHR 0x27, CHR 0x27] value
               in case op_simple_query ops c (''SET '' @ name @ '' = '' @ [CHR 0x27] @ escaped @ [CHR 0x27]) of
                    (Done _, c1) \<Rightarrow> replay_gucs ops gucs c1 True
                  | (Fail _, c1) \<Rightarrow> Unready c1 dirty (''GUC replay: SET '' @ name)
                                      (''pgferry: failed to replay session state: SET '' @ name)
                  | (Blocked, c1) \<Rightarrow> Hung)
         else replay_gucs ops gucs c dirty)"

definition replay_statements :: "'s client_ops \<Rightarrow> statement_registry \<Rightarrow> 's conn \<Rightarrow> bool \<Rightarrow> 's prepared" where
  "replay_statements ops r c dirty =
     (if r = [] then Ready c dirty
      else (case registry_replay ops r c of
              (Done _, c1) \<Rightarrow> Ready c1 True
            | (Fail _, c1) \<Rightarrow> Unready c1 dirty ''prepared statement replay failed''
                                ''pgferry: failed to replay prepared statements''
            | (Blocked, c1) \<Rightarrow> Hung))"

definition prepare_lease ::
    "'s client_ops \<Rightarrow> statement_registry \<Rightarrow> guc_overrides \<Rightarrow> (string \<rightharpoonup> string) \<Rightarrow> 's lease \<Rightarrow> bool \<Rightarrow> 's prepared" where
  "prepare_lease ops r gucs startup l dirty =
     (case sync_startup_parameters ops startup l of
        (Blocked, l1) \<Rightarrow> Hung
      | (Fail e, l1) \<Rightarrow> Unready (l_conn l1) dirty (''parameter sync: '' @ op_show_error ops e)
                          (''pgferry: failed to prepare upstream connection: '' @ op_show_error ops e)
      | (Done _, l1) \<Rightarrow>
          (case replay_gucs ops gucs (l_conn l1) dirty of
             Ready c1 dirty1 \<Rightarrow> replay_statements ops r c1 dirty1
           | res \<Rightarrow> res))"

section \<open>Attaching\<close>

text \<open>What one turn of the attach loop leaves: go on with the next turn, or return.\<close>

datatype turn = Again | Stop attach_result

definition attach_failed ::
    "'s env \<Rightarrow> endpoint_id \<Rightarrow> string \<Rightarrow> string \<Rightarrow> ('s, 'c) attach_state \<Rightarrow> turn \<times> ('s, 'c) attach_state" where
  "attach_failed env i msg fatal a =
     (case dispatch_on_upstream_error (Connect i msg) (a_hooks a) of
        (Relink, hooks) \<Rightarrow> (Again, a\<lparr>a_hooks := hooks\<rparr>)
      | (CloseSession, hooks) \<Rightarrow>
          (Stop Refused, a\<lparr>a_hooks := hooks, a_ds := send_attach_fatal (e_codec env) fatal (a_ds a)\<rparr>))"

definition attach_prepared ::
    "'s env \<Rightarrow> endpoint_id \<Rightarrow> pool_key \<Rightarrow> 's lease \<Rightarrow> 's prepared \<Rightarrow> ('s, 'c) attach_state \<Rightarrow> turn \<times> ('s, 'c) attach_state" where
  "attach_prepared env i key l prep a =
     (case prep of
        Hung \<Rightarrow> (Stop Stuck, a)
      | Unready c dirty msg fatal \<Rightarrow>
          attach_failed env i msg fatal
            (a\<lparr>a_dirty := dirty, a_world := lease_destroy \<lparr>h_lease = l\<lparr>l_conn := c\<rparr>, h_key = key\<rparr> (a_world a)\<rparr>)
      | Ready c dirty \<Rightarrow>
          (Stop Attached,
           a\<lparr>a_dirty := dirty, a_hooks := dispatch_on_upstream_connected i (a_hooks a), a_endpoint := Some i,
             a_lease := Some \<lparr>h_lease = l\<lparr>l_conn := c\<rparr>, h_key = key\<rparr>\<rparr>))"

definition attach_endpoint ::
    "'s env \<Rightarrow> session_params \<Rightarrow> statement_registry \<Rightarrow> guc_overrides \<Rightarrow> (string \<rightharpoonup> string) \<Rightarrow> endpoint_config \<Rightarrow>
       ('s, 'c) attach_state \<Rightarrow> turn \<times> ('s, 'c) attach_state" where
  "attach_endpoint env params r gucs startup ep a =
     (let (key, p, w) = resolve_pool env params ep (a_world a);
          (res, t, p) = checkout (e_ops env) (e_clock env) (e_connect env) (w_tick w) p;
          a = a\<lparr>a_world := w\<lparr>w_pools := (w_pools w)(key \<mapsto> p), w_tick := t\<rparr>\<rparr>
      in case res of
           Blocked \<Rightarrow> (Stop Stuck, a)
         | Fail e \<Rightarrow>
             attach_failed env (ep_id ep) (op_show_error (e_ops env) e)
               (''pgferry: failed to connect to upstream: '' @ op_show_error (e_ops env) e) a
         | Done l \<Rightarrow> attach_prepared env (ep_id ep) key l (prepare_lease (e_ops env) r gucs startup l (a_dirty a)) a)"

definition attach_turn ::
    "'s env \<Rightarrow> session_params \<Rightarrow> statement_registry \<Rightarrow> guc_overrides \<Rightarrow> (string \<rightharpoonup> string) \<Rightarrow> string option \<Rightarrow>
       ('s, 'c) attach_state \<Rightarrow> turn \<times> ('s, 'c) attach_state" where
  "attach_turn env params r gucs startup hint a =
     (let (i, hooks) = dispatch_upstream env params hint (a_hooks a); a = a\<lparr>a_hooks := hooks\<rparr>
      in case route_endpoint (e_route env) i of
           None \<Rightarrow>
             (Stop Refused,
              a\<lparr>a_ds := send_attach_fatal (e_codec env) (''pgferry: unknown upstream endpoint '' @ debug_str i) (a_ds a)\<rparr>)
         | Some ep \<Rightarrow> attach_endpoint env params r gucs startup ep a)"

fun attach_loop ::
    "nat \<Rightarrow> 's env \<Rightarrow> session_params \<Rightarrow> statement_registry \<Rightarrow> guc_overrides \<Rightarrow> (string \<rightharpoonup> string) \<Rightarrow> string option \<Rightarrow>
       ('s, 'c) attach_state \<Rightarrow> attach_result \<times> ('s, 'c) attach_state" where
  "attach_loop 0 env params r gucs startup hint a =
     (Refused, a\<lparr>a_ds := send_attach_fatal (e_codec env) ''pgferry: all upstream endpoints failed'' (a_ds a)\<rparr>)"
| "attach_loop (Suc n) env params r gucs startup hint a =
     (case attach_turn env params r gucs startup hint a of
        (Stop res, a') \<Rightarrow> (res, a')
      | (Again, a') \<Rightarrow> attach_loop n env params r gucs startup hint a')"

definition attach_attempts :: "route_config \<Rightarrow> nat" where
  "attach_attempts route = max (length (route_endpoints route) * 2) 2"

definition ensure_attached ::
    "'s env \<Rightarrow> session_params \<Rightarrow> statement_registry \<Rightarrow> guc_overrides \<Rightarrow> (string \<rightharpoonup> string) \<Rightarrow> string option \<Rightarrow>
       ('s, 'c) attach_state \<Rightarrow> attach_result \<times> ('s, 'c) attach_state" where
  "ensure_attached env params r gucs startup hint a =
     (case a_lease a of
        Some _ \<Rightarrow> (Attached, a)
      | None \<Rightarrow> attach_loop (attach_attempts (e_route env)) env params r gucs startup hint a)"

section \<open>Startup in transaction mode\<close>

fun baseline_loop ::
    "nat \<Rightarrow> 's env \<Rightarrow> session_params \<Rightarrow> 's world \<Rightarrow> 'c session_hooks option \<Rightarrow>
       (string, string \<rightharpoonup> string) io \<times> 's world \<times> 'c session_hooks option" where
  "baseline_loop 0 env params w hooks = (Fail ''all upstream endpoints failed'', w, hooks)"
| "baseline_loop (Suc n) env params w hooks =
     (let (i, hooks) = dispatch_upstream env params None hooks
      in case route_endpoint (e_route env) i of
           None \<Rightarrow> (Fail (''unknown upstream endpoint '' @ debug_str i), w, hooks)
         | Some ep \<Rightarrow>
             (let (key, p, w) = resolve_pool env params ep w;
                  (res, t, p) = baseline_params (e_ops env) (e_clock env) (e_connect env) (w_tick w) p;
                  w = w\<lparr>w_pools := (w_pools w)(key \<mapsto> p), w_tick := t\<rparr>
              in case res of
                   Done m \<Rightarrow> (Done m, w, dispatch_on_upstream_connected (ep_id ep) hooks)
                 | Blocked \<Rightarrow> (Blocked, w, hooks)
                 | Fail e \<Rightarrow>
                     (case dispatch_on_upstream_error (Connect (ep_id ep) (op_show_error (e_ops env) e)) hooks of
                        (CloseSession, hooks) \<Rightarrow> (Fail (op_show_error (e_ops env) e), w, hooks)
                      | (Relink, hooks) \<Rightarrow> baseline_loop n env params w hooks)))"

definition baseline_params_routed ::
    "'s env \<Rightarrow> session_params \<Rightarrow> 's world \<Rightarrow> 'c session_hooks option \<Rightarrow>
       (string, string \<rightharpoonup> string) io \<times> 's world \<times> 'c session_hooks option" where
  "baseline_params_routed env params w hooks = baseline_loop (attach_attempts (e_route env)) env params w hooks"

section \<open>Detaching\<close>

definition detach_if_idle ::
    "'s env \<Rightarrow> tx_status \<Rightarrow> bool \<Rightarrow> bool \<Rightarrow> 's held option \<Rightarrow> 's world \<Rightarrow> bool \<times> 's held option \<times> 's world" where
  "detach_if_idle env status dirty transaction_mode slot w =
     (if \<not> transaction_mode then (False, slot, w)
      else if status \<noteq> Idle then (False, slot, w)
      else (case slot of
              Some h \<Rightarrow> (True, None, lease_checkin_detached env dirty h w)
            | None \<Rightarrow> (False, None, w)))"

section \<open>A lost connection\<close>

text \<open>
  \<^verbatim>\<open>synthesize_upstream_lost\<close>: the result says whether the client is still there, and is followed by the
  new swallow flag. The report is taken before the error is stored in the cycle, as in the code.
\<close>

definition upstream_lost_error :: cycle_error where
  "upstream_lost_error = \<lparr>ce_code = ''08006'', ce_message = ''upstream connection lost''\<rparr>"

definition end_lost_cycle :: "instant \<Rightarrow> 'c session_hooks \<Rightarrow> 'c session_hooks" where
  "end_lost_cycle now h =
     (let (report, ct) = cycle_finish now (sh_cycle h)
      in h\<lparr>sh_cycle := ct\<lparr>ct_error := Some upstream_lost_error\<rparr>,
           sh_ctx := hook_on_cycle_end (sh_interceptor h) (sh_ctx h) report\<rparr>)"

definition synthesize_upstream_lost ::
    "err_codec \<Rightarrow> instant \<Rightarrow> bool \<Rightarrow> bool \<Rightarrow> 'c session_hooks option \<Rightarrow> downstream \<Rightarrow>
       bool \<times> bool \<times> 'c session_hooks option \<times> downstream" where
  "synthesize_upstream_lost cod now extended swallow hooks d =
     (let info = error_info_new ''ERROR'' ''08006'' ''upstream connection lost''
      in case ds_send (BErrorResponse (err_into cod info)) d of
           (False, d) \<Rightarrow> (False, swallow, hooks, d)
         | (True, d) \<Rightarrow>
             if extended then (True, True, hooks, d)
             else (case send_ready_for_query Idle d of
                     (False, d) \<Rightarrow> (False, swallow, hooks, d)
                   | (True, d) \<Rightarrow>
                       (True, swallow,
                        (case hooks of
                           Some h \<Rightarrow> Some (if ct_active (sh_cycle h) then end_lost_cycle now h else h)
                         | None \<Rightarrow> None),
                        ds_set_status Idle d)))"

section \<open>Turns of the attach loop\<close>

lemma attach_turn_attached:
  assumes "attach_turn env params r gucs startup hint a = (Stop Attached, a')"
  shows "a_lease a' \<noteq> None \<and> (\<exists>l c dirty. prepare_lease (e_ops env) r gucs startup l dirty = Ready c (a_dirty a'))"
  using assms
  by (auto simp: attach_turn_def attach_endpoint_def attach_prepared_def attach_failed_def Let_def
      split: prod.splits option.splits io.splits prepared.splits retry_decision.splits) blast

lemma attach_turn_lease:
  assumes "attach_turn env params r gucs startup hint a = (tr, a')" "tr \<noteq> Stop Attached"
  shows "a_lease a' = a_lease a"
  using assms
  by (auto simp: attach_turn_def attach_endpoint_def attach_prepared_def attach_failed_def Let_def
      split: prod.splits option.splits io.splits prepared.splits retry_decision.splits)

text \<open>An attach loop that succeeds does so in one of its turns.\<close>

lemma attach_loop_turn:
  "attach_loop n env params r gucs startup hint a = (Attached, a') \<Longrightarrow>
     \<exists>b. attach_turn env params r gucs startup hint b = (Stop Attached, a')"
proof (induction n arbitrary: a)
  case (Suc n)
  obtain tr a1 where t: "attach_turn env params r gucs startup hint a = (tr, a1)" by fastforce
  with Suc show ?case by (cases tr) auto
qed simp

lemma attach_loop_attached: "attach_loop n env params r gucs startup hint a = (Attached, a') \<Longrightarrow> a_lease a' \<noteq> None"
  by (blast dest: attach_loop_turn attach_turn_attached)

section \<open>Permits across an attach\<close>

definition leased_out :: "pool_key \<Rightarrow> 's world \<Rightarrow> nat" where
  "leased_out k w = (case w_pools w k of None \<Rightarrow> 0 | Some p \<Rightarrow> capacity (p_config p) - p_permits p)"

definition world_wf :: "'s world \<Rightarrow> bool" where
  "world_wf w \<longleftrightarrow> (\<forall>k p. w_pools w k = Some p \<longrightarrow> p_permits p \<le> capacity (p_config p))"

lemma resolve_pool_spec:
  assumes "resolve_pool env params ep w = (key, p, w')" "world_wf w"
  shows "w_pools w' key = Some p" "world_wf w'" "leased_out k w' = leased_out k w" "w_tick w' = w_tick w"
    "key = pool_key_for (e_route env) params ep"
    "p_permits p \<le> capacity (p_config p)" "j \<noteq> key \<Longrightarrow> w_pools w' j = w_pools w j"
  using assms
  by (auto simp: resolve_pool_def get_or_create_def Let_def world_wf_def leased_out_def pool_new_def
      split: option.splits prod.splits if_splits)

lemma leased_out_put:
  assumes "w_pools w key = Some p"
  shows "leased_out k (w\<lparr>w_pools := (w_pools w)(key \<mapsto> p'), w_tick := t\<rparr>) =
     (if k = key then capacity (p_config p') - p_permits p' else leased_out k w)"
  by (simp add: leased_out_def)

lemma world_wf_put:
  "world_wf w \<Longrightarrow> p_permits p' \<le> capacity (p_config p') \<Longrightarrow> world_wf (w\<lparr>w_pools := (w_pools w)(key \<mapsto> p'), w_tick := t\<rparr>)"
  by (simp add: world_wf_def)

lemma destroy_fields [simp]:
  "p_permits (destroy l p) = Suc (p_permits p)" "p_config (destroy l p) = p_config p" "p_idle (destroy l p) = p_idle p"
  "p_connect (destroy l p) = p_connect p"
  by (simp_all add: destroy_def pool_simps)

text \<open>What an attach owes: no lease and no permit when refused, exactly one of each when attached.\<close>

definition attach_contract ::
    "'s env \<Rightarrow> session_params \<Rightarrow> ('s, 'c) attach_state \<Rightarrow> attach_result option \<Rightarrow> ('s, 'c) attach_state \<Rightarrow> bool" where
  "attach_contract env params a res a' \<longleftrightarrow>
     (case res of
        Some Stuck \<Rightarrow> True
      | Some Attached \<Rightarrow>
          world_wf (a_world a') \<and>
          (\<exists>h ep. a_lease a' = Some h \<and> ep \<in> set (route_endpoints (e_route env)) \<and>
             h_key h = pool_key_for (e_route env) params ep \<and> a_endpoint a' = Some (ep_id ep) \<and>
             (\<forall>k. leased_out k (a_world a') = leased_out k (a_world a) + (if k = h_key h then 1 else 0)))
      | _ \<Rightarrow>
          world_wf (a_world a') \<and> a_lease a' = None \<and> (\<forall>k. leased_out k (a_world a') = leased_out k (a_world a)))"

lemma attach_contract_cong:
  assumes "\<forall>k. leased_out k (a_world a1) = leased_out k (a_world a)"
  shows "attach_contract env params a1 res a' = attach_contract env params a res a'"
  using assms by (simp add: attach_contract_def cong: option.case_cong attach_result.case_cong)

fun turn_result :: "turn \<Rightarrow> attach_result option" where
  "turn_result Again = None"
| "turn_result (Stop r) = Some r"

lemma attach_failed_contract:
  assumes "world_wf (a_world a1)" "a_lease a1 = None" "\<And>k. leased_out k (a_world a1) = leased_out k (a_world a)"
    and "attach_failed env i msg fatal a1 = (tr, a')"
  shows "attach_contract env params a (turn_result tr) a'"
  using assms by (auto simp: attach_failed_def attach_contract_def split: prod.splits retry_decision.splits)

lemma checkout_permits:
  assumes "checkout ops clock connect t p = (r, t', p')" "p_permits p \<le> capacity (p_config p)"
  shows "p_config p' = p_config p" "p_permits p' \<le> capacity (p_config p')"
    "r = Done l \<Longrightarrow> p_permits p = Suc (p_permits p')" "r = Fail e \<Longrightarrow> p_permits p' = p_permits p"
  using checkout_Done [of ops clock connect t p _ t' p'] checkout_not_Done [OF assms(1)] assms
  by (cases r; auto simp: add_waiting_def)+

lemma lease_destroy_permits:
  assumes "w_pools w (h_key h) = Some p" "p_permits p < capacity (p_config p)" "world_wf w"
  shows "world_wf (lease_destroy h w)"
    "leased_out k (lease_destroy h w) = leased_out k w - (if k = h_key h then 1 else 0)"
  using assms by (auto simp: lease_destroy_def pool_apply_def world_wf_def leased_out_def)

lemma attach_prepared_contract:
  assumes wf: "world_wf (a_world a1)" "a_lease a1 = None"
    and p: "w_pools (a_world a1) (pool_key_for (e_route env) params ep) = Some p" "p_permits p < capacity (p_config p)"
    and ep: "ep \<in> set (route_endpoints (e_route env))"
    and plus: "\<And>k. leased_out k (a_world a1) =
       leased_out k (a_world a) + (if k = pool_key_for (e_route env) params ep then 1 else 0)"
    and turn: "attach_prepared env (ep_id ep) (pool_key_for (e_route env) params ep) l prep a1 = (tr, a')"
  shows "attach_contract env params a (turn_result tr) a'"
proof (cases prep)
  case Hung
  with turn show ?thesis by (auto simp: attach_prepared_def attach_contract_def)
next
  case (Ready c dirty)
  with turn wf plus ep show ?thesis by (auto simp: attach_prepared_def attach_contract_def)
next
  case (Unready c dirty msg fatal)
  let ?h = "\<lparr>h_lease = l\<lparr>l_conn := c\<rparr>, h_key = pool_key_for (e_route env) params ep\<rparr>"
  let ?a = "a1\<lparr>a_dirty := dirty, a_world := lease_destroy ?h (a_world a1)\<rparr>"
  have "w_pools (a_world a1) (h_key ?h) = Some p" using p(1) by simp
  from lease_destroy_permits [OF this p(2) wf(1)] plus
  have "world_wf (a_world ?a)" "leased_out k (a_world ?a) = leased_out k (a_world a)" for k by auto
  then show ?thesis
    using attach_failed_contract [of ?a a env "ep_id ep" msg fatal tr a' params] turn Unready wf(2) by (simp add: attach_prepared_def)
qed

lemma attach_endpoint_contract:
  assumes wf: "world_wf (a_world a)" and "a_lease a = None" and ep: "ep \<in> set (route_endpoints (e_route env))"
    and turn: "attach_endpoint env params r gucs startup ep a = (tr, a')"
  shows "attach_contract env params a (turn_result tr) a'"
proof -
  obtain key p w where res: "resolve_pool env params ep (a_world a) = (key, p, w)" by (metis prod_cases3)
  note rp = resolve_pool_spec [OF res wf]
  obtain rr t p1 where co: "checkout (e_ops env) (e_clock env) (e_connect env) (w_tick w) p = (rr, t, p1)"
    by (metis prod_cases3)
  note cp = checkout_permits [OF co rp(6)]
  let ?w = "w\<lparr>w_pools := (w_pools w)(key \<mapsto> p1), w_tick := t\<rparr>"
  have wf1: "world_wf ?w" using rp(2) cp(2) by (rule world_wf_put)
  have lo: "leased_out k ?w = (if k = key then capacity (p_config p1) - p_permits p1 else leased_out k (a_world a))" for k
    using leased_out_put [OF rp(1)] rp(3) by simp
  have key0: "leased_out key (a_world a) = capacity (p_config p) - p_permits p"
    using rp(1) rp(3) [of key] by (simp add: leased_out_def)
  show ?thesis
  proof (cases rr)
    case Blocked
    with turn res co show ?thesis by (auto simp: attach_endpoint_def attach_contract_def)
  next
    case (Fail e)
    have "leased_out k ?w = leased_out k (a_world a)" for k using lo key0 cp(1,4) Fail by simp
    with turn res co Fail wf1 assms(2) attach_failed_contract [of "a\<lparr>a_world := ?w\<rparr>" a env _ _ _ tr a' params] show ?thesis
      by (simp add: attach_endpoint_def Let_def)
  next
    case (Done l)
    have eq: "p_permits p = Suc (p_permits p1)" by (rule cp(3) [OF Done])
    then have "leased_out k ?w = leased_out k (a_world a) + (if k = key then 1 else 0)" "p_permits p1 < capacity (p_config p1)" for k
      using lo key0 rp(6) cp(1) by auto
    with turn res co Done wf1 assms(2) ep rp(5)
      attach_prepared_contract [of "a\<lparr>a_world := ?w\<rparr>" env params ep p1 a l _ tr a'] show ?thesis
      by (simp add: attach_endpoint_def Let_def)
  qed
qed

lemma attach_turn_contract:
  assumes "world_wf (a_world a)" "a_lease a = None"
    and turn: "attach_turn env params r gucs startup hint a = (tr, a')"
  shows "attach_contract env params a (turn_result tr) a'"
proof -
  obtain i hooks where d: "dispatch_upstream env params hint (a_hooks a) = (i, hooks)" by fastforce
  show ?thesis
  proof (cases "route_endpoint (e_route env) i")
    case None
    with turn d assms show ?thesis by (auto simp: attach_turn_def attach_contract_def)
  next
    case (Some ep)
    with turn d have "attach_endpoint env params r gucs startup ep (a\<lparr>a_hooks := hooks\<rparr>) = (tr, a')"
      by (simp add: attach_turn_def)
    from attach_endpoint_contract [OF _ _ _ this] assms(1,2) route_endpoint_Some [OF Some]
    have "attach_contract env params (a\<lparr>a_hooks := hooks\<rparr>) (turn_result tr) a'" by simp
    then show ?thesis by (subst (asm) attach_contract_cong [of _ a]) simp_all
  qed
qed

lemma attach_loop_contract:
  "world_wf (a_world a) \<Longrightarrow> a_lease a = None \<Longrightarrow> attach_loop n env params r gucs startup hint a = (res, a') \<Longrightarrow>
     attach_contract env params a (Some res) a'"
proof (induction n arbitrary: a)
  case 0
  then show ?case by (auto simp: attach_contract_def)
next
  case (Suc n)
  obtain tr a1 where t: "attach_turn env params r gucs startup hint a = (tr, a1)" by fastforce
  note c = attach_turn_contract [OF Suc.prems(1,2) t]
  show ?case
  proof (cases tr)
    case (Stop rr)
    with c t Suc.prems(3) show ?thesis by simp
  next
    case Again
    with c have a1: "world_wf (a_world a1)" "a_lease a1 = None" "\<forall>k. leased_out k (a_world a1) = leased_out k (a_world a)"
      by (simp_all add: attach_contract_def)
    from Suc.IH [OF a1(1,2)] t Again Suc.prems(3) have "attach_contract env params a1 (Some res) a'" by simp
    with attach_contract_cong [OF a1(3)] show ?thesis by simp
  qed
qed

text \<open>
  Property C11. Attaching never leaks: when \<^verbatim>\<open>ensure_attached\<close> refuses, after however many failed connects,
  parameter syncs or replays, no pool has lost a permit; when it attaches, exactly one permit is out
  more, in the pool of the configured endpoint the session is now on.
\<close>

theorem attach_accounts_for_permits:
  assumes "world_wf (a_world a)" "a_lease a = None"
    and "ensure_attached env params r gucs startup hint a = (res, a')"
  shows "attach_contract env params a (Some res) a'"
  using assms attach_loop_contract [OF assms(1,2)] by (simp add: ensure_attached_def)

section \<open>Failover\<close>

text \<open>
  Endpoints as the attach loop meets them. \<open>down\<close>: every connect fails and the pool has nothing parked;
  \<open>up\<close>: every connect succeeds, a permit is free, and a checked-out connection can be prepared.
\<close>

definition pool_ready :: "'s env \<Rightarrow> session_params \<Rightarrow> 's world \<Rightarrow> endpoint_config \<Rightarrow> ('s pool \<Rightarrow> bool) \<Rightarrow> bool" where
  "pool_ready env params w ep P \<longleftrightarrow>
     (case w_pools w (pool_key_for (e_route env) params ep) of
        None \<Rightarrow> True
      | Some p \<Rightarrow> p_permits p > 0 \<and> p_connect p = make_factory_for ep (e_route env) params \<and> P p)"

definition endpoint_down :: "'s env \<Rightarrow> session_params \<Rightarrow> 's world \<Rightarrow> endpoint_config \<Rightarrow> bool" where
  "endpoint_down env params w ep \<longleftrightarrow>
     (\<forall>t. \<exists>e. e_connect env (make_factory_for ep (e_route env) params) t = Fail e) \<and>
     pool_ready env params w ep (\<lambda>p. p_idle p = [])"

definition endpoint_up ::
    "'s env \<Rightarrow> session_params \<Rightarrow> statement_registry \<Rightarrow> guc_overrides \<Rightarrow> (string \<rightharpoonup> string) \<Rightarrow> 's world \<Rightarrow> endpoint_config \<Rightarrow> bool" where
  "endpoint_up env params r gucs startup w ep \<longleftrightarrow>
     (\<forall>t. \<exists>c. e_connect env (make_factory_for ep (e_route env) params) t = Done c) \<and>
     pool_ready env params w ep (\<lambda>p. True) \<and>
     (\<forall>l dirty. \<exists>c d. prepare_lease (e_ops env) r gucs startup l dirty = Ready c d)"

lemma resolve_pool_ready:
  assumes "pool_ready env params w ep P" "resolve_pool env params ep w = (key, p, w')"
    and new: "P (pool_new key (e_pool_config env) (make_factory_for ep (e_route env) params))"
  shows "p_permits p > 0" "p_connect p = make_factory_for ep (e_route env) params" "P p"
    "key = pool_key_for (e_route env) params ep" "w_pools w' = (w_pools w)(key \<mapsto> p)"
  using assms
  by (auto simp: resolve_pool_def get_or_create_def Let_def pool_ready_def pool_new_def capacity_def
      split: option.splits prod.splits)

lemma checkout_down:
  assumes "p_permits p > 0" "p_idle p = []" "\<forall>t. \<exists>e. connect (p_connect p) t = Fail e"
  shows "\<exists>e. checkout ops clock connect t p = (Fail e, t + 1, release_permit (inc_dropped (add_waiting (-1) (take_permit (add_waiting 1 p)))))"
proof -
  obtain e where "connect (p_connect p) t = Fail e" using assms(3) by blast
  with assms(1,2) show ?thesis by (simp add: checkout_def Let_def checkout_loop_Nil)
qed

lemma checkout_up:
  assumes "p_permits p > 0" "\<forall>t. \<exists>c. connect (p_connect p) t = Done c"
  shows "\<exists>l t' p'. checkout ops clock connect t p = (Done l, t', p')"
proof -
  obtain res t' p' where c: "checkout ops clock connect t p = (res, t', p')" by (metis prod_cases3)
  have "\<exists>l. res = Done l"
  proof (rule ccontr)
    assume "\<nexists>l. res = Done l"
    from checkout_not_Done [OF c this] assms(1) have
      "\<exists>n. (\<exists>e. connect (p_connect p) n = Fail e) \<or> connect (p_connect p) n = Blocked" by auto
    with assms(2) show False by (metis io.distinct(1,3))
  qed
  with c show ?thesis by blast
qed

lemma attach_endpoint_up:
  assumes "endpoint_up env params r gucs startup (a_world a) ep"
  shows "\<exists>a'. attach_endpoint env params r gucs startup ep a = (Stop Attached, a')"
proof -
  obtain key p w where res: "resolve_pool env params ep (a_world a) = (key, p, w)" by (metis prod_cases3)
  note up = assms [unfolded endpoint_up_def]
  from resolve_pool_ready [OF conjunct1 [OF conjunct2 [OF up]] res] up obtain l t p1 where
    "checkout (e_ops env) (e_clock env) (e_connect env) (w_tick w) p = (Done l, t, p1)"
    using checkout_up [of p "e_connect env"] by (metis (no_types))
  moreover obtain c d where "prepare_lease (e_ops env) r gucs startup l (a_dirty a) = Ready c d" using up by blast
  ultimately show ?thesis using res by (simp add: attach_endpoint_def attach_prepared_def)
qed

lemma attach_endpoint_down:
  assumes down: "endpoint_down env params (a_world a) ep"
    and relink: "\<And>m. \<exists>hooks. dispatch_on_upstream_error (Connect (ep_id ep) m) (a_hooks a) = (Relink, hooks) \<and> Q hooks"
  shows "\<exists>a'. attach_endpoint env params r gucs startup ep a = (Again, a') \<and> Q (a_hooks a') \<and>
     endpoint_down env params (a_world a') ep \<and>
     (\<forall>k. k \<noteq> pool_key_for (e_route env) params ep \<longrightarrow> w_pools (a_world a') k = w_pools (a_world a) k)"
proof -
  obtain key p w where res: "resolve_pool env params ep (a_world a) = (key, p, w)" by (metis prod_cases3)
  note dn = down [unfolded endpoint_down_def]
  note rp = resolve_pool_ready [OF conjunct2 [OF dn] res]
  have new: "p_idle (pool_new key (e_pool_config env) (make_factory_for ep (e_route env) params)) = []"
    by (simp add: pool_new_def)
  obtain e p1 where co: "checkout (e_ops env) (e_clock env) (e_connect env) (w_tick w) p = (Fail e, w_tick w + 1, p1)"
    and p1: "p1 = release_permit (inc_dropped (add_waiting (-1) (take_permit (add_waiting 1 p))))"
    using checkout_down [OF rp(1,3) [OF new], of "e_connect env"] conjunct1 [OF dn] rp(2) [OF new] by metis
  have "p_permits p1 > 0" "p_idle p1 = []" "p_connect p1 = make_factory_for ep (e_route env) params"
    unfolding p1 using rp [OF new] by (simp_all add: pool_simps)
  with dn rp(4) [OF new] have ok: "endpoint_down env params (w\<lparr>w_pools := (w_pools w)(key \<mapsto> p1), w_tick := w_tick w + 1\<rparr>) ep"
    by (simp add: endpoint_down_def pool_ready_def)
  obtain hooks where d: "dispatch_on_upstream_error (Connect (ep_id ep) (op_show_error (e_ops env) e)) (a_hooks a) = (Relink, hooks)"
    "Q hooks" using relink by blast
  show ?thesis using res co d ok rp(4,5) [OF new] by (simp add: attach_endpoint_def attach_failed_def)
qed

text \<open>
  How many failed attempts \<^verbatim>\<open>FailoverRouter\<close> still spends on an endpoint at the instants of \<open>W\<close>: the failures left
  before it is marked dead, or one trial for a dead endpoint that is due for revival at one of them.
\<close>

definition chances :: "instant set \<Rightarrow> endpoint_group \<Rightarrow> endpoint_id \<Rightarrow> nat" where
  "chances W g i =
     (case health g i of
        Some (Dead since) \<Rightarrow> (if \<exists>now\<in>W. elapsed now since \<ge> revive_after g then 1 else 0)
      | _ \<Rightarrow> failures_left g i)"

text \<open>An endpoint marked dead at one of these instants is not due for revival at any of them.\<close>

definition brief :: "instant set \<Rightarrow> endpoint_group \<Rightarrow> bool" where
  "brief W g \<longleftrightarrow> (\<forall>x\<in>W. \<forall>y\<in>W. elapsed y x < revive_after g)"

lemma brief_failure [simp]: "brief W (report_failure now i g) = brief W g"
  by (simp add: brief_def)

lemma chances_failure:
  assumes "group_wf g" "brief W g" "now \<in> W"
  shows "chances W (report_failure now i g) i = chances W g i - 1"
proof (cases "\<exists>since. health g i = Some (Dead since)")
  case True
  have "\<not> (\<exists>y\<in>W. elapsed y now \<ge> revive_after g)" using assms(2,3) by (auto simp: brief_def not_le)
  with True show ?thesis by (auto simp: chances_def report_failure_def Let_def)
next
  case False
  have "\<not> (\<exists>y\<in>W. elapsed y now \<ge> revive_after g)" using assms(2,3) by (auto simp: brief_def not_le)
  moreover from False have "chances W g i = failures_left g i" by (auto simp: chances_def split: option.splits health.splits)
  ultimately have "chances W (report_failure now i g) i = failures_left (report_failure now i g) i"
    using False by (auto simp: chances_def failures_left_def report_failure_def Let_def split: option.splits health.splits)
  with \<open>chances W g i = failures_left g i\<close> show ?thesis using failures_left_failure [OF assms(1)] by simp
qed

lemma chances_failure_other: "j \<noteq> i \<Longrightarrow> chances W (report_failure now i g) j = chances W g j"
  by (simp add: chances_def split: option.splits health.splits)

lemma chances_pos:
  assumes "group_wf g" "is_alive now g i" "now \<in> W"
  shows "0 < chances W g i"
proof -
  have "unat f < unat (failure_threshold g)" if "health g i = Some (Alive f)" for f
    using assms(1) that by (auto simp: group_wf_def word_less_nat_alt)
  moreover have "0 < unat (failure_threshold g)" using assms(1) by (simp add: group_wf_def word_le_nat_alt)
  ultimately show ?thesis using assms(2,3)
    by (auto simp: chances_def failures_left_def is_alive_def split: option.splits health.splits)
qed

lemma chances_le: "1 \<le> failure_threshold g \<Longrightarrow> chances W g i \<le> unat (failure_threshold g)"
  by (auto simp: chances_def failures_left_def word_le_nat_alt split: option.splits health.splits)

text \<open>A session whose interceptor is \<^verbatim>\<open>FailoverRouter\<close>, in the state \<open>c\<close>.\<close>

definition uses_failover :: "(nat \<Rightarrow> instant) \<Rightarrow> failover_ctx \<Rightarrow> failover_ctx session_hooks option \<Rightarrow> bool" where
  "uses_failover clock c hooks \<longleftrightarrow>
     (\<exists>h g0. hooks = Some h \<and> sh_interceptor h = failover_router clock g0 \<and> sh_ctx h = c)"

definition failed_ctx :: "(nat \<Rightarrow> instant) \<Rightarrow> endpoint_id \<Rightarrow> failover_ctx \<Rightarrow> failover_ctx" where
  "failed_ctx clock i c = \<lparr>fo_group = report_failure (clock (fo_reads c + 1)) i (fo_group c), fo_reads = fo_reads c + 2\<rparr>"

lemma failed_ctx_fields [simp]:
  "fo_group (failed_ctx clock i c) = report_failure (clock (fo_reads c + 1)) i (fo_group c)"
  "fo_reads (failed_ctx clock i c) = fo_reads c + 2"
  by (simp_all add: failed_ctx_def)

text \<open>One turn that ends at an endpoint which is down: the router is asked, the connect fails, the failure is reported.\<close>

lemma failover_turn_down:
  assumes "uses_failover clock c (a_hooks a)"
    and "failover_upstream (clock (fo_reads c)) (fo_group c) \<lparr>ri_endpoints = route_endpoints (e_route env), ri_user = sp_user params,
       ri_database = sp_database params, ri_sql = hint\<rparr> = ep_id e"
    and "route_endpoint (e_route env) (ep_id e) = Some e" "endpoint_down env params (a_world a) e"
  shows "\<exists>a'. attach_turn env params r gucs startup hint a = (Again, a') \<and> uses_failover clock (failed_ctx clock (ep_id e) c) (a_hooks a') \<and>
    endpoint_down env params (a_world a') e \<and>
    (\<forall>k. k \<noteq> pool_key_for (e_route env) params e \<longrightarrow> w_pools (a_world a') k = w_pools (a_world a) k)"
proof -
  obtain h g0 where h: "a_hooks a = Some h" "sh_interceptor h = failover_router clock g0" "sh_ctx h = c"
    using assms(1) by (auto simp: uses_failover_def)
  let ?h = "h\<lparr>sh_ctx := c\<lparr>fo_reads := Suc (fo_reads c)\<rparr>\<rparr>"
  let ?a = "a\<lparr>a_hooks := Some ?h\<rparr>"
  have turn: "attach_turn env params r gucs startup hint a = attach_endpoint env params r gucs startup e ?a"
    using assms(2,3) h by (simp add: attach_turn_def dispatch_upstream_def failover_router_def Let_def)
  have "\<exists>hooks. dispatch_on_upstream_error (Connect (ep_id e) m) (a_hooks ?a) = (Relink, hooks) \<and>
      uses_failover clock (failed_ctx clock (ep_id e) c) hooks" for m
    using h by (auto simp: dispatch_on_upstream_error_def failover_router_def failover_on_upstream_error_def uses_failover_def
        failed_ctx_def Let_def)
  from attach_endpoint_down [of env params ?a e, OF _ this] assms(4) turn show ?thesis by simp
qed

lemma failover_turn_up:
  assumes "uses_failover clock c (a_hooks a)"
    and "failover_upstream (clock (fo_reads c)) (fo_group c) \<lparr>ri_endpoints = route_endpoints (e_route env), ri_user = sp_user params,
       ri_database = sp_database params, ri_sql = hint\<rparr> = ep_id e"
    and "route_endpoint (e_route env) (ep_id e) = Some e" "endpoint_up env params r gucs startup (a_world a) e"
  shows "\<exists>a'. attach_turn env params r gucs startup hint a = (Stop Attached, a')"
proof -
  obtain h g0 where h: "a_hooks a = Some h" "sh_interceptor h = failover_router clock g0" "sh_ctx h = c"
    using assms(1) by (auto simp: uses_failover_def)
  with assms(2,3) have "attach_turn env params r gucs startup hint a =
      attach_endpoint env params r gucs startup e (a\<lparr>a_hooks := Some (h\<lparr>sh_ctx := c\<lparr>fo_reads := Suc (fo_reads c)\<rparr>\<rparr>)\<rparr>)"
    by (simp add: attach_turn_def dispatch_upstream_def failover_router_def Let_def)
  with attach_endpoint_up [of env params r gucs startup "a\<lparr>a_hooks := Some (h\<lparr>sh_ctx := c\<lparr>fo_reads := Suc (fo_reads c)\<rparr>\<rparr>)\<rparr>" e] assms(4)
  show ?thesis by simp
qed

lemma failover_picks_first_alive:
  assumes "ep \<in> set (ri_endpoints info)" "is_alive now g (ep_id ep)"
  shows "\<exists>e. e \<in> set (ri_endpoints info) \<and> is_alive now g (ep_id e) \<and> failover_upstream now g info = ep_id e"
proof (cases "List.find (\<lambda>e. is_alive now g (ep_id e)) (ri_endpoints info)")
  case None
  with assms show ?thesis by (auto simp: find_None_all)
next
  case (Some e)
  from find_Some_in_set [OF Some] Some show ?thesis by (auto simp: failover_upstream_def select_first_alive_def)
qed

lemma route_endpoint_distinct:
  assumes "distinct (map ep_id (route_endpoints route))" "e \<in> set (route_endpoints route)"
  shows "route_endpoint route (ep_id e) = Some e"
proof -
  obtain e' where "route_endpoint route (ep_id e) = Some e'" "ep_id e' = ep_id e"
    using route_endpoint_mem [OF assms(2)] by blast
  with route_endpoint_Some [OF this(1)] assms show ?thesis by (metis eq_key_imp_eq_value distinct_map inj_onD)
qed

text \<open>The attempts the router can still waste on endpoints that are down.\<close>

definition wasted :: "instant set \<Rightarrow> endpoint_group \<Rightarrow> (endpoint_config \<Rightarrow> bool) \<Rightarrow> endpoint_config list \<Rightarrow> nat" where
  "wasted W g dn es = sum_list (map (\<lambda>e. if dn e then chances W g (ep_id e) else 0) es)"

lemma wasted_failure:
  assumes "distinct (map ep_id es)" "e \<in> set es" "dn e" "group_wf g" "brief W g"
    and "is_alive now g (ep_id e)" "now \<in> W" "then' \<in> W"
  shows "Suc (wasted W (report_failure then' (ep_id e) g) dn es) = wasted W g dn es"
  using assms(1,2)
proof (induction es)
  case Nil
  then show ?case by simp
next
  case (Cons x es)
  show ?case
  proof (cases "x = e")
    case True
    have "ep_id y \<noteq> ep_id e" if "y \<in> set es" for y using Cons.prems(1) that True by (auto simp: image_iff)
    then have "wasted W (report_failure then' (ep_id e) g) dn es = wasted W g dn es"
      unfolding wasted_def by (intro arg_cong [of _ _ sum_list] map_cong) (simp_all add: chances_failure_other)
    with True assms(3) chances_failure [OF assms(4,5,8), of "ep_id e"] chances_pos [OF assms(4,6,7)] show ?thesis
      by (simp add: wasted_def)
  next
    case False
    with Cons.prems have "e \<in> set es" "ep_id x \<noteq> ep_id e" by (auto simp: image_iff)
    with Cons.IH Cons.prems(1) chances_failure_other [of "ep_id x" "ep_id e"] show ?thesis by (simp add: wasted_def)
  qed
qed

definition connect_fails :: "'s env \<Rightarrow> session_params \<Rightarrow> endpoint_config \<Rightarrow> bool" where
  "connect_fails env params ep \<longleftrightarrow>
     (\<forall>t. \<exists>e. e_connect env (make_factory_for ep (e_route env) params) t = Fail e)"

lemma up_not_failing: "endpoint_up env params r gucs startup w ep \<Longrightarrow> \<not> connect_fails env params ep"
  unfolding endpoint_up_def connect_fails_def by (metis io.distinct(1))

lemma endpoint_other_world:
  assumes "\<forall>k. k \<noteq> pool_key_for (e_route env) params ep \<longrightarrow> w_pools w' k = w_pools w k" "ep_id e \<noteq> ep_id ep"
  shows "endpoint_down env params w' e = endpoint_down env params w e"
    "endpoint_up env params r gucs startup w' e = endpoint_up env params r gucs startup w e"
proof -
  have "pool_key_for (e_route env) params e \<noteq> pool_key_for (e_route env) params ep"
    using assms(2) by (simp add: pool_key_for_def)
  with assms(1) have "w_pools w' (pool_key_for (e_route env) params e) = w_pools w (pool_key_for (e_route env) params e)" by blast
  then show "endpoint_down env params w' e = endpoint_down env params w e"
    "endpoint_up env params r gucs startup w' e = endpoint_up env params r gucs startup w e"
    by (simp_all add: endpoint_down_def endpoint_up_def pool_ready_def)
qed

lemma failover_loop:
  assumes es: "distinct (map ep_id (route_endpoints (e_route env)))"
    and star: "star \<in> set (route_endpoints (e_route env))"
  shows "uses_failover clock c (a_hooks a) \<Longrightarrow> group_wf (fo_group c) \<Longrightarrow> brief W (fo_group c) \<Longrightarrow>
    (\<forall>k < 2 * n. clock (fo_reads c + k) \<in> W) \<Longrightarrow>
    (\<forall>e\<in>set (route_endpoints (e_route env)).
       endpoint_down env params (a_world a) e \<or> endpoint_up env params r gucs startup (a_world a) e) \<Longrightarrow>
    endpoint_up env params r gucs startup (a_world a) star \<Longrightarrow> (\<forall>now\<in>W. is_alive now (fo_group c) (ep_id star)) \<Longrightarrow>
    wasted W (fo_group c) (connect_fails env params) (route_endpoints (e_route env)) < n \<Longrightarrow>
    \<exists>a'. attach_loop n env params r gucs startup hint a = (Attached, a')"
proof (induction n arbitrary: a c)
  case 0
  then show ?case by simp
next
  case (Suc n)
  let ?info = "\<lparr>ri_endpoints = route_endpoints (e_route env), ri_user = sp_user params,
         ri_database = sp_database params, ri_sql = hint\<rparr>"
  let ?now = "clock (fo_reads c)" and ?then = "clock (fo_reads c + 1)"
  have W: "?now \<in> W" "?then \<in> W" using Suc.prems(4) [rule_format, of 0] Suc.prems(4) [rule_format, of 1] by simp_all
  obtain e where e: "e \<in> set (route_endpoints (e_route env))" "is_alive ?now (fo_group c) (ep_id e)"
    "failover_upstream ?now (fo_group c) ?info = ep_id e"
    using failover_picks_first_alive [of star ?info ?now "fo_group c"] star Suc.prems(7) W(1) by auto
  have route: "route_endpoint (e_route env) (ep_id e) = Some e" by (rule route_endpoint_distinct [OF es e(1)])
  show ?case
  proof (cases "endpoint_up env params r gucs startup (a_world a) e")
    case True
    from failover_turn_up [OF Suc.prems(1) e(3) route this] show ?thesis by auto
  next
    case False
    with Suc.prems(5) e(1) have down: "endpoint_down env params (a_world a) e" by auto
    obtain a' where a': "attach_turn env params r gucs startup hint a = (Again, a')"
      "uses_failover clock (failed_ctx clock (ep_id e) c) (a_hooks a')" "endpoint_down env params (a_world a') e"
      "\<forall>k. k \<noteq> pool_key_for (e_route env) params e \<longrightarrow> w_pools (a_world a') k = w_pools (a_world a) k"
      using failover_turn_down [OF Suc.prems(1) e(3) route down] by blast
    have fails: "connect_fails env params e" using down by (simp add: endpoint_down_def connect_fails_def)
    then have "star \<noteq> e" using up_not_failing [OF Suc.prems(6)] by blast
    then have ne: "ep_id star \<noteq> ep_id e" using route_endpoint_distinct [OF es] star e(1) by (metis option.inject)
    have same: "x = e \<or> ep_id x \<noteq> ep_id e" if "x \<in> set (route_endpoints (e_route env))" for x
      using route_endpoint_distinct [OF es] that e(1) by (metis option.inject)
    have "\<exists>a''. attach_loop n env params r gucs startup hint a' = (Attached, a'')"
    proof (rule Suc.IH [OF a'(2)])
      show "group_wf (fo_group (failed_ctx clock (ep_id e) c))" using group_wf_report_failure [OF Suc.prems(2)] by simp
      show "brief W (fo_group (failed_ctx clock (ep_id e) c))" using Suc.prems(3) by simp
      show "\<forall>k < 2 * n. clock (fo_reads (failed_ctx clock (ep_id e) c) + k) \<in> W"
        using Suc.prems(4) by (metis add.assoc failed_ctx_fields(2) mult_Suc_right nat_add_left_cancel_less)
      show "\<forall>x\<in>set (route_endpoints (e_route env)).
          endpoint_down env params (a_world a') x \<or> endpoint_up env params r gucs startup (a_world a') x"
        using same a'(3) Suc.prems(5) endpoint_other_world [OF a'(4)] by blast
      show "endpoint_up env params r gucs startup (a_world a') star"
        using endpoint_other_world(2) [OF a'(4) ne] Suc.prems(6) by simp
      show "\<forall>now\<in>W. is_alive now (fo_group (failed_ctx clock (ep_id e) c)) (ep_id star)" using Suc.prems(7) ne
        by (simp add: is_alive_def split: option.splits health.splits)
      show "wasted W (fo_group (failed_ctx clock (ep_id e) c)) (connect_fails env params) (route_endpoints (e_route env)) < n"
        using wasted_failure [where dn = "connect_fails env params", OF es e(1) fails Suc.prems(2,3) e(2) W] Suc.prems(8) by simp
    qed
    with a'(1) show ?thesis by simp
  qed
qed

lemma wasted_bound:
  assumes "star \<in> set es" "\<not> dn star" "1 \<le> failure_threshold g" "unat (failure_threshold g) \<le> m"
  shows "wasted W g dn es + m \<le> m * length es"
  using assms(1)
proof (induction es)
  case Nil
  then show ?case by simp
next
  case (Cons x es)
  have c: "(if dn x then chances W g (ep_id x) else 0) \<le> m"
    using chances_le [OF assms(3), of W "ep_id x"] assms(4) by simp
  show ?case
  proof (cases "star \<in> set es")
    case True
    with Cons.IH c show ?thesis by (simp add: wasted_def)
  next
    case False
    with Cons.prems assms(2) have "x = star" by simp
    moreover have "wasted W g dn es \<le> m * length es"
    proof (induction es)
      case (Cons y es)
      with chances_le [OF assms(3), of W "ep_id y"] assms(4) show ?case by (simp add: wasted_def)
    qed (simp add: wasted_def)
    ultimately show ?thesis using assms(2) by (simp add: wasted_def)
  qed
qed

text \<open>
  Property C9. Failover reaches a live endpoint: with \<^verbatim>\<open>FailoverRouter\<close> at its default threshold of two
  (or one), a session gets attached as long as one configured endpoint is up and not marked dead, however many
  of the others are down - \<^verbatim>\<open>ensure_attached\<close>'s attempts, two per endpoint, are enough to mark every dead
  endpoint before giving up. What it takes is that the attempts together take less than \<^verbatim>\<open>revive_after\<close>: any two of the
  clock readings of the loop lie closer together, so that an endpoint it has marked dead stays dead until the end. No
  other session reports to the group meanwhile.
\<close>

theorem failover_attach_reaches_live:
  assumes "distinct (map ep_id (route_endpoints (e_route env)))"
    and "uses_failover clock c (a_hooks a)" "group_wf (fo_group c)" "failure_threshold (fo_group c) \<le> 2"
    and "\<And>m n. m < 2 * attach_attempts (e_route env) \<Longrightarrow> n < 2 * attach_attempts (e_route env) \<Longrightarrow>
       elapsed (clock (fo_reads c + n)) (clock (fo_reads c + m)) < revive_after (fo_group c)"
    and "a_lease a = None"
    and "\<forall>e\<in>set (route_endpoints (e_route env)).
       endpoint_down env params (a_world a) e \<or> endpoint_up env params r gucs startup (a_world a) e"
    and "star \<in> set (route_endpoints (e_route env))" "endpoint_up env params r gucs startup (a_world a) star"
    and "\<And>n. n < 2 * attach_attempts (e_route env) \<Longrightarrow> is_alive (clock (fo_reads c + n)) (fo_group c) (ep_id star)"
  shows "\<exists>a'. ensure_attached env params r gucs startup hint a = (Attached, a')"
proof -
  let ?W = "(\<lambda>k. clock (fo_reads c + k)) ` {..< 2 * attach_attempts (e_route env)}"
  have th: "1 \<le> failure_threshold (fo_group c)" using assms(3) by (simp add: group_wf_def)
  have "unat (failure_threshold (fo_group c)) \<le> 2" using assms(4) by (simp add: word_le_nat_alt)
  note bound = wasted_bound [where dn = "connect_fails env params" and W = ?W, OF assms(8) up_not_failing [OF assms(9)] th this]
  have "2 * length (route_endpoints (e_route env)) \<le> attach_attempts (e_route env)" by (simp add: attach_attempts_def)
  with bound have few: "wasted ?W (fo_group c) (connect_fails env params) (route_endpoints (e_route env)) < attach_attempts (e_route env)"
    by linarith
  have "brief ?W (fo_group c)" using assms(5) by (auto simp: brief_def)
  moreover have "\<forall>k < 2 * attach_attempts (e_route env). clock (fo_reads c + k) \<in> ?W" by auto
  moreover have "\<forall>now\<in>?W. is_alive now (fo_group c) (ep_id star)" using assms(10) by auto
  ultimately show ?thesis
    using failover_loop [OF assms(1,8,2,3) _ _ assms(7,9) _ few] assms(6) by (simp add: ensure_attached_def)
qed

definition sample_endpoint :: "string \<Rightarrow> endpoint_config" where
  "sample_endpoint i = \<lparr>ep_id = i, ep_upstream = i, ep_password = None, ep_tls = None\<rparr>"

definition sample_route :: route_config where
  "sample_route = \<lparr>route_name = ''main'', route_endpoints = [sample_endpoint ''a'', sample_endpoint ''b''],
     route_password = None, route_tls = upstream_tls_default\<rparr>"

definition sample_env :: "(server_phase \<times> tx_status) env" where
  "sample_env = \<lparr>e_ops = sample_ops, e_clock = (\<lambda>n. n),
     e_connect = (\<lambda>args t. if ca_connstring args = ''a'' then Fail UnexpectedEOF else Done (sample_conn Quiet Idle)),
     e_codec = \<lparr>err_into = (\<lambda>e. [(CHR ''C'', code e), (CHR ''M'', message e)]), err_from = (\<lambda>f. error_info_new [] [] [])\<rparr>,
     e_route = sample_route, e_pool_config = pool_config_default\<rparr>"

definition sample_params :: session_params where
  "sample_params = \<lparr>sp_user = ''u'', sp_database = None, sp_replication = False\<rparr>"

definition sample_world :: "(server_phase \<times> tx_status) world" where
  "sample_world = \<lparr>w_pools = Map.empty, w_tick = 0\<rparr>"

definition sample_downstream :: downstream where
  "sample_downstream = \<lparr>ds_sent = [], ds_status = Idle, ds_results = [], ds_closed = False\<rparr>"

definition sample_attach :: "endpoint_group \<Rightarrow> (server_phase \<times> tx_status, failover_ctx) attach_state" where
  "sample_attach g = \<lparr>a_world = sample_world, a_ds = sample_downstream,
     a_hooks = Some (session_hooks_new 0 (failover_router (\<lambda>n. n) g)), a_lease = None, a_dirty = False, a_endpoint = None\<rparr>"

lemma sample_prepare:
  "prepare_lease sample_ops [] [] Map.empty l dirty = Ready (l_conn l) dirty"
  by (simp add: prepare_lease_def sync_startup_parameters_def TRACKED_STARTUP_PARAMETERS_def replay_statements_def)

lemma sample_failover: "uses_failover clock \<lparr>fo_group = g, fo_reads = 0\<rparr> (Some (session_hooks_new t (failover_router clock g)))"
  by (simp add: uses_failover_def session_hooks_new_def failover_router_def default_hooks_def)

lemma sample_endpoints:
  "endpoint_down sample_env sample_params sample_world (sample_endpoint ''a'')"
  "endpoint_up sample_env sample_params [] [] Map.empty sample_world (sample_endpoint ''b'')"
  by (auto simp: endpoint_down_def endpoint_up_def pool_ready_def sample_env_def sample_world_def sample_endpoint_def
      make_factory_for_def sample_prepare)

theorem failover_attach_reaches_live_witness:
  "\<exists>a'. ensure_attached sample_env sample_params [] [] Map.empty None (sample_attach (group_new [''a'', ''b''])) = (Attached, a')"
proof (rule failover_attach_reaches_live [where clock = "\<lambda>n. n" and c = "\<lparr>fo_group = group_new [''a'', ''b''], fo_reads = 0\<rparr>"
      and star = "sample_endpoint ''b''"])
  show "uses_failover (\<lambda>n. n) \<lparr>fo_group = group_new [''a'', ''b''], fo_reads = 0\<rparr> (a_hooks (sample_attach (group_new [''a'', ''b''])))"
    using sample_failover [of "\<lambda>n. n" "group_new [''a'', ''b'']" 0] by (simp add: sample_attach_def)
  show "group_wf (fo_group \<lparr>fo_group = group_new [''a'', ''b''], fo_reads = 0\<rparr>)" by (simp add: group_wf_new)
qed (use sample_endpoints in \<open>auto simp: sample_env_def sample_route_def sample_attach_def group_new_def is_alive_def
    DEFAULT_FAILURE_THRESHOLD_def DEFAULT_REVIVE_AFTER_def from_secs_def sample_endpoint_def attach_attempts_def elapsed_def\<close>)

definition sample_env_b :: "(server_phase \<times> tx_status) env" where
  "sample_env_b = sample_env\<lparr>e_route := sample_route\<lparr>route_endpoints := [sample_endpoint ''b'']\<rparr>\<rparr>"

definition sample_plain :: "(server_phase \<times> tx_status, unit) attach_state" where
  "sample_plain = \<lparr>a_world = sample_world, a_ds = sample_downstream, a_hooks = None, a_lease = None,
     a_dirty = False, a_endpoint = None\<rparr>"

lemma sample_plain_attached:
  "fst (ensure_attached sample_env_b sample_params [] [] Map.empty None sample_plain) = Attached"
  by (simp add: ensure_attached_def sample_plain_def sample_env_b_def sample_env_def attach_attempts_def sample_route_def
      numeral_2_eq_2 attach_turn_def dispatch_upstream_def default_endpoint_def route_endpoint_def sample_endpoint_def
      attach_endpoint_def resolve_pool_def get_or_create_def sample_world_def Let_def checkout_def pool_new_def capacity_def
      pool_config_default_def checkout_loop_Nil finish_checkout_def make_factory_for_def attach_prepared_def sample_prepare)

theorem attach_accounts_for_permits_witness:
  "\<exists>h. a_lease (snd (ensure_attached sample_env_b sample_params [] [] Map.empty None sample_plain)) = Some h \<and>
     leased_out (h_key h) (a_world (snd (ensure_attached sample_env_b sample_params [] [] Map.empty None sample_plain))) = 1"
proof -
  let ?r = "ensure_attached sample_env_b sample_params [] [] Map.empty None sample_plain"
  have "?r = (Attached, snd ?r)" using sample_plain_attached by (metis prod.collapse)
  from attach_accounts_for_permits [OF _ _ this] show ?thesis
    by (auto simp: attach_contract_def world_wf_def sample_plain_def sample_world_def leased_out_def)
qed

text \<open>
  The endpoints the attach loop goes through when every attempt fails: \<open>n\<close> picks, each failure reported before
  the next.
\<close>

fun failed_picks :: "(nat \<Rightarrow> instant) \<Rightarrow> routing_info \<Rightarrow> nat \<Rightarrow> failover_ctx \<Rightarrow> endpoint_id list" where
  "failed_picks clock info 0 c = []"
| "failed_picks clock info (Suc n) c =
     (let i = failover_upstream (clock (fo_reads c)) (fo_group c) info in i # failed_picks clock info n (failed_ctx clock i c))"

lemma failed_picks_refused:
  assumes es: "distinct (map ep_id (route_endpoints (e_route env)))"
    and info: "info = \<lparr>ri_endpoints = route_endpoints (e_route env), ri_user = sp_user params,
         ri_database = sp_database params, ri_sql = hint\<rparr>"
  shows "uses_failover clock c (a_hooks a) \<Longrightarrow>
    (\<forall>i\<in>set (failed_picks clock info n c). \<exists>e\<in>set (route_endpoints (e_route env)). ep_id e = i \<and> endpoint_down env params (a_world a) e) \<Longrightarrow>
    \<exists>a'. attach_loop n env params r gucs startup hint a = (Refused, a')"
proof (induction n arbitrary: a c)
  case (Suc n)
  obtain e where e: "e \<in> set (route_endpoints (e_route env))" "failover_upstream (clock (fo_reads c)) (fo_group c) info = ep_id e"
    "endpoint_down env params (a_world a) e" using Suc.prems(2) by (auto simp: Let_def)
  obtain a' where a': "attach_turn env params r gucs startup hint a = (Again, a')"
    "uses_failover clock (failed_ctx clock (ep_id e) c) (a_hooks a')" "endpoint_down env params (a_world a') e"
    "\<forall>k. k \<noteq> pool_key_for (e_route env) params e \<longrightarrow> w_pools (a_world a') k = w_pools (a_world a) k"
    using failover_turn_down [OF Suc.prems(1) _ route_endpoint_distinct [OF es e(1)] e(3)] e(2) unfolding info by blast
  have "endpoint_down env params (a_world a') x" if "endpoint_down env params (a_world a) x" "x \<in> set (route_endpoints (e_route env))" for x
    using that a'(3) endpoint_other_world(1) [OF a'(4)] route_endpoint_distinct [OF es] e(1) by (metis option.inject)
  with Suc.prems(2) e(2) have "\<forall>i\<in>set (failed_picks clock info n (failed_ctx clock (ep_id e) c)).
      \<exists>x\<in>set (route_endpoints (e_route env)). ep_id x = i \<and> endpoint_down env params (a_world a') x"
    unfolding failed_picks.simps Let_def by (metis list.set_intros(2))
  from Suc.IH [OF a'(2) this] a'(1) show ?case by simp
qed simp

lemma failed_picks_first:
  assumes "ri_endpoints info = primary # es" "group_wf (fo_group c)" "n \<le> failures_left (fo_group c) (ep_id primary)"
  shows "set (failed_picks clock info n c) \<subseteq> {ep_id primary}"
  using assms(2,3)
proof (induction n arbitrary: c)
  case (Suc n)
  have "is_alive (clock (fo_reads c)) (fo_group c) (ep_id primary)" using Suc.prems(2) by (intro failures_left_pos_alive) simp
  then have p: "failover_upstream (clock (fo_reads c)) (fo_group c) info = ep_id primary"
    using assms(1) by (simp add: failover_upstream_def select_first_alive_def)
  have "n \<le> failures_left (fo_group (failed_ctx clock (ep_id primary) c)) (ep_id primary)"
    using failures_left_failure [OF Suc.prems(1)] Suc.prems(2) by simp
  with Suc.IH [of "failed_ctx clock (ep_id primary) c"] group_wf_report_failure [OF Suc.prems(1)] p show ?case by (simp add: Let_def)
qed simp

text \<open>
  Lemma. The bound on the threshold in the previous property is needed: the number of attempts does
  not depend on the configured threshold, so with a threshold of at least twice the number of
  endpoints a session is refused while the first endpoint is down, even when every other endpoint is
  up - all attempts are spent on the first one before it is marked dead.
\<close>

theorem high_threshold_exhausts_attempts:
  assumes "route_endpoints (e_route env) = primary # es" "distinct (map ep_id (primary # es))"
    and "uses_failover clock c (a_hooks a)" "group_wf (fo_group c)" "endpoint_down env params (a_world a) primary"
    and "attach_attempts (e_route env) \<le> failures_left (fo_group c) (ep_id primary)" "a_lease a = None"
  shows "\<exists>a'. ensure_attached env params r gucs startup hint a = (Refused, a')"
proof -
  let ?info = "\<lparr>ri_endpoints = route_endpoints (e_route env), ri_user = sp_user params, ri_database = sp_database params, ri_sql = hint\<rparr>"
  have "set (failed_picks clock ?info (attach_attempts (e_route env)) c) \<subseteq> {ep_id primary}"
    using failed_picks_first [OF _ assms(4,6), of ?info es clock] assms(1) by simp
  with assms(1,5) have "\<forall>i\<in>set (failed_picks clock ?info (attach_attempts (e_route env)) c).
      \<exists>e\<in>set (route_endpoints (e_route env)). ep_id e = i \<and> endpoint_down env params (a_world a) e" by auto
  from failed_picks_refused [OF _ refl assms(3) this] assms(1,2,7) show ?thesis by (simp add: ensure_attached_def)
qed

definition sample_group5 :: endpoint_group where
  "sample_group5 = with_failure_threshold 5 (group_new [''a'', ''b''])"

lemma sample_group5_wf: "group_wf sample_group5"
  by (auto simp: sample_group5_def with_failure_threshold_def group_wf_def group_new_def map_of_constant max_def split: if_splits)

theorem high_threshold_exhausts_attempts_witness:
  "\<exists>a'. ensure_attached sample_env sample_params [] [] Map.empty None (sample_attach sample_group5) = (Refused, a')"
proof (rule high_threshold_exhausts_attempts [where primary = "sample_endpoint ''a''" and es = "[sample_endpoint ''b'']" and clock = "\<lambda>n. n"
      and c = "\<lparr>fo_group = sample_group5, fo_reads = 0\<rparr>"])
  show "uses_failover (\<lambda>n. n) \<lparr>fo_group = sample_group5, fo_reads = 0\<rparr> (a_hooks (sample_attach sample_group5))"
    using sample_failover [of "\<lambda>n. n" sample_group5 0] by (simp add: sample_attach_def)
  show "group_wf (fo_group \<lparr>fo_group = sample_group5, fo_reads = 0\<rparr>)" using sample_group5_wf by simp
  show "endpoint_down sample_env sample_params (a_world (sample_attach sample_group5)) (sample_endpoint ''a'')"
    using sample_endpoints(1) by (simp add: sample_attach_def)
  have "failures_left sample_group5 ''a'' = 5"
    by (simp add: failures_left_def sample_group5_def with_failure_threshold_def group_new_def max_def word_le_nat_alt)
  then show "attach_attempts (e_route sample_env) \<le> failures_left (fo_group \<lparr>fo_group = sample_group5, fo_reads = 0\<rparr>) (ep_id (sample_endpoint ''a''))"
    by (simp add: sample_env_def sample_route_def attach_attempts_def sample_endpoint_def)
qed (simp_all add: sample_env_def sample_route_def sample_attach_def sample_endpoint_def)

text \<open>
  Property C10. The time bound of the failover property is needed. With three endpoints and a group of default settings, when the first two are down
  and every connect to them takes a minute to fail (nothing bounds a connect, and an endpoint marked dead revives after 30 s), a session is
  refused although the third endpoint may be up: the loop tries the first, the first, the second, then again the first, which has
  revived meanwhile, and never gets to the third within its six attempts.
\<close>

theorem slow_connects_miss_live_endpoint:
  assumes "route_endpoints (e_route env) = [a, b, c]" "distinct [ep_id a, ep_id b, ep_id c]"
    and "uses_failover (\<lambda>n. from_secs (60 * ((n + 1) div 2))) \<lparr>fo_group = group_from_endpoints [a, b, c], fo_reads = 0\<rparr> (a_hooks at)"
    and "endpoint_down env params (a_world at) a" "endpoint_down env params (a_world at) b" "a_lease at = None"
  shows "\<exists>at'. ensure_attached env params r gucs startup hint at = (Refused, at')"
proof -
  let ?info = "\<lparr>ri_endpoints = route_endpoints (e_route env), ri_user = sp_user params, ri_database = sp_database params, ri_sql = hint\<rparr>"
  let ?six = "Suc (Suc (Suc (Suc (Suc (Suc 0)))))"
  let ?clk = "\<lambda>n. from_secs (60 * ((n + 1) div 2))"
  define G where "G ha hb = \<lparr>health = [ep_id a \<mapsto> ha, ep_id b \<mapsto> hb, ep_id c \<mapsto> Alive 0],
      failure_threshold = 2, revive_after = from_secs 30\<rparr>" for ha hb
  have new: "group_from_endpoints [a, b, c] = G (Alive 0) (Alive 0)"
    using assms(2) by (auto simp: G_def group_from_endpoints_def group_new_def DEFAULT_FAILURE_THRESHOLD_def DEFAULT_REVIVE_AFTER_def)
  have fail: "report_failure now (ep_id a) (G ha hb) = G (case ha of Alive f \<Rightarrow> if f + 1 \<ge> 2 then Dead now else Alive (f + 1) | _ \<Rightarrow> Dead now) hb"
    "report_failure now (ep_id b) (G ha hb) = G ha (case hb of Alive f \<Rightarrow> if f + 1 \<ge> 2 then Dead now else Alive (f + 1) | _ \<Rightarrow> Dead now)" for now ha hb
    using assms(2) by (auto simp: G_def report_failure_def Let_def fun_upd_twist split: health.splits)
  have pick: "failover_upstream now (G ha hb) ?info =
      (if (case ha of Alive f \<Rightarrow> True | Dead s \<Rightarrow> elapsed now s \<ge> from_secs 30) then ep_id a
       else if (case hb of Alive f \<Rightarrow> True | Dead s \<Rightarrow> elapsed now s \<ge> from_secs 30) then ep_id b else ep_id c)" for now ha hb
    using assms(1,2) by (auto simp: G_def failover_upstream_def select_first_alive_def is_alive_def split: health.splits)
  have "failed_picks ?clk ?info ?six \<lparr>fo_group = G (Alive 0) (Alive 0), fo_reads = 0\<rparr> =
      [ep_id a, ep_id a, ep_id b, ep_id a, ep_id b, ep_id a]"
    by (simp add: pick fail failed_ctx_def from_secs_def elapsed_def Let_def word_le_nat_alt)
  then have "\<forall>i\<in>set (failed_picks ?clk ?info ?six \<lparr>fo_group = group_from_endpoints [a, b, c], fo_reads = 0\<rparr>).
      \<exists>e\<in>set (route_endpoints (e_route env)). ep_id e = i \<and> endpoint_down env params (a_world at) e"
    using assms(1,4,5) new by auto
  from failed_picks_refused [OF _ refl assms(3) this] assms(1,2,6) show ?thesis by (simp add: ensure_attached_def attach_attempts_def eval_nat_numeral)
qed

text \<open>
  The witness: three endpoints of which the third is up for this session.
\<close>

definition sample_env_slow :: "(server_phase \<times> tx_status) env" where
  "sample_env_slow = sample_env\<lparr>e_connect := (\<lambda>args t. if ca_connstring args = ''c'' then Done (sample_conn Quiet Idle) else Fail UnexpectedEOF),
     e_route := sample_route\<lparr>route_endpoints := map sample_endpoint [''a'', ''b'', ''c'']\<rparr>\<rparr>"

definition sample_slow :: "(server_phase \<times> tx_status, failover_ctx) attach_state" where
  "sample_slow = (sample_attach (group_new []))\<lparr>a_hooks := Some (session_hooks_new 0
     (failover_router (\<lambda>n. from_secs (60 * ((n + 1) div 2))) (group_from_endpoints (map sample_endpoint [''a'', ''b'', ''c'']))))\<rparr>"

theorem slow_connects_miss_live_endpoint_witness:
  "endpoint_up sample_env_slow sample_params [] [] Map.empty (a_world sample_slow) (sample_endpoint ''c'') \<and>
   (\<exists>at'. ensure_attached sample_env_slow sample_params [] [] Map.empty None sample_slow = (Refused, at'))"
proof
  show "endpoint_up sample_env_slow sample_params [] [] Map.empty (a_world sample_slow) (sample_endpoint ''c'')"
    by (auto simp: endpoint_up_def pool_ready_def sample_env_slow_def sample_env_def sample_slow_def sample_attach_def sample_world_def
        sample_endpoint_def make_factory_for_def sample_prepare)
  show "\<exists>at'. ensure_attached sample_env_slow sample_params [] [] Map.empty None sample_slow = (Refused, at')"
    by (rule slow_connects_miss_live_endpoint [of _ "sample_endpoint ''a''" "sample_endpoint ''b''" "sample_endpoint ''c''"],
        insert sample_failover [of "\<lambda>n. from_secs (60 * ((n + 1) div 2))" "group_from_endpoints (map sample_endpoint [''a'', ''b'', ''c''])" 0])
      (auto simp: sample_env_slow_def sample_env_def sample_slow_def sample_attach_def sample_endpoint_def sample_route_def
        endpoint_down_def pool_ready_def sample_world_def make_factory_for_def)
qed

section \<open>Startup parameters outlive the session\<close>

lemma sync_startup_cached:
  assumes "set_is_local ops" "sync_startup_parameters ops sp l = (Done u, l')" "n \<in> set TRACKED_STARTUP_PARAMETERS" "sp n = Some v"
  shows "cached_parameter (l_conn l') n = v" "l_created_at l' = l_created_at l"
proof -
  obtain c' where c': "sync_parameters ops TRACKED_STARTUP_PARAMETERS sp (l_conn l) = (Done u, c')" "l' = l\<lparr>l_conn := c'\<rparr>"
    using assms(2) by (auto simp: sync_startup_parameters_def split: prod.splits)
  have "distinct TRACKED_STARTUP_PARAMETERS" "list_all (\<lambda>n. CHR '' '' \<notin> set n) TRACKED_STARTUP_PARAMETERS"
    by (simp_all add: TRACKED_STARTUP_PARAMETERS_def)
  from sync_parameters_spec [OF assms(1) this c'(1)] c'(2) assms(3,4)
  show "cached_parameter (l_conn l') n = v" "l_created_at l' = l_created_at l" by auto
qed

text \<open>
  Property C40. Setting a session's startup parameters on a connection does not mark it dirty: with nothing
  else to replay, preparing a clean lease leaves it clean, so the detach at the end of the transaction
  runs no DISCARD ALL. The connection is parked with the session's \<^verbatim>\<open>application_name\<close> (or
  \<^verbatim>\<open>client_encoding\<close>), and the pool's baseline - what later clients of the pool are told in their
  handshake - takes it over.
\<close>

theorem startup_parameters_outlive_session:
  assumes "set_is_local ops" "sync_startup_parameters ops sp l = (Done u, l')"
    and "n \<in> set TRACKED_STARTUP_PARAMETERS" "sp n = Some v"
    and "elapsed (clock t) (l_created_at l) \<le> max_lifetime (p_config p)"
  shows "prepare_lease ops [] [] sp l False = Ready (l_conn l') False \<and>
    (\<exists>t' p' m pk. checkin_detached ops clock False l' t p = (t', p') \<and> p_baseline p' = Some m \<and>
       (case m n of Some x \<Rightarrow> x | None \<Rightarrow> []) = v \<and> p_idle p' = p_idle p @ [pk] \<and> cached_parameter (pk_conn pk) n = v)"
proof -
  note c = sync_startup_cached [OF assms(1-4)]
  have "prepare_lease ops [] [] sp l False = Ready (l_conn l') False"
    using assms(2) by (simp add: prepare_lease_def replay_statements_def)
  moreover have "\<not> elapsed (clock t) (l_created_at l') > max_lifetime (p_config p)" using assms(5) c(2) by simp
  ultimately show ?thesis
    using c(1) by (simp add: checkin_detached_def park_or_evict_def Let_def pool_simps cached_parameter_def)
qed

theorem startup_parameters_outlive_session_witness:
  "\<exists>l' t' p' m. checkin_detached sample_ops (\<lambda>n. 5) False l' 0 (sample_pool []) = (t', p') \<and> p_baseline p' = Some m \<and>
     (case m ''application_name'' of Some x \<Rightarrow> x | None \<Rightarrow> []) = ''psql''"
proof -
  obtain l' where ok: "sync_startup_parameters sample_ops [''application_name'' \<mapsto> ''psql''] (sample_lease 4) = (Done (), l')"
    by (simp add: sync_startup_parameters_def TRACKED_STARTUP_PARAMETERS_def set_parameter_def sample_ops_def
        sample_query_def sample_lease_def sample_conn_def Let_def)
  have n: "''application_name'' \<in> set TRACKED_STARTUP_PARAMETERS" by (simp add: TRACKED_STARTUP_PARAMETERS_def)
  from startup_parameters_outlive_session [OF sample_set_is_local ok n,
      where v = "''psql''" and clock = "\<lambda>n. 5" and t = 0 and p = "sample_pool []"]
  show ?thesis
    by (auto simp: elapsed_def sample_lease_def sample_pool_def pool_new_def pool_config_default_def from_secs_def)
qed

end
