(* ===== verification/Scatter.thy ===== *)
theory Scatter
  imports Attach
begin

text \<open>
  Scatter-gather (src/crates/pgferry/src/scatter.rs): shard sets, one leg's query cycle, and the
  execution of a scatter request with its two merge policies.

  The legs run concurrently in the code. They touch each other only through the pools, so the model
  runs them one after the other in the order in which they complete; that order, and how far a leg
  had come when the first failure drops it, are given by a schedule. The hash of a shard key (SipHash
  with a per-process key) is a parameter.
\<close>

section \<open>Shard sets\<close>

definition shard_for :: "(string \<Rightarrow> u64) \<Rightarrow> endpoint_id list \<Rightarrow> string \<Rightarrow> endpoint_id outcome" where
  "shard_for hash shards key =
     (if shards = [] then Panic else Ret (shards ! (unat (hash key) mod length shards)))"

definition broadcast :: "endpoint_id list \<Rightarrow> string \<Rightarrow> merge_policy \<Rightarrow> string \<Rightarrow> action" where
  "broadcast shards sql merge tag =
     Scatter \<lparr>sr_legs = map (\<lambda>ep. \<lparr>leg_endpoint = ep, leg_sql = sql\<rparr>) shards, sr_merge = merge, sr_tag = tag\<rparr>"

section \<open>One leg\<close>

record collected =
  co_messages :: "backend_msg list"
  co_rows :: u64
  co_error :: "error_info option"
  co_dirty :: bool
  co_broken :: bool

definition collected_new :: collected where
  "collected_new = \<lparr>co_messages = [], co_rows = 0, co_error = None, co_dirty = False, co_broken = False\<rparr>"

text \<open>Reading a leg's cycle; \<open>None\<close> while the server stays silent.\<close>

fun collect_items :: "err_codec \<Rightarrow> recv list \<Rightarrow> collected \<Rightarrow> 's conn \<Rightarrow> collected option \<times> 's conn" where
  "collect_items cod [] acc c =
     ((if at_eof c then Some (acc\<lparr>co_broken := True\<rparr>) else None), c\<lparr>inbox := []\<rparr>)"
| "collect_items cod (RErr e # items) acc c = (Some (acc\<lparr>co_broken := True\<rparr>), c\<lparr>inbox := items\<rparr>)"
| "collect_items cod (RMsg m # items) acc c =
     (case m of
        BReadyForQuery st \<Rightarrow> (Some acc, (set_transaction_status st c)\<lparr>inbox := items\<rparr>)
      | BParameterStatus k v \<Rightarrow> collect_items cod items (acc\<lparr>co_dirty := True\<rparr>) (set_server_parameter k v c)
      | BErrorResponse er \<Rightarrow> collect_items cod items (acc\<lparr>co_error := Some (err_from cod er)\<rparr>) c
      | BDataRow _ \<Rightarrow>
          collect_items cod items (acc\<lparr>co_rows := co_rows acc + 1, co_messages := co_messages acc @ [m]\<rparr>) c
      | _ \<Rightarrow> collect_items cod items (acc\<lparr>co_messages := co_messages acc @ [m]\<rparr>) c)"

definition run_query_collect ::
    "'s client_ops \<Rightarrow> err_codec \<Rightarrow> string \<Rightarrow> 's conn \<Rightarrow> collected option \<times> 's conn" where
  "run_query_collect ops cod sql c =
     (case conn_send ops (FQuery sql) c of
        (Some _, c1) \<Rightarrow> (Some (collected_new\<lparr>co_broken := True\<rparr>), c1)
      | (None, c1) \<Rightarrow> collect_items cod (inbox c1) collected_new c1)"

record 's leg_outcome =
  lo_endpoint :: endpoint_id
  lo_messages :: "backend_msg list"
  lo_rows :: u64
  lo_error :: "error_info option"
  lo_lease :: "'s held option"
  lo_broken :: bool
  lo_dirty :: bool

definition leg_connect_failed :: "'s client_ops \<Rightarrow> endpoint_id \<Rightarrow> client_error \<Rightarrow> 's leg_outcome" where
  "leg_connect_failed ops i e =
     \<lparr>lo_endpoint = i, lo_messages = [], lo_rows = 0,
      lo_error = Some (error_info_new ''ERROR'' ''08006'' (''connect to shard failed: '' @ op_show_error ops e)),
      lo_lease = None, lo_broken = True, lo_dirty = False\<rparr>"

definition leg_finished :: "endpoint_id \<Rightarrow> collected \<Rightarrow> 's held option \<Rightarrow> 's leg_outcome" where
  "leg_finished i co h =
     \<lparr>lo_endpoint = i, lo_messages = co_messages co, lo_rows = co_rows co, lo_error = co_error co,
      lo_lease = h, lo_broken = co_broken co, lo_dirty = co_dirty co\<rparr>"

text \<open>\<^verbatim>\<open>run_leg_pooled\<close> on the pool with key \<open>key\<close>; \<open>None\<close> when the leg stays suspended.\<close>

definition leg_on_lease ::
    "'s env \<Rightarrow> (string \<rightharpoonup> string) \<Rightarrow> endpoint_id \<Rightarrow> string \<Rightarrow> pool_key \<Rightarrow> 's lease \<Rightarrow> 's world \<Rightarrow>
       's leg_outcome option \<times> 's world" where
  "leg_on_lease env startup i sql key l w =
     (case sync_startup_parameters (e_ops env) startup l of
        (Blocked, l1) \<Rightarrow> (None, w)
      | (Fail e, l1) \<Rightarrow>
          (Some (leg_connect_failed (e_ops env) i e), lease_destroy \<lparr>h_lease = l1, h_key = key\<rparr> w)
      | (Done _, l1) \<Rightarrow>
          (case run_query_collect (e_ops env) (e_codec env) sql (l_conn l1) of
             (None, c) \<Rightarrow> (None, w)
           | (Some co, c) \<Rightarrow>
               (let h = \<lparr>h_lease = l1\<lparr>l_conn := c\<rparr>, h_key = key\<rparr>
                in if co_broken co then (Some (leg_finished i co None), lease_destroy h w)
                   else (Some (leg_finished i co (Some h)), w))))"

definition run_leg_pooled ::
    "'s env \<Rightarrow> (string \<rightharpoonup> string) \<Rightarrow> endpoint_id \<Rightarrow> string \<Rightarrow> pool_key \<Rightarrow> 's world \<Rightarrow> 's leg_outcome option \<times> 's world" where
  "run_leg_pooled env startup i sql key w =
     (case w_pools w key of
        None \<Rightarrow> (None, w)
      | Some p \<Rightarrow>
          (let (res, t, p) = checkout (e_ops env) (e_clock env) (e_connect env) (w_tick w) p;
               w = w\<lparr>w_pools := (w_pools w)(key \<mapsto> p), w_tick := t\<rparr>
           in case res of
                Blocked \<Rightarrow> (None, w)
              | Fail e \<Rightarrow> (Some (leg_connect_failed (e_ops env) i e), w)
              | Done l \<Rightarrow> leg_on_lease env startup i sql key l w))"

section \<open>Merging\<close>

fun concat_rows :: "bool \<Rightarrow> backend_msg list \<Rightarrow> backend_msg list" where
  "concat_rows written [] = []"
| "concat_rows written (m # ms) =
     (case m of
        BRowDescription rd \<Rightarrow> (if written then concat_rows True ms else m # concat_rows True ms)
      | BDataRow row \<Rightarrow> m # concat_rows written ms
      | _ \<Rightarrow> concat_rows written ms)"

definition str_bytes :: "string \<Rightarrow> u8 list" where
  "str_bytes s = map (\<lambda>c. of_nat (of_char c)) s"

definition bytes_str :: "u8 list \<Rightarrow> string" where
  "bytes_str bs = map (\<lambda>b. char_of (unat b)) bs"

text \<open>\<^verbatim>\<open>str::parse::<i128>\<close>: an optional sign, at least one digit, and a value in range.\<close>

definition parse_i128 :: "string \<Rightarrow> int option" where
  "parse_i128 s =
     (let (neg, digits) = (case s of [] \<Rightarrow> (False, [])
                           | c # cs \<Rightarrow> if c = CHR ''-'' then (True, cs) else if c = CHR ''+'' then (False, cs) else (False, s))
      in case parse_nat digits of
           None \<Rightarrow> None
         | Some n \<Rightarrow>
             (let v = (if neg then - int n else int n)
              in if - (2 ^ 127) \<le> v \<and> v < 2 ^ 127 then Some v else None))"

definition first_column_i128 :: "data_row \<Rightarrow> int option outcome" where
  "first_column_i128 row =
     (case get_i32 (row_data row) of
        Panic \<Rightarrow> Panic
      | Ret (len, rest) \<Rightarrow>
          if sint len < 0 then Ret None
          else if unat len > length rest then Panic
          else (let bytes = take (unat len) rest
                in Ret (if valid_utf8 bytes then parse_i128 (trim (bytes_str bytes)) else None)))"

text \<open>The running total is an \<^verbatim>\<open>i128\<close>, which wraps in a release build.\<close>

definition wrap_i128 :: "int \<Rightarrow> int" where
  "wrap_i128 v = (v + 2 ^ 127) mod 2 ^ 128 - 2 ^ 127"

text \<open>Fold the sources for a sum: the schema seen first and the total, or \<open>None\<close> for a non-numeric row.\<close>

fun sum_rows ::
    "backend_msg list \<Rightarrow> int \<Rightarrow> backend_msg option \<Rightarrow> (int \<times> backend_msg option) option outcome" where
  "sum_rows [] so_far schema = Ret (Some (so_far, schema))"
| "sum_rows (m # ms) so_far schema =
     (case m of
        BRowDescription rd \<Rightarrow> sum_rows ms so_far (case schema of None \<Rightarrow> Some m | Some s \<Rightarrow> Some s)
      | BDataRow row \<Rightarrow>
          (case first_column_i128 row of
             Panic \<Rightarrow> Panic
           | Ret None \<Rightarrow> Ret None
           | Ret (Some v) \<Rightarrow> sum_rows ms (wrap_i128 (so_far + v)) schema)
      | _ \<Rightarrow> sum_rows ms so_far schema)"

definition sum_row :: "int \<Rightarrow> data_row" where
  "sum_row so_far =
     (let text = str_bytes (show_int so_far)
      in \<lparr>row_data = put_i32 (of_nat (length text)) @ text, field_count = 1\<rparr>)"

definition sum_failure :: error_info where
  "sum_failure = error_info_new ''ERROR'' ''0A000'' ''pgferry scatter: Sum merge requires a numeric first column''"

definition conn_gone :: error_info where
  "conn_gone = error_info_new ''ERROR'' ''08006'' ''client connection lost''"

datatype 'a merged = MergedOk 'a | MergeFailed error_info | MergePanic

definition merge_sources ::
    "merge_policy \<Rightarrow> string \<Rightarrow> u64 \<Rightarrow> backend_msg list \<Rightarrow> downstream \<Rightarrow> unit merged \<times> downstream" where
  "merge_sources policy tag total_rows ms d =
     (case policy of
        Concat \<Rightarrow>
          (case ds_send_all (concat_rows False ms @ [BCommandComplete (tag @ '' '' @ show_nat (unat total_rows))]) d of
             (True, d') \<Rightarrow> (MergedOk (), d')
           | (False, d') \<Rightarrow> (MergeFailed conn_gone, d'))
      | Sum \<Rightarrow>
          (case sum_rows ms 0 None of
             Panic \<Rightarrow> (MergePanic, d)
           | Ret None \<Rightarrow> (MergeFailed sum_failure, d)
           | Ret (Some (so_far, schema)) \<Rightarrow>
               (case ds_send_all ((case schema of None \<Rightarrow> [] | Some s \<Rightarrow> [s]) @
                       [BDataRow (sum_row so_far), BCommandComplete (tag @ '' 1'')]) d of
                  (True, d') \<Rightarrow> (MergedOk (), d')
                | (False, d') \<Rightarrow> (MergeFailed conn_gone, d'))))"

section \<open>Execution\<close>

datatype abort_point = NotStarted | Started

record schedule =
  sch_order :: "scatter_leg list \<Rightarrow> scatter_leg list"
  sch_abort :: "scatter_leg \<Rightarrow> abort_point"

definition leg_key :: "'s env \<Rightarrow> session_params \<Rightarrow> scatter_leg \<Rightarrow> pool_key" where
  "leg_key env params leg =
     \<lparr>key_route = route_name (e_route env), key_endpoint = leg_endpoint leg, key_user = sp_user params,
      key_database = sp_database params\<rparr>"

text \<open>Resolve the pools of the legs' endpoints; an endpoint that occurs twice is resolved once.\<close>

fun resolve_legs :: "'s env \<Rightarrow> session_params \<Rightarrow> scatter_leg list \<Rightarrow> 's world \<Rightarrow> 's world" where
  "resolve_legs env params [] w = w"
| "resolve_legs env params (leg # legs) w =
     (case route_endpoint (e_route env) (leg_endpoint leg) of
        None \<Rightarrow> resolve_legs env params legs w
      | Some ep \<Rightarrow> (let (key, p, w') = resolve_pool env params ep w in resolve_legs env params legs w'))"

text \<open>The leg that reuses the session's own lease (the first on its endpoint), and the pooled ones.\<close>

fun partition_legs :: "endpoint_id option \<Rightarrow> bool \<Rightarrow> scatter_leg list \<Rightarrow> scatter_leg option \<times> scatter_leg list" where
  "partition_legs ep has_lease [] = (None, [])"
| "partition_legs ep has_lease (leg # legs) =
     (if ep = Some (leg_endpoint leg) \<and> has_lease then (Some leg, legs)
      else (let (own, pooled) = partition_legs ep has_lease legs in (own, leg # pooled)))"

definition drop_held :: "'s held \<Rightarrow> 's world \<Rightarrow> 's world" where
  "drop_held h = pool_apply (h_key h) (\<lambda>t p. (t, drop_lease (h_lease h) p))"

definition drop_outcome :: "'s leg_outcome \<Rightarrow> 's world \<Rightarrow> 's world" where
  "drop_outcome out w = (case lo_lease out of None \<Rightarrow> w | Some h \<Rightarrow> drop_held h w)"

definition checkin_outcome :: "'s env \<Rightarrow> 's leg_outcome \<Rightarrow> 's world \<Rightarrow> 's world" where
  "checkin_outcome env out w =
     (case lo_lease out of None \<Rightarrow> w | Some h \<Rightarrow> lease_checkin_detached env (lo_dirty out) h w)"

text \<open>
  A leg whose future is dropped: either it was never polled, or it had started its checkout. Dropping it
  then gives back the permit it holds, with a lease or (inside the connect) without one.
\<close>

definition abort_leg ::
    "'s env \<Rightarrow> session_params \<Rightarrow> schedule \<Rightarrow> scatter_leg \<Rightarrow> 's world \<Rightarrow> 's world" where
  "abort_leg env params sch leg w =
     (let key = leg_key env params leg
      in case sch_abort sch leg of
           NotStarted \<Rightarrow> w
         | Started \<Rightarrow>
             (case w_pools w key of
                None \<Rightarrow> w
              | Some p \<Rightarrow>
                  (case checkout (e_ops env) (e_clock env) (e_connect env) (w_tick w) p of
                     (Done l, t, p') \<Rightarrow>
                       drop_held \<lparr>h_lease = l, h_key = key\<rparr> (w\<lparr>w_pools := (w_pools w)(key \<mapsto> p'), w_tick := t\<rparr>)
                   | (Fail e, t, p') \<Rightarrow> w\<lparr>w_pools := (w_pools w)(key \<mapsto> p'), w_tick := t\<rparr>
                   | (Blocked, t, p') \<Rightarrow>
                       w\<lparr>w_pools := (w_pools w)(key \<mapsto> (if p_permits p' < p_permits p then release_permit p' else p')),
                         w_tick := t\<rparr>)))"

definition shard_failed :: "endpoint_id \<Rightarrow> error_info" where
  "shard_failed i = error_info_new ''ERROR'' ''08006'' (''shard '' @ i @ '' failed'')"

text \<open>
  Collect the outcomes in completion order up to the first failure: the failing outcome is dropped with
  whatever lease it still holds, the legs after it are aborted. \<open>None\<close> when a leg stays suspended.
\<close>

fun gather ::
    "'s env \<Rightarrow> session_params \<Rightarrow> schedule \<Rightarrow> (string \<rightharpoonup> string) \<Rightarrow> scatter_leg list \<Rightarrow> 's leg_outcome list \<Rightarrow> 's world \<Rightarrow>
       ('s leg_outcome list \<times> error_info option) option \<times> 's world" where
  "gather env params sch startup [] outs w = (Some (outs, None), w)"
| "gather env params sch startup (leg # legs) outs w =
     (case run_leg_pooled env startup (leg_endpoint leg) (leg_sql leg) (leg_key env params leg) w of
        (None, w1) \<Rightarrow> (None, w1)
      | (Some out, w1) \<Rightarrow>
          if lo_error out \<noteq> None \<or> lo_broken out
          then (let err = (case lo_error out of Some e \<Rightarrow> e | None \<Rightarrow> shard_failed (lo_endpoint out))
                in (Some (outs, Some err), fold (abort_leg env params sch) legs (drop_outcome out w1)))
          else gather env params sch startup legs (outs @ [out]) w1)"

datatype scatter_result =
    ScatterOk u64
  | ScatterFailure error_info bool
  | ScatterStuck
  | ScatterPanic

definition scatter_fail ::
    "'s env \<Rightarrow> 's leg_outcome list \<Rightarrow> error_info \<Rightarrow> 's held option \<Rightarrow> downstream \<Rightarrow> 's world \<Rightarrow>
       scatter_result \<times> 's held option \<times> downstream \<times> 's world" where
  "scatter_fail env outs err slot d w =
     (ScatterFailure err False, slot, d, fold (checkin_outcome env) outs w)"

definition scatter_merge ::
    "'s env \<Rightarrow> scatter_request \<Rightarrow> collected option \<Rightarrow> 's leg_outcome list \<Rightarrow> 's held option \<Rightarrow> downstream \<Rightarrow> 's world \<Rightarrow>
       scatter_result \<times> 's held option \<times> downstream \<times> 's world" where
  "scatter_merge env req own outs slot d w =
     (let total_rows = (case own of None \<Rightarrow> 0 | Some co \<Rightarrow> co_rows co) + sum_list (map lo_rows outs);
          sources = (case own of None \<Rightarrow> [] | Some co \<Rightarrow> co_messages co) @ concat (map lo_messages outs)
      in case merge_sources (sr_merge req) (sr_tag req) total_rows sources d of
           (MergePanic, d') \<Rightarrow> (ScatterPanic, slot, d', w)
         | (MergeFailed e, d') \<Rightarrow> (ScatterFailure e False, slot, d', fold drop_outcome outs w)
         | (MergedOk _, d') \<Rightarrow>
             (ScatterOk (if sr_merge req = Sum then 1 else total_rows), slot, d', fold (checkin_outcome env) outs w))"

text \<open>The leg on the session's lease runs after the pooled ones.\<close>

definition scatter_own_leg ::
    "'s env \<Rightarrow> scatter_request \<Rightarrow> scatter_leg option \<Rightarrow> 's leg_outcome list \<Rightarrow> 's held option \<Rightarrow> downstream \<Rightarrow> 's world \<Rightarrow>
       scatter_result \<times> 's held option \<times> downstream \<times> 's world" where
  "scatter_own_leg env req own outs slot d w =
     (case (own, slot) of
        (Some leg, Some h) \<Rightarrow>
          (case run_query_collect (e_ops env) (e_codec env) (leg_sql leg) (h_conn h) of
             (None, c) \<Rightarrow> (ScatterStuck, Some (set_h_conn c h), d, w)
           | (Some co, c) \<Rightarrow>
               (let slot = Some (set_h_conn c h)
                in if co_broken co
                   then (ScatterFailure (case co_error co of Some e \<Rightarrow> e | None \<Rightarrow> shard_failed (leg_endpoint leg)) True,
                         slot, d, fold drop_outcome outs w)
                   else (case co_error co of
                           Some e \<Rightarrow> scatter_fail env outs e slot d w
                         | None \<Rightarrow> scatter_merge env req (Some co) outs slot d w)))
      | _ \<Rightarrow> scatter_merge env req None outs slot d w)"

definition execute_scatter ::
    "'s env \<Rightarrow> session_params \<Rightarrow> schedule \<Rightarrow> (string \<rightharpoonup> string) \<Rightarrow> scatter_request \<Rightarrow> endpoint_id option \<Rightarrow>
       's held option \<Rightarrow> downstream \<Rightarrow> 's world \<Rightarrow> scatter_result \<times> 's held option \<times> downstream \<times> 's world" where
  "execute_scatter env params sch startup req current slot d w =
     (case List.find (\<lambda>leg. route_endpoint (e_route env) (leg_endpoint leg) = None) (sr_legs req) of
        Some leg \<Rightarrow>
          (ScatterFailure (error_info_new ''ERROR'' ''0A000''
             (''pgferry scatter: unknown endpoint '' @ debug_str (leg_endpoint leg))) False, slot, d, w)
      | None \<Rightarrow>
          (let w = resolve_legs env params (sr_legs req) w;
               (own, pooled) = partition_legs current (slot \<noteq> None) (sr_legs req)
           in case gather env params sch startup (sch_order sch pooled) [] w of
                (None, w) \<Rightarrow> (ScatterStuck, slot, d, w)
              | (Some (outs, Some err), w) \<Rightarrow> scatter_fail env outs err slot d w
              | (Some (outs, None), w) \<Rightarrow> scatter_own_leg env req own outs slot d w))"

end
