(* ===== verification/Pump.thy ===== *)
theory Pump
  imports Scatter
begin

text \<open>
  The session pump (\<^verbatim>\<open>pump\<close> of src/crates/pgferry/src/session.rs): the loop that selects over the client,
  the upstream connection, the cancel channel and the shutdown signal. The loop's local variables are
  the record \<open>pump\<close>; each arm of the select is a function of the state and the event; the client arm is
  the composition of its phases, in the order of the code. What the select picks is the sequence of
  events the pump is run on.

  \<open>se\<close> collects what a session has fixed: environment, startup data and the schedule of its scatters. The instants
  that the hooks' telemetry reads - \<open>se_cycle_clock n\<close> is the n-th of them, \<open>pm_reads\<close> their number so far - are a
  sequence of their own: nothing is assumed of them, nor of how they lie between the readings the pools take.
\<close>

section \<open>State\<close>

record 's session_env =
  se_env :: "'s env"
  se_params :: session_params
  se_startup :: "string \<rightharpoonup> string"
  se_schedule :: schedule
  se_cycle_clock :: clock

definition transaction_mode :: "'s session_env \<Rightarrow> bool" where
  "transaction_mode se \<longleftrightarrow> pool_mode (e_pool_config (se_env se)) = TransactionMode"

record ('s, 'c) pump =
  pm_ds :: downstream
  pm_lease :: "'s held option"
  pm_hooks :: "'c session_hooks option"
  pm_world :: "'s world"
  pm_endpoint :: "endpoint_id option"
  pm_fed :: u32
  pm_extended :: bool
  pm_frontend :: u64
  pm_backend :: u64
  pm_hygiene :: hygiene
  pm_registry :: statement_registry
  pm_gucs :: guc_overrides
  pm_dirty :: bool
  pm_swallow :: bool
  pm_draining :: bool
  pm_attached :: bool
  pm_reads :: nat

definition pump_new ::
    "'s session_env \<Rightarrow> downstream \<Rightarrow> 's held option \<Rightarrow> 'c session_hooks option \<Rightarrow> bool \<Rightarrow> 's world \<Rightarrow> ('s, 'c) pump" where
  "pump_new se d slot hooks attached w =
     \<lparr>pm_ds = d, pm_lease = slot, pm_hooks = hooks, pm_world = w,
      pm_endpoint = (case slot of
          None \<Rightarrow> None
        | Some _ \<Rightarrow> Some (case route_endpoints (e_route (se_env se)) of [] \<Rightarrow> [] | e # _ \<Rightarrow> ep_id e)),
      pm_fed = 0, pm_extended = False, pm_frontend = 0, pm_backend = 0, pm_hygiene = hygiene_default,
      pm_registry = [], pm_gucs = [], pm_dirty = False, pm_swallow = False, pm_draining = False, pm_attached = attached,
      pm_reads = 0\<rparr>"

datatype pump_end = ClientGone | UpstreamBroken string

text \<open>
  How handling an event ends: the loop goes on, the session ends, the task stays suspended for good, or
  it panics.
\<close>

datatype 'p flow = Goes 'p | Ends pump_end 'p | Hangs 'p | Panics

text \<open>A phase of the client arm either handles the message or passes it on.\<close>

datatype 'p phase = Handled "'p flow" | Proceed frontend_msg 'p

definition then_phase :: "'p phase \<Rightarrow> (frontend_msg \<Rightarrow> 'p \<Rightarrow> 'p flow) \<Rightarrow> 'p flow" where
  "then_phase ph k = (case ph of Handled f \<Rightarrow> f | Proceed m p \<Rightarrow> k m p)"

section \<open>Small steps shared by the arms\<close>

definition pm_now :: "'s session_env \<Rightarrow> ('s, 'c) pump \<Rightarrow> instant" where
  "pm_now se p = se_cycle_clock se (pm_reads p)"

definition pm_tick :: "('s, 'c) pump \<Rightarrow> ('s, 'c) pump" where
  "pm_tick p = p\<lparr>pm_reads := pm_reads p + 1\<rparr>"

definition lease_status :: "('s, 'c) pump \<Rightarrow> tx_status" where
  "lease_status p = (case pm_lease p of Some h \<Rightarrow> transaction_status (h_conn h) | None \<Rightarrow> Idle)"

text \<open>Write to the client; a failed write ends the session.\<close>

definition send_then :: "backend_msg \<Rightarrow> ('s, 'c) pump \<Rightarrow> (('s, 'c) pump \<Rightarrow> ('s, 'c) pump flow) \<Rightarrow> ('s, 'c) pump flow" where
  "send_then m p k =
     (case ds_send m (pm_ds p) of
        (True, d) \<Rightarrow> k (p\<lparr>pm_ds := d\<rparr>)
      | (False, d) \<Rightarrow> Ends ClientGone (p\<lparr>pm_ds := d\<rparr>))"

definition send_all_then ::
    "backend_msg list \<Rightarrow> ('s, 'c) pump \<Rightarrow> (('s, 'c) pump \<Rightarrow> ('s, 'c) pump flow) \<Rightarrow> ('s, 'c) pump flow" where
  "send_all_then ms p k =
     (case ds_send_all ms (pm_ds p) of
        (True, d) \<Rightarrow> k (p\<lparr>pm_ds := d\<rparr>)
      | (False, d) \<Rightarrow> Ends ClientGone (p\<lparr>pm_ds := d\<rparr>))"

definition with_cycle :: "(cycle_tracking \<Rightarrow> cycle_tracking) \<Rightarrow> ('s, 'c) pump \<Rightarrow> ('s, 'c) pump" where
  "with_cycle f p = p\<lparr>pm_hooks := map_option (\<lambda>h. h\<lparr>sh_cycle := f (sh_cycle h)\<rparr>) (pm_hooks p)\<rparr>"

definition start_cycle :: "'s session_env \<Rightarrow> string option \<Rightarrow> cycle_kind \<Rightarrow> ('s, 'c) pump \<Rightarrow> ('s, 'c) pump" where
  "start_cycle se sql kind p = pm_tick (with_cycle (cycle_start (pm_now se p) sql kind) p)"

definition finish_cycle :: "'s session_env \<Rightarrow> ('s, 'c) pump \<Rightarrow> ('s, 'c) pump" where
  "finish_cycle se p =
     (case pm_hooks p of
        None \<Rightarrow> p
      | Some h \<Rightarrow> pm_tick (p\<lparr>pm_hooks := Some (end_cycle (pm_now se p) h)\<rparr>))"

definition finish_active_cycle :: "'s session_env \<Rightarrow> ('s, 'c) pump \<Rightarrow> ('s, 'c) pump" where
  "finish_active_cycle se p =
     (case pm_hooks p of
        None \<Rightarrow> p
      | Some h \<Rightarrow> if ct_active (sh_cycle h) then finish_cycle se p else p)"

section \<open>Client arm: recovery and local answers\<close>

definition fe_swallow :: "'s session_env \<Rightarrow> frontend_msg \<Rightarrow> ('s, 'c) pump \<Rightarrow> ('s, 'c) pump phase" where
  "fe_swallow se msg p =
     (if pm_swallow p
      then Handled
        (if msg = FSync
         then (let p = p\<lparr>pm_swallow := False\<rparr>
               in send_then (BReadyForQuery (lease_status p)) p (\<lambda>p. Goes (finish_cycle se p)))
         else Goes p)
      else Proceed msg p)"

definition fe_local :: "'s session_env \<Rightarrow> frontend_msg \<Rightarrow> ('s, 'c) pump \<Rightarrow> ('s, 'c) pump phase" where
  "fe_local se msg p =
     (if transaction_mode se \<and> pm_lease p = None
      then (case msg of
              FSync \<Rightarrow>
                Handled (send_then (BReadyForQuery (ds_status (pm_ds p))) p (\<lambda>p. Goes (finish_active_cycle se p)))
            | FFlush \<Rightarrow> Handled (Goes p)
            | FClose name _ \<Rightarrow>
                (let p = (case name of
                            None \<Rightarrow> p
                          | Some n \<Rightarrow> p\<lparr>pm_registry := record_close n (pm_registry p)\<rparr>)
                 in Handled (send_then BCloseComplete p Goes))
            | _ \<Rightarrow> Proceed msg p)
      else Proceed msg p)"

section \<open>Client arm: the query hook\<close>

definition end_or_swallow :: "'s session_env \<Rightarrow> cycle_kind \<Rightarrow> ('s, 'c) pump \<Rightarrow> ('s, 'c) pump" where
  "end_or_swallow se kind p = (case kind of Simple \<Rightarrow> finish_cycle se p | Extended _ \<Rightarrow> p\<lparr>pm_swallow := True\<rparr>)"

definition do_deny ::
    "'s session_env \<Rightarrow> string \<Rightarrow> cycle_kind \<Rightarrow> error_info \<Rightarrow> ('s, 'c) pump \<Rightarrow> ('s, 'c) pump flow" where
  "do_deny se sql kind info p =
     (let p = with_cycle (\<lambda>ct. ct\<lparr>ct_error := Some (cycle_error_from_info info)\<rparr>) (start_cycle se (Some sql) kind p)
      in send_then (BErrorResponse (err_into (e_codec (se_env se)) info)) p
           (\<lambda>p. case kind of
                  Simple \<Rightarrow> send_then (BReadyForQuery (lease_status p)) p (\<lambda>p. Goes (end_or_swallow se kind p))
                | Extended _ \<Rightarrow> Goes (end_or_swallow se kind p)))"

fun note_reply :: "backend_msg \<Rightarrow> cycle_tracking \<Rightarrow> cycle_tracking" where
  "note_reply (BDataRow r) ct = ct\<lparr>ct_rows := ct_rows ct + 1\<rparr>"
| "note_reply (BCommandComplete tag) ct = ct\<lparr>ct_tag := Some tag\<rparr>"
| "note_reply m ct = ct"

fun send_replies ::
    "backend_msg list \<Rightarrow> ('s, 'c) pump \<Rightarrow> (('s, 'c) pump \<Rightarrow> ('s, 'c) pump flow) \<Rightarrow> ('s, 'c) pump flow" where
  "send_replies [] p k = k p"
| "send_replies (m # ms) p k = send_then m (with_cycle (note_reply m) p) (\<lambda>p. send_replies ms p k)"

definition do_reply ::
    "'s session_env \<Rightarrow> string \<Rightarrow> cycle_kind \<Rightarrow> backend_msg list \<Rightarrow> ('s, 'c) pump \<Rightarrow> ('s, 'c) pump flow" where
  "do_reply se sql kind msgs p =
     send_replies msgs (start_cycle se (Some sql) kind p)
       (\<lambda>p. send_then (BReadyForQuery (lease_status p)) p (\<lambda>p. Goes (end_or_swallow se kind p)))"

definition scatter_refusal :: "cycle_kind \<Rightarrow> tx_status \<Rightarrow> error_info option" where
  "scatter_refusal kind status =
     (if kind \<noteq> Simple then Some (error_info_new ''ERROR'' ''0A000'' ''pgferry scatter: simple protocol only'')
      else if status \<noteq> Idle
      then Some (error_info_new ''ERROR'' ''0A000'' ''pgferry scatter: not allowed inside a transaction'')
      else None)"

definition scatter_failed ::
    "'s session_env \<Rightarrow> error_info \<Rightarrow> bool \<Rightarrow> ('s, 'c) pump \<Rightarrow> ('s, 'c) pump flow" where
  "scatter_failed se err broken p =
     (let p = (case (broken, pm_lease p) of
                 (True, Some h) \<Rightarrow> p\<lparr>pm_lease := None, pm_world := lease_destroy h (pm_world p)\<rparr>
               | _ \<Rightarrow> p);
          p = p\<lparr>pm_endpoint := None, pm_attached := False\<rparr>;
          p = with_cycle (\<lambda>ct. ct\<lparr>ct_error := Some (cycle_error_from_info err)\<rparr>) p
      in send_then (BErrorResponse (err_into (e_codec (se_env se)) err)) p
           (\<lambda>p. send_then (BReadyForQuery Idle) p
              (\<lambda>p. Goes (finish_cycle se (p\<lparr>pm_ds := ds_set_status Idle (pm_ds p)\<rparr>)))))"

definition do_scatter ::
    "'s session_env \<Rightarrow> string \<Rightarrow> cycle_kind \<Rightarrow> scatter_request \<Rightarrow> ('s, 'c) pump \<Rightarrow> ('s, 'c) pump flow" where
  "do_scatter se sql kind req p =
     (let refusal = scatter_refusal kind (ds_status (pm_ds p));
          p = start_cycle se (Some sql) kind p
      in case refusal of
           Some err \<Rightarrow> scatter_failed se err False p
         | None \<Rightarrow>
             (case execute_scatter (se_env se) (se_params se) (se_schedule se) (se_startup se) req (pm_endpoint p)
                     (pm_lease p) (pm_ds p) (pm_world p) of
                (res, slot, d, w) \<Rightarrow>
                  (let p = p\<lparr>pm_lease := slot, pm_ds := d, pm_world := w\<rparr>
                   in case res of
                        ScatterStuck \<Rightarrow> Hangs p
                      | ScatterPanic \<Rightarrow> Panics
                      | ScatterFailure err broken \<Rightarrow> scatter_failed se err broken p
                      | ScatterOk rows \<Rightarrow>
                          (let p = with_cycle (\<lambda>ct. ct\<lparr>ct_rows := rows,
                                     ct_tag := Some (sr_tag req @ '' '' @ show_nat (unat rows))\<rparr>) p
                           in send_then (BReadyForQuery (ds_status (pm_ds p))) p (\<lambda>p. Goes (finish_cycle se p))))))"

definition fe_on_query :: "'s session_env \<Rightarrow> frontend_msg \<Rightarrow> ('s, 'c) pump \<Rightarrow> ('s, 'c) pump phase" where
  "fe_on_query se msg p =
     (case cycle_input_of msg of
        None \<Rightarrow> Proceed msg p
      | Some input \<Rightarrow>
          (let kind = ci_kind input; sql = ci_sql input; p = p\<lparr>pm_extended := (kind \<noteq> Simple)\<rparr>
           in case pm_hooks p of
                None \<Rightarrow> Proceed msg p
              | Some h \<Rightarrow>
                  (let (action, cycle, ctx) = hook_on_query (sh_interceptor h) (sh_ctx h) (query_cycle_new sql kind);
                       rewritten = fst (take_rewritten cycle);
                       p = p\<lparr>pm_hooks := Some (h\<lparr>sh_ctx := ctx\<rparr>)\<rparr>
                   in case action of
                        Forward \<Rightarrow>
                          (let msg = apply_rewrite msg rewritten
                           in Proceed msg (start_cycle se (cycle_sql_of msg) kind p))
                      | Deny info \<Rightarrow> Handled (do_deny se sql kind info p)
                      | Scatter req \<Rightarrow> Handled (do_scatter se sql kind req p)
                      | Reply msgs \<Rightarrow> Handled (do_reply se sql kind msgs p)
                      | Close \<Rightarrow> Handled (Ends ClientGone p))))"

section \<open>Client arm: statements, attach, forwarding\<close>

datatype parse_verdict =
    NotNamed
  | KnownStatement
  | DuplicateName string
  | NewStatement string string "u32 list"

fun check_parse :: "frontend_msg \<Rightarrow> statement_registry \<Rightarrow> parse_verdict" where
  "check_parse (FParse m) r =
     (case parse_name m of
        None \<Rightarrow> NotNamed
      | Some name \<Rightarrow>
          if name = [] then NotNamed
          else (case registry_lookup r name of
                  Some (known, _) \<Rightarrow> if known = parse_query m then KnownStatement else DuplicateName name
                | None \<Rightarrow> NewStatement name (parse_query m) (parse_type_oids m)))"
| "check_parse _ r = NotNamed"

definition duplicate_statement :: "string \<Rightarrow> error_info" where
  "duplicate_statement name =
     error_info_new ''ERROR'' ''42P05''
       (''prepared statement '' @ [CHR 0x22] @ name @ [CHR 0x22] @ '' already exists (pgferry)'')"

definition fe_registry :: "'s session_env \<Rightarrow> frontend_msg \<Rightarrow> ('s, 'c) pump \<Rightarrow> ('s, 'c) pump phase" where
  "fe_registry se msg p =
     (case check_parse msg (pm_registry p) of
        KnownStatement \<Rightarrow> Handled (send_then BParseComplete p Goes)
      | DuplicateName name \<Rightarrow>
          Handled (send_then (BErrorResponse (err_into (e_codec (se_env se)) (duplicate_statement name))) p
                     (\<lambda>p. Goes (p\<lparr>pm_swallow := True\<rparr>)))
      | _ \<Rightarrow> Proceed msg p)"

definition pm_attach_state :: "('s, 'c) pump \<Rightarrow> ('s, 'c) attach_state" where
  "pm_attach_state p =
     \<lparr>a_world = pm_world p, a_ds = pm_ds p, a_hooks = pm_hooks p, a_lease = pm_lease p, a_dirty = pm_dirty p,
      a_endpoint = pm_endpoint p\<rparr>"

definition pm_set_attach_state :: "('s, 'c) attach_state \<Rightarrow> ('s, 'c) pump \<Rightarrow> ('s, 'c) pump" where
  "pm_set_attach_state a p =
     p\<lparr>pm_world := a_world a, pm_ds := a_ds a, pm_hooks := a_hooks a, pm_lease := a_lease a, pm_dirty := a_dirty a,
       pm_endpoint := a_endpoint a\<rparr>"

text \<open>\<open>hint\<close> is the SQL of the message as the client sent it, for a Query or a Parse.\<close>

definition fe_attach :: "'s session_env \<Rightarrow> string option \<Rightarrow> frontend_msg \<Rightarrow> ('s, 'c) pump \<Rightarrow> ('s, 'c) pump phase" where
  "fe_attach se hint msg p =
     (let hint = (case hint of Some s \<Rightarrow> Some s | None \<Rightarrow> bind_statement_sql msg (pm_registry p));
          (res, a) = ensure_attached (se_env se) (se_params se) (pm_registry p) (pm_gucs p) (se_startup se) hint
                       (pm_attach_state p);
          q = pm_set_attach_state a p
      in case res of
           Stuck \<Rightarrow> Handled (Hangs q)
         | Refused \<Rightarrow> Handled (Ends ClientGone q)
         | Attached \<Rightarrow>
             (let q = (case check_parse msg (pm_registry p) of
                         NewStatement name sql oids \<Rightarrow>
                           q\<lparr>pm_registry := record_parse name sql oids (pm_registry q), pm_dirty := True\<rparr>
                       | _ \<Rightarrow> q)
              in Proceed msg (q\<lparr>pm_attached := True\<rparr>)))"

definition fe_hook :: "frontend_msg \<Rightarrow> ('s, 'c) pump \<Rightarrow> ('s, 'c) pump phase" where
  "fe_hook msg p =
     (case pm_hooks p of
        None \<Rightarrow> Proceed msg p
      | Some h \<Rightarrow>
          (let (action, msg, ctx) = hook_on_frontend (sh_interceptor h) (sh_ctx h) msg;
               p = p\<lparr>pm_hooks := Some (h\<lparr>sh_ctx := ctx\<rparr>)\<rparr>
           in case action of
                Forward \<Rightarrow> Proceed msg p
              | Reply msgs \<Rightarrow> Handled (send_all_then msgs p Goes)
              | _ \<Rightarrow> Handled (Ends ClientGone p)))"

fun starts_response :: "frontend_msg \<Rightarrow> bool" where
  "starts_response (FQuery _) = True"
| "starts_response FSync = True"
| "starts_response FFlush = True"
| "starts_response _ = False"

definition drop_broken_lease :: "('s, 'c) pump \<Rightarrow> ('s, 'c) pump" where
  "drop_broken_lease p =
     (case pm_lease p of
        None \<Rightarrow> p\<lparr>pm_endpoint := None, pm_attached := False\<rparr>
      | Some h \<Rightarrow>
          p\<lparr>pm_lease := None, pm_world := lease_destroy h (pm_world p), pm_endpoint := None, pm_attached := False\<rparr>)"

definition answer_lost ::
    "'s session_env \<Rightarrow> ('s, 'c) pump \<Rightarrow> (('s, 'c) pump \<Rightarrow> ('s, 'c) pump flow) \<Rightarrow> ('s, 'c) pump flow" where
  "answer_lost se p k =
     (case synthesize_upstream_lost (e_codec (se_env se)) (pm_now se p) (pm_extended p) (pm_swallow p) (pm_hooks p) (pm_ds p) of
        (alive, swallow, hooks, d) \<Rightarrow>
          (let p = pm_tick (p\<lparr>pm_swallow := swallow, pm_hooks := hooks, pm_ds := d\<rparr>)
           in if alive then k p else Ends ClientGone p))"

definition end_awaiting :: "('s, 'c) pump \<Rightarrow> ('s, 'c) pump" where
  "end_awaiting p = p\<lparr>pm_hygiene := (pm_hygiene p)\<lparr>awaiting_response := False\<rparr>, pm_fed := 0\<rparr>"

definition upstream_failed ::
    "string \<Rightarrow> ('s, 'c) pump \<Rightarrow> retry_decision \<times> ('s, 'c) pump" where
  "upstream_failed why p =
     (let i = (case pm_endpoint p of Some e \<Rightarrow> e | None \<Rightarrow> []);
          (d, hooks) = dispatch_on_upstream_error (ConnectionLost i why) (pm_hooks p)
      in (d, p\<lparr>pm_hooks := hooks\<rparr>))"

definition fe_send_failed :: "'s session_env \<Rightarrow> ('s, 'c) pump \<Rightarrow> ('s, 'c) pump flow" where
  "fe_send_failed se p =
     (case upstream_failed ''send failed'' p of
        (CloseSession, p) \<Rightarrow> Ends (UpstreamBroken ''upstream send failed'') p
      | (Relink, p) \<Rightarrow>
          (let p = drop_broken_lease p
           in if awaiting_response (pm_hygiene p) \<or> pm_fed p > 0
              then answer_lost se p (\<lambda>p. Goes ((end_awaiting p)\<lparr>pm_frontend := pm_frontend p + 1\<rparr>))
              else Goes (p\<lparr>pm_frontend := pm_frontend p + 1\<rparr>)))"

definition fe_forward :: "'s session_env \<Rightarrow> frontend_msg \<Rightarrow> ('s, 'c) pump \<Rightarrow> ('s, 'c) pump flow" where
  "fe_forward se msg p =
     (let p = (if starts_response msg then p\<lparr>pm_hygiene := (pm_hygiene p)\<lparr>awaiting_response := True\<rparr>\<rparr> else p)
      in case pm_lease p of
           None \<Rightarrow> Panics
         | Some h \<Rightarrow>
             (let (failed, c) = (if triggers_response msg then conn_send (e_ops (se_env se)) msg (h_conn h)
                                 else conn_feed (e_ops (se_env se)) msg (h_conn h));
                  p = p\<lparr>pm_lease := Some (set_h_conn c h)\<rparr>
              in if failed = None then Goes (p\<lparr>pm_fed := pm_fed p + 1, pm_frontend := pm_frontend p + 1\<rparr>)
                 else fe_send_failed se p))"

text \<open>The whole client arm for a decoded message other than Terminate.\<close>

definition client_message :: "'s session_env \<Rightarrow> frontend_msg \<Rightarrow> ('s, 'c) pump \<Rightarrow> ('s, 'c) pump flow" where
  "client_message se msg p =
     then_phase (fe_swallow se msg p) (\<lambda>msg p.
     then_phase (fe_local se msg p) (\<lambda>msg p.
     (let hint = map_option ci_sql (cycle_input_of msg)
      in then_phase (fe_on_query se msg p) (\<lambda>msg p.
         then_phase (fe_registry se msg p) (\<lambda>msg p.
         then_phase (fe_attach se hint msg p) (\<lambda>msg p.
         then_phase (fe_hook msg p) (fe_forward se)))))))"

section \<open>Upstream arm\<close>

text \<open>Session state tracked from a message of the server.\<close>

fun track_conn :: "backend_msg \<Rightarrow> 's conn \<Rightarrow> 's conn" where
  "track_conn (BReadyForQuery st) c = set_transaction_status st c"
| "track_conn (BParameterStatus k v) c = set_server_parameter k v c"
| "track_conn m c = c"

definition be_track :: "'s session_env \<Rightarrow> backend_msg \<Rightarrow> 's held \<Rightarrow> ('s, 'c) pump \<Rightarrow> ('s, 'c) pump" where
  "be_track se m h p =
     (let p = p\<lparr>pm_lease := Some (set_h_conn (track_conn m (h_conn h)) h)\<rparr>
      in case m of
           BReadyForQuery st \<Rightarrow>
             p\<lparr>pm_ds := ds_set_status st (pm_ds p), pm_hygiene := hygiene_default, pm_fed := 0\<rparr>
         | BParameterStatus k v \<Rightarrow>
             p\<lparr>pm_gucs := al_insert k v (pm_gucs p), pm_dirty := (pm_dirty p \<or> transaction_mode se)\<rparr>
         | BCopyInResponse _ \<Rightarrow> p\<lparr>pm_hygiene := (pm_hygiene p)\<lparr>copy := ClientOwesCopy\<rparr>\<rparr>
         | BCopyBothResponse _ \<Rightarrow> p\<lparr>pm_hygiene := (pm_hygiene p)\<lparr>copy := ClientOwesCopy\<rparr>\<rparr>
         | BCopyOutResponse _ \<Rightarrow> p\<lparr>pm_hygiene := (pm_hygiene p)\<lparr>copy := ServerStreamsCopy\<rparr>\<rparr>
         | _ \<Rightarrow> p)"

text \<open>Schema and telemetry, before the row hook.\<close>

fun note_message :: "backend_msg \<Rightarrow> 'c session_hooks \<Rightarrow> 'c session_hooks" where
  "note_message (BRowDescription fs) h = (if sh_wants_rows h then h\<lparr>sh_schema := from_row_description fs\<rparr> else h)"
| "note_message (BCommandComplete tag) h = h\<lparr>sh_cycle := (sh_cycle h)\<lparr>ct_tag := Some tag\<rparr>\<rparr>"
| "note_message (BErrorResponse er) h = h\<lparr>sh_cycle := (sh_cycle h)\<lparr>ct_error := Some (cycle_error_of er)\<rparr>\<rparr>"
| "note_message m h = h"

definition count_row :: "'c session_hooks \<Rightarrow> 'c session_hooks" where
  "count_row h = h\<lparr>sh_cycle := (sh_cycle h)\<lparr>ct_rows := ct_rows (sh_cycle h) + 1\<rparr>\<rparr>"

definition count_dropped :: "'c session_hooks \<Rightarrow> 'c session_hooks" where
  "count_dropped h = h\<lparr>sh_cycle := (sh_cycle h)\<lparr>ct_dropped_total := ct_dropped_total (sh_cycle h) + 1,
      ct_dropped_pending := ct_dropped_pending (sh_cycle h) + 1\<rparr>\<rparr>"

text \<open>The row hook: the message to go on with, or \<open>None\<close> when the row is dropped.\<close>

definition run_row_hook :: "data_row \<Rightarrow> 'c session_hooks \<Rightarrow> (backend_msg option \<times> 'c session_hooks) outcome" where
  "run_row_hook dr h =
     (if sh_wants_rows h
      then (case row_parse dr of
              Panic \<Rightarrow> Panic
            | Ret (Inl e) \<Rightarrow> Ret (Some (BDataRow dr), count_row h)
            | Ret (Inr row) \<Rightarrow>
                (case hook_on_row (sh_interceptor h) (sh_ctx h) (sh_schema h) row of
                   (Keep, row, ctx) \<Rightarrow> Ret (Some (BDataRow (row_apply row)), count_row (h\<lparr>sh_ctx := ctx\<rparr>))
                 | (Drop, row, ctx) \<Rightarrow> Ret (None, count_dropped (h\<lparr>sh_ctx := ctx\<rparr>))))
      else Ret (Some (BDataRow dr), count_row h))"

definition adjust_complete :: "string \<Rightarrow> 'c session_hooks \<Rightarrow> backend_msg \<times> 'c session_hooks" where
  "adjust_complete tag h =
     (let pending = ct_dropped_pending (sh_cycle h)
      in (BCommandComplete (if sh_adjust_counts h \<and> pending > 0 then adjust_tag tag pending else tag),
          h\<lparr>sh_cycle := (sh_cycle h)\<lparr>ct_dropped_pending := 0\<rparr>\<rparr>))"

definition be_rows :: "backend_msg \<Rightarrow> ('s, 'c) pump \<Rightarrow> (backend_msg option \<times> ('s, 'c) pump) outcome" where
  "be_rows m p =
     (case pm_hooks p of
        None \<Rightarrow> Ret (Some m, p)
      | Some h \<Rightarrow>
          (let h = note_message m h
           in case m of
                BDataRow dr \<Rightarrow>
                  (case run_row_hook dr h of
                     Panic \<Rightarrow> Panic
                   | Ret (m', h) \<Rightarrow> Ret (m', p\<lparr>pm_hooks := Some h\<rparr>))
              | BCommandComplete tag \<Rightarrow>
                  (let (m', h) = adjust_complete tag h in Ret (Some m', p\<lparr>pm_hooks := Some h\<rparr>))
              | _ \<Rightarrow> Ret (Some m, p\<lparr>pm_hooks := Some h\<rparr>)))"

fun is_ready :: "backend_msg \<Rightarrow> bool" where
  "is_ready (BReadyForQuery _) = True"
| "is_ready _ = False"

text \<open>
  Forwarding to the client and the end of a cycle. The report is taken before the write and handed to
  the hook after it, so a failed write leaves the cycle finished and unreported.
\<close>

definition take_report :: "'s session_env \<Rightarrow> backend_msg \<Rightarrow> ('s, 'c) pump \<Rightarrow> cycle_report option \<times> ('s, 'c) pump" where
  "take_report se m p =
     (case pm_hooks p of
        None \<Rightarrow> (None, p)
      | Some h \<Rightarrow>
          if is_ready m \<and> ct_active (sh_cycle h)
          then (let (rep, ct) = cycle_finish (pm_now se p) (sh_cycle h)
                in (Some rep, pm_tick (p\<lparr>pm_hooks := Some (h\<lparr>sh_cycle := ct\<rparr>)\<rparr>)))
          else (None, p))"

definition give_report :: "cycle_report option \<Rightarrow> ('s, 'c) pump \<Rightarrow> ('s, 'c) pump" where
  "give_report rep p =
     (case (rep, pm_hooks p) of
        (Some r, Some h) \<Rightarrow>
          p\<lparr>pm_hooks := Some (h\<lparr>sh_ctx := hook_on_cycle_end (sh_interceptor h) (sh_ctx h) r\<rparr>)\<rparr>
      | _ \<Rightarrow> p)"

definition be_detach :: "'s session_env \<Rightarrow> tx_status \<Rightarrow> ('s, 'c) pump \<Rightarrow> ('s, 'c) pump" where
  "be_detach se status p =
     (let (detached, slot, w) = detach_if_idle (se_env se) status (pm_dirty p) (transaction_mode se) (pm_lease p) (pm_world p);
          p = p\<lparr>pm_lease := slot, pm_world := w\<rparr>
      in if detached then p\<lparr>pm_dirty := False, pm_attached := False\<rparr> else p)"

definition be_forward :: "'s session_env \<Rightarrow> tx_status \<Rightarrow> backend_msg \<Rightarrow> ('s, 'c) pump \<Rightarrow> ('s, 'c) pump flow" where
  "be_forward se status m p =
     (let (rep, p) = take_report se m p
      in send_then m p
           (\<lambda>p. let p = give_report rep (p\<lparr>pm_backend := pm_backend p + 1\<rparr>)
                 in if is_ready m \<and> pm_draining p then Ends ClientGone p
                    else if is_ready m then Goes (be_detach se status p)
                    else Goes p))"

definition be_hook :: "'s session_env \<Rightarrow> tx_status \<Rightarrow> backend_msg \<Rightarrow> ('s, 'c) pump \<Rightarrow> ('s, 'c) pump flow" where
  "be_hook se status m p =
     (case pm_hooks p of
        None \<Rightarrow> be_forward se status m p
      | Some h \<Rightarrow>
          (let (action, m, ctx) = hook_on_backend (sh_interceptor h) (sh_ctx h) m;
               p = p\<lparr>pm_hooks := Some (h\<lparr>sh_ctx := ctx\<rparr>)\<rparr>
           in case action of
                Forward \<Rightarrow> be_forward se status m p
              | Reply msgs \<Rightarrow> send_all_then msgs p (\<lambda>p. Goes (p\<lparr>pm_backend := pm_backend p + 1\<rparr>))
              | _ \<Rightarrow> Ends ClientGone p))"

definition upstream_message :: "'s session_env \<Rightarrow> backend_msg \<Rightarrow> 's held \<Rightarrow> ('s, 'c) pump \<Rightarrow> ('s, 'c) pump flow" where
  "upstream_message se m h p =
     (let status = transaction_status (track_conn m (h_conn h))
      in case be_rows m (be_track se m h p) of
           Panic \<Rightarrow> Panics
         | Ret (None, p) \<Rightarrow> Goes p
         | Ret (Some m', p) \<Rightarrow> be_hook se status m' p)"

definition upstream_eof :: "'s session_env \<Rightarrow> ('s, 'c) pump \<Rightarrow> ('s, 'c) pump flow" where
  "upstream_eof se p =
     (case upstream_failed ''upstream closed unexpectedly'' p of
        (CloseSession, p) \<Rightarrow> Ends (UpstreamBroken ''upstream EOF'') p
      | (Relink, p) \<Rightarrow>
          (let p = drop_broken_lease p
           in if awaiting_response (pm_hygiene p) then answer_lost se p (\<lambda>p. Goes (end_awaiting p))
              else Goes (end_awaiting p)))"

text \<open>One wake-up of the upstream arm; nothing happens while there is nothing to read.\<close>

definition upstream_arm :: "'s session_env \<Rightarrow> ('s, 'c) pump \<Rightarrow> ('s, 'c) pump flow" where
  "upstream_arm se p =
     (case pm_lease p of
        None \<Rightarrow> Goes p
      | Some h \<Rightarrow>
          (case inbox (h_conn h) of
             [] \<Rightarrow> (if at_eof (h_conn h) then upstream_eof se p else Goes p)
           | RErr e # items \<Rightarrow>
               Ends (UpstreamBroken (''upstream error: '' @ op_show_error (e_ops (se_env se)) e))
                 (p\<lparr>pm_lease := Some (set_h_conn ((h_conn h)\<lparr>inbox := items\<rparr>) h)\<rparr>)
           | RMsg m # items \<Rightarrow> upstream_message se m (set_h_conn ((h_conn h)\<lparr>inbox := items\<rparr>) h) p))"

section \<open>Cancel, shutdown and the loop\<close>

definition cancel_arm :: "'s session_env \<Rightarrow> ('s, 'c) pump \<Rightarrow> ('s, 'c) pump flow" where
  "cancel_arm se p =
     (case pm_lease p of
        None \<Rightarrow> Goes p
      | Some h \<Rightarrow> Goes (p\<lparr>pm_lease := Some (set_h_conn (conn_cancel (e_ops (se_env se)) (h_conn h)) h)\<rparr>))"

definition shutdown_arm :: "('s, 'c) pump \<Rightarrow> ('s, 'c) pump flow" where
  "shutdown_arm p =
     (if awaiting_response (pm_hygiene p) \<or> copy (pm_hygiene p) \<noteq> NoCopy then Goes (p\<lparr>pm_draining := True\<rparr>)
      else Ends ClientGone p)"

text \<open>
  What can wake the pump. The last two are the network's: bytes that arrive on the upstream socket
  without being a direct consequence of a write, and its closing.
\<close>

datatype event =
    ClientEof
  | ClientGarbage
  | ClientMsg frontend_msg
  | UpstreamReady
  | CancelSignal
  | ShutdownSignal
  | Arrives "recv list"
  | UpstreamCloses

definition on_conn :: "('s conn \<Rightarrow> 's conn) \<Rightarrow> ('s, 'c) pump \<Rightarrow> ('s, 'c) pump" where
  "on_conn f p = p\<lparr>pm_lease := map_option (\<lambda>h. set_h_conn (f (h_conn h)) h) (pm_lease p)\<rparr>"

fun pump_event :: "'s session_env \<Rightarrow> event \<Rightarrow> ('s, 'c) pump \<Rightarrow> ('s, 'c) pump flow" where
  "pump_event se ClientEof p = Ends ClientGone p"
| "pump_event se ClientGarbage p = Ends ClientGone p"
| "pump_event se (ClientMsg msg) p = (if msg = FTerminate then Ends ClientGone p else client_message se msg p)"
| "pump_event se UpstreamReady p = upstream_arm se p"
| "pump_event se CancelSignal p = cancel_arm se p"
| "pump_event se ShutdownSignal p = shutdown_arm p"
| "pump_event se (Arrives items) p = Goes (on_conn (\<lambda>c. c\<lparr>inbox := inbox c @ items\<rparr>) p)"
| "pump_event se UpstreamCloses p = Goes (on_conn (\<lambda>c. c\<lparr>at_eof := True\<rparr>) p)"

fun pump_run :: "'s session_env \<Rightarrow> event list \<Rightarrow> ('s, 'c) pump \<Rightarrow> ('s, 'c) pump flow" where
  "pump_run se [] p = Goes p"
| "pump_run se (e # es) p = (case pump_event se e p of Goes q \<Rightarrow> pump_run se es q | f \<Rightarrow> f)"

section \<open>The end of a session\<close>

text \<open>What \<^verbatim>\<open>run_session_ready\<close> does with the outcome of the pump.\<close>

definition session_end :: "'s session_env \<Rightarrow> pump_end \<Rightarrow> ('s, 'c) pump \<Rightarrow> 's world \<times> downstream" where
  "session_end se reason p =
     ((case (reason, pm_lease p) of
         (ClientGone, Some h) \<Rightarrow> lease_checkin (se_env se) (pm_hygiene p) h (pm_world p)
       | (UpstreamBroken _, Some h) \<Rightarrow> lease_destroy h (pm_world p)
       | (_, None) \<Rightarrow> pm_world p),
      (pm_ds p)\<lparr>ds_closed := True\<rparr>)"

end
