(* ===== verification/Pump_Invariant.thy ===== *)
theory Pump_Invariant
  imports Pump
begin

text \<open>
  Invariants of a session. Whatever holds of the pools and of the lease a session has, and is kept by the few
  primitive operations that touch them - writing to and reading from the connection, attaching, scattering,
  detaching, destroying - holds at every point of every run of the pump. The locale \<open>session_invariant\<close> states
  what has to be kept; the pump's control flow is gone through once, here.
\<close>

section \<open>Basic facts\<close>

lemma send_then_healthy [simp]:
  "ds_results (pm_ds p) = [] \<Longrightarrow> send_then m p k = k (p\<lparr>pm_ds := (pm_ds p)\<lparr>ds_sent := ds_sent (pm_ds p) @ [m]\<rparr>\<rparr>)"
  by (simp add: send_then_def)

lemma send_all_then_healthy [simp]:
  "ds_results (pm_ds p) = [] \<Longrightarrow> send_all_then ms p k = k (p\<lparr>pm_ds := (pm_ds p)\<lparr>ds_sent := ds_sent (pm_ds p) @ ms\<rparr>\<rparr>)"
  by (simp add: send_all_then_def)

lemma then_phase_simps [simp]: "then_phase (Handled f) k = f" "then_phase (Proceed m p) k = k m p"
  by (simp_all add: then_phase_def)

lemma finish_cycle_fields [simp]:
  "pm_ds (finish_cycle se p) = pm_ds p" "pm_lease (finish_cycle se p) = pm_lease p"
  "pm_swallow (finish_cycle se p) = pm_swallow p" "w_pools (pm_world (finish_cycle se p)) = w_pools (pm_world p)"
  "pm_registry (finish_cycle se p) = pm_registry p" "pm_dirty (finish_cycle se p) = pm_dirty p"
  "pm_hygiene (finish_cycle se p) = pm_hygiene p" "pm_gucs (finish_cycle se p) = pm_gucs p"
  "pm_fed (finish_cycle se p) = pm_fed p" "pm_draining (finish_cycle se p) = pm_draining p"
  by (simp_all add: finish_cycle_def pm_tick_def split: option.splits)

lemma finish_active_cycle_fields [simp]:
  "pm_ds (finish_active_cycle se p) = pm_ds p" "pm_lease (finish_active_cycle se p) = pm_lease p"
  "pm_swallow (finish_active_cycle se p) = pm_swallow p"
  "w_pools (pm_world (finish_active_cycle se p)) = w_pools (pm_world p)"
  "pm_registry (finish_active_cycle se p) = pm_registry p" "pm_dirty (finish_active_cycle se p) = pm_dirty p"
  by (simp_all add: finish_active_cycle_def split: option.splits)

lemma start_cycle_fields [simp]:
  "pm_ds (start_cycle se sql kind p) = pm_ds p" "pm_lease (start_cycle se sql kind p) = pm_lease p"
  "pm_swallow (start_cycle se sql kind p) = pm_swallow p"
  "w_pools (pm_world (start_cycle se sql kind p)) = w_pools (pm_world p)"
  "pm_registry (start_cycle se sql kind p) = pm_registry p" "pm_dirty (start_cycle se sql kind p) = pm_dirty p"
  "pm_hooks (start_cycle se sql kind p) = None \<longleftrightarrow> pm_hooks p = None"
  by (simp_all add: start_cycle_def with_cycle_def pm_tick_def)

lemma with_cycle_fields [simp]:
  "pm_ds (with_cycle f p) = pm_ds p" "pm_lease (with_cycle f p) = pm_lease p" "pm_swallow (with_cycle f p) = pm_swallow p"
  "pm_world (with_cycle f p) = pm_world p" "pm_registry (with_cycle f p) = pm_registry p"
  "pm_dirty (with_cycle f p) = pm_dirty p" "pm_hooks (with_cycle f p) = None \<longleftrightarrow> pm_hooks p = None"
  by (simp_all add: with_cycle_def)

text \<open>What evaluates the first query of a concrete session, which attaches it to a fresh connection.\<close>

lemmas first_query_simps [pump_simps] =
  client_message_def fe_swallow_def fe_local_def fe_on_query_def fe_registry_def fe_attach_def fe_hook_def fe_forward_def
  ensure_attached_def pm_attach_state_def pm_set_attach_state_def attach_attempts_def attach_turn_def dispatch_upstream_def
  default_endpoint_def route_endpoint_def attach_endpoint_def resolve_pool_def get_or_create_def Let_def checkout_def
  pool_new_def capacity_def pool_config_default_def checkout_loop_Nil finish_checkout_def attach_prepared_def prepare_lease_def
  sync_startup_parameters_def TRACKED_STARTUP_PARAMETERS_def replay_statements_def dispatch_on_upstream_connected_def
  conn_send_def numeral_eq_Suc set_h_conn_def

section \<open>What the pump does to pools and lease\<close>

text \<open>
  \<open>I\<close> may speak about the pools, the lease, whether the connection is marked dirty, and the registry of prepared
  statements.
\<close>

locale session_invariant =
  fixes se :: "'s session_env" and I :: "'s world \<Rightarrow> 's held option \<Rightarrow> bool \<Rightarrow> statement_registry \<Rightarrow> bool"
  assumes pools_only: "w_pools w' = w_pools w \<Longrightarrow> I w slot d r \<Longrightarrow> I w' slot d r"
    and received: "I w (Some h) d r \<Longrightarrow> wire c = wire (h_conn h) \<Longrightarrow> I w (Some (set_h_conn c h)) d r"
    and sent: "I w (Some h) d r \<Longrightarrow> conn_send (e_ops (se_env se)) m (h_conn h) = (e, c) \<Longrightarrow> I w (Some (set_h_conn c h)) d r"
    and fed: "I w (Some h) d r \<Longrightarrow> conn_feed (e_ops (se_env se)) m (h_conn h) = (e, c) \<Longrightarrow> I w (Some (set_h_conn c h)) d r"
    and cancelled: "I w (Some h) d r \<Longrightarrow> I w (Some (set_h_conn (conn_cancel (e_ops (se_env se)) (h_conn h)) h)) d r"
    and destroyed: "I w (Some h) d r \<Longrightarrow> I (lease_destroy h w) None d r"
    and detached: "I w (Some h) d r \<Longrightarrow> I (lease_checkin_detached (se_env se) d h w) None False r"
    and forgotten: "I w None d r \<Longrightarrow> I w None d r'"
    and recorded: "I w (Some h) d r \<Longrightarrow> I w (Some h) True r'"
    and attaches: "I (a_world (a :: ('s, 'c) attach_state)) None (a_dirty a) r \<Longrightarrow> a_lease a = None \<Longrightarrow>
      ensure_attached (se_env se) (se_params se) r gucs (se_startup se) hint a = (res, a') \<Longrightarrow> res \<noteq> Stuck \<Longrightarrow>
      I (a_world a') (a_lease a') (a_dirty a') r \<and> (res = Attached \<longrightarrow> a_lease a' \<noteq> None)"
    and scatters: "I w slot d r \<Longrightarrow>
      execute_scatter (se_env se) (se_params se) (se_schedule se) (se_startup se) req cur slot ds w = (sres, slot', ds', w') \<Longrightarrow>
      sres \<noteq> ScatterPanic \<Longrightarrow> sres \<noteq> ScatterStuck \<Longrightarrow> I w' slot' d r"
begin

definition keeps :: "('s, 'c) pump \<Rightarrow> bool" where
  "keeps p \<longleftrightarrow> I (pm_world p) (pm_lease p) (pm_dirty p) (pm_registry p)"

definition flow_keeps :: "('s, 'c) pump flow \<Rightarrow> bool" where
  "flow_keeps f \<longleftrightarrow> (case f of Goes q \<Rightarrow> keeps q | Ends _ q \<Rightarrow> keeps q | _ \<Rightarrow> True)"

definition phase_keeps :: "('s, 'c) pump phase \<Rightarrow> bool" where
  "phase_keeps ph \<longleftrightarrow> (case ph of Handled f \<Rightarrow> flow_keeps f | Proceed m q \<Rightarrow> keeps q)"

lemma flow_keeps_simps [simp]:
  "flow_keeps (Goes q) = keeps q" "flow_keeps (Ends e q) = keeps q" "flow_keeps (Hangs q)" "flow_keeps Panics"
  by (simp_all add: flow_keeps_def)

lemma phase_keeps_simps [simp]:
  "phase_keeps (Handled f) = flow_keeps f" "phase_keeps (Proceed m q) = keeps q"
  by (simp_all add: phase_keeps_def)

lemma keeps_same:
  "keeps p \<Longrightarrow> w_pools (pm_world q) = w_pools (pm_world p) \<Longrightarrow> pm_lease q = pm_lease p \<Longrightarrow> pm_dirty q = pm_dirty p \<Longrightarrow>
     pm_registry q = pm_registry p \<Longrightarrow> keeps q"
  using pools_only [of "pm_world q" "pm_world p"] by (simp add: keeps_def)

lemma keeps_fields [intro]:
  assumes "keeps p"
  shows "keeps (p\<lparr>pm_ds := d\<rparr>)" "keeps (p\<lparr>pm_hooks := hk\<rparr>)" "keeps (p\<lparr>pm_extended := b\<rparr>)"
    "keeps (p\<lparr>pm_swallow := b\<rparr>)" "keeps (p\<lparr>pm_hygiene := hy\<rparr>)" "keeps (p\<lparr>pm_fed := n\<rparr>)"
    "keeps (p\<lparr>pm_frontend := u\<rparr>)" "keeps (p\<lparr>pm_backend := u\<rparr>)" "keeps (p\<lparr>pm_gucs := g\<rparr>)"
    "keeps (p\<lparr>pm_draining := b\<rparr>)" "keeps (p\<lparr>pm_attached := b\<rparr>)" "keeps (p\<lparr>pm_endpoint := e\<rparr>)"
    "keeps (pm_tick p)" "keeps (with_cycle f p)" "keeps (start_cycle se' sql kind p)"
    "keeps (finish_cycle se' p)" "keeps (finish_active_cycle se' p)"
  by (rule keeps_same [OF assms]; simp add: pm_tick_def)+

lemma send_then_keeps:
  assumes "keeps p" "\<And>q. keeps q \<Longrightarrow> flow_keeps (k q)"
  shows "flow_keeps (send_then m p k)"
  using assms by (auto simp: send_then_def keeps_fields split: prod.splits bool.splits)

lemma send_all_then_keeps:
  assumes "keeps p" "\<And>q. keeps q \<Longrightarrow> flow_keeps (k q)"
  shows "flow_keeps (send_all_then ms p k)"
  using assms by (auto simp: send_all_then_def keeps_fields split: prod.splits bool.splits)

lemma end_or_swallow_keeps: "keeps p \<Longrightarrow> keeps (end_or_swallow se kind p)"
  by (auto simp: end_or_swallow_def keeps_fields split: cycle_kind.splits)

lemma do_deny_keeps: "keeps p \<Longrightarrow> flow_keeps (do_deny se sql kind info p)"
  unfolding do_deny_def Let_def
  by (intro send_then_keeps keeps_fields) (auto intro!: send_then_keeps simp: end_or_swallow_keeps split: cycle_kind.splits)

lemma send_replies_keeps:
  assumes "\<And>q. keeps q \<Longrightarrow> flow_keeps (k q)"
  shows "keeps p \<Longrightarrow> flow_keeps (send_replies ms p k)"
proof (induction ms arbitrary: p)
  case Nil
  then show ?case by (simp add: assms)
next
  case (Cons m ms)
  then show ?case by (auto intro!: send_then_keeps keeps_fields)
qed

lemma do_reply_keeps: "keeps p \<Longrightarrow> flow_keeps (do_reply se sql kind msgs p)"
  unfolding do_reply_def
  by (intro send_replies_keeps send_then_keeps keeps_fields) (simp_all add: end_or_swallow_keeps)

lemma keeps_destroy:
  "keeps p \<Longrightarrow> pm_lease p = Some h \<Longrightarrow> keeps (p\<lparr>pm_lease := None, pm_world := lease_destroy h (pm_world p)\<rparr>)"
  by (simp add: keeps_def destroyed)

lemma scatter_failed_keeps: "keeps p \<Longrightarrow> flow_keeps (scatter_failed se err broken p)"
  unfolding scatter_failed_def Let_def
  by (intro send_then_keeps)
    (auto intro!: keeps_fields send_then_keeps simp: keeps_destroy split: option.splits bool.splits)

lemma scatter_ok_keeps:
  "keeps p \<Longrightarrow> flow_keeps (send_then m (with_cycle f p) (\<lambda>p. Goes (finish_cycle se p)))"
  by (intro send_then_keeps keeps_fields) (simp_all add: keeps_fields)

lemma do_scatter_keeps:
  assumes "keeps p"
  shows "flow_keeps (do_scatter se sql kind req p)"
proof (cases "scatter_refusal kind (ds_status (pm_ds p))")
  case (Some err)
  with assms show ?thesis by (simp add: do_scatter_def Let_def scatter_failed_keeps keeps_fields)
next
  case None
  let ?p = "start_cycle se (Some sql) kind p"
  have ip: "keeps ?p" using assms by (rule keeps_fields)
  obtain res slot d w where e: "execute_scatter (se_env se) (se_params se) (se_schedule se) (se_startup se) req (pm_endpoint ?p)
      (pm_lease ?p) (pm_ds ?p) (pm_world ?p) = (res, slot, d, w)" by (metis prod_cases4)
  let ?q = "?p\<lparr>pm_lease := slot, pm_ds := d, pm_world := w\<rparr>"
  have iq: "keeps ?q" if "res \<noteq> ScatterPanic" "res \<noteq> ScatterStuck"
    using ip scatters [OF _ e that] by (simp add: keeps_def)
  show ?thesis
  proof (cases res)
    case (ScatterOk rows)
    with iq scatter_ok_keeps [of ?q] None e show ?thesis by (simp add: do_scatter_def Let_def)
  next
    case (ScatterFailure err broken)
    with iq scatter_failed_keeps [of ?q] None e show ?thesis by (simp add: do_scatter_def Let_def)
  next
    case ScatterStuck
    with None e show ?thesis by (simp add: do_scatter_def Let_def)
  next
    case ScatterPanic
    with None e show ?thesis by (simp add: do_scatter_def Let_def)
  qed
qed

lemma then_phase_keeps:
  assumes "phase_keeps ph" "\<And>m q. ph = Proceed m q \<Longrightarrow> keeps q \<Longrightarrow> flow_keeps (k m q)"
  shows "flow_keeps (then_phase ph k)"
  using assms by (cases ph) simp_all

lemma fe_swallow_keeps: "keeps p \<Longrightarrow> phase_keeps (fe_swallow se msg p)"
  by (auto simp: fe_swallow_def Let_def intro!: send_then_keeps keeps_fields)

lemma keeps_close: "keeps p \<Longrightarrow> pm_lease p = None \<Longrightarrow> keeps (p\<lparr>pm_registry := r\<rparr>)"
  by (auto simp: keeps_def intro: forgotten)

lemma fe_local_keeps: "keeps p \<Longrightarrow> phase_keeps (fe_local se msg p)"
  by (auto simp: fe_local_def Let_def intro!: send_then_keeps intro: keeps_fields keeps_close split: frontend_msg.splits option.splits)

lemma fe_on_query_keeps:
  assumes "keeps p"
  shows "phase_keeps (fe_on_query se msg p)"
proof (cases "cycle_input_of msg")
  case None
  with assms show ?thesis by (simp add: fe_on_query_def)
next
  case (Some input)
  let ?p = "p\<lparr>pm_extended := (ci_kind input \<noteq> Simple)\<rparr>"
  have ip: "keeps ?p" using assms by (rule keeps_fields)
  show ?thesis
  proof (cases "pm_hooks p")
    case None
    with Some ip show ?thesis by (simp add: fe_on_query_def)
  next
    case (Some h)
    obtain action cycle ctx where hk:
      "hook_on_query (sh_interceptor h) (sh_ctx h) (query_cycle_new (ci_sql input) (ci_kind input)) = (action, cycle, ctx)"
      by (metis prod_cases3)
    let ?q = "?p\<lparr>pm_hooks := Some (h\<lparr>sh_ctx := ctx\<rparr>)\<rparr>"
    have iq: "keeps ?q" using ip by (rule keeps_fields)
    show ?thesis
      using \<open>cycle_input_of msg = Some input\<close> Some hk iq do_deny_keeps [OF iq] do_reply_keeps [OF iq] do_scatter_keeps [OF iq]
      by (cases action) (simp_all add: fe_on_query_def Let_def keeps_fields)
  qed
qed

lemma fe_registry_keeps: "keeps p \<Longrightarrow> phase_keeps (fe_registry se msg p)"
  by (auto simp: fe_registry_def intro!: send_then_keeps keeps_fields split: parse_verdict.splits)

lemma attach_keeps:
  assumes ip: "keeps p"
    and e: "ensure_attached (se_env se) (se_params se) (pm_registry p) (pm_gucs p) (se_startup se) hint (pm_attach_state p) = (res, a)"
    and "res \<noteq> Stuck"
  shows "keeps (pm_set_attach_state a p) \<and> (res = Attached \<longrightarrow> pm_lease (pm_set_attach_state a p) \<noteq> None)"
proof (cases "pm_lease p")
  case (Some h)
  with e have "res = Attached" "a = pm_attach_state p" by (simp_all add: ensure_attached_def pm_attach_state_def)
  with ip Some show ?thesis by (simp add: pm_set_attach_state_def pm_attach_state_def keeps_def)
next
  case None
  with ip have "I (a_world (pm_attach_state p)) None (a_dirty (pm_attach_state p)) (pm_registry p)"
    "a_lease (pm_attach_state p) = None" by (simp_all add: keeps_def pm_attach_state_def)
  from attaches [OF this e assms(3)] show ?thesis by (simp add: keeps_def pm_set_attach_state_def)
qed

lemma keeps_record:
  "keeps p \<Longrightarrow> pm_lease p \<noteq> None \<Longrightarrow> keeps (p\<lparr>pm_registry := r, pm_dirty := True\<rparr>)"
  by (auto simp: keeps_def intro: recorded)

lemma fe_attach_keeps:
  assumes ip: "keeps p"
  shows "phase_keeps (fe_attach se hint msg p)"
proof -
  let ?hint = "case hint of Some s \<Rightarrow> Some s | None \<Rightarrow> bind_statement_sql msg (pm_registry p)"
  obtain res a where e: "ensure_attached (se_env se) (se_params se) (pm_registry p) (pm_gucs p) (se_startup se) ?hint (pm_attach_state p) = (res, a)"
    by fastforce
  note ai = attach_keeps [OF ip e]
  show ?thesis
    using e ai
    by (cases res; cases "check_parse msg (pm_registry p)") (auto simp: fe_attach_def Let_def intro!: keeps_fields(11) keeps_record)
qed

lemma fe_hook_keeps: "keeps p \<Longrightarrow> phase_keeps (fe_hook msg p)"
  by (auto simp: fe_hook_def Let_def intro!: keeps_fields send_all_then_keeps split: option.splits prod.splits action.splits)

lemma drop_broken_lease_keeps: "keeps p \<Longrightarrow> keeps (drop_broken_lease p)"
proof (cases "pm_lease p")
  case (Some h)
  assume "keeps p"
  from keeps_fields(11) [OF keeps_fields(12) [OF keeps_destroy [OF this Some]]] Some show ?thesis
    by (simp add: drop_broken_lease_def)
qed (simp add: drop_broken_lease_def keeps_fields)

lemma answer_lost_keeps:
  assumes "keeps p" "\<And>q. keeps q \<Longrightarrow> flow_keeps (k q)"
  shows "flow_keeps (answer_lost se p k)"
  using assms by (auto simp: answer_lost_def Let_def keeps_fields split: prod.splits)

lemma end_awaiting_keeps: "keeps p \<Longrightarrow> keeps (end_awaiting p)"
  unfolding end_awaiting_def by (intro keeps_fields)

lemma fe_send_failed_keeps: "keeps p \<Longrightarrow> flow_keeps (fe_send_failed se p)"
  by (auto simp: fe_send_failed_def upstream_failed_def Let_def
      intro!: answer_lost_keeps keeps_fields end_awaiting_keeps drop_broken_lease_keeps split: prod.splits retry_decision.splits)

lemma keeps_received:
  "keeps p \<Longrightarrow> pm_lease p = Some h \<Longrightarrow> wire c = wire (h_conn h) \<Longrightarrow> keeps (p\<lparr>pm_lease := Some (set_h_conn c h)\<rparr>)"
  by (simp add: keeps_def received)

lemma fe_forward_keeps:
  assumes "keeps p"
  shows "flow_keeps (fe_forward se msg p)"
proof (cases "pm_lease p")
  case None
  then show ?thesis by (simp add: fe_forward_def Let_def)
next
  case (Some h)
  let ?p = "if starts_response msg then p\<lparr>pm_hygiene := (pm_hygiene p)\<lparr>awaiting_response := True\<rparr>\<rparr> else p"
  obtain failed c where s: "(if triggers_response msg then conn_send (e_ops (se_env se)) msg (h_conn h)
      else conn_feed (e_ops (se_env se)) msg (h_conn h)) = (failed, c)" by fastforce
  have "keeps (p\<lparr>pm_lease := Some (set_h_conn c h)\<rparr>)"
    using assms Some s sent fed by (cases "triggers_response msg") (simp_all add: keeps_def)
  then have "keeps (?p\<lparr>pm_lease := Some (set_h_conn c h)\<rparr>)" by (simp add: keeps_def)
  with Some s fe_send_failed_keeps show ?thesis by (auto simp: fe_forward_def Let_def intro!: keeps_fields)
qed

lemma client_message_keeps:
  assumes "keeps p"
  shows "flow_keeps (client_message se msg p)"
  unfolding client_message_def Let_def
  by (intro then_phase_keeps fe_swallow_keeps fe_local_keeps fe_on_query_keeps fe_registry_keeps fe_attach_keeps fe_hook_keeps fe_forward_keeps assms)

lemma be_track_keeps:
  assumes "keeps p" "pm_lease p = Some g" "wire c = wire (h_conn g)"
  shows "keeps (be_track se m (set_h_conn c g) p)"
proof -
  have w: "wire (track_conn m c) = wire (h_conn g)" using assms(3) by (cases m) (simp_all add: io_simps)
  have conn: "h_conn (set_h_conn c g) = c" "set_h_conn c' (set_h_conn c g) = set_h_conn c' g" for c'
    by (simp_all add: h_conn_def set_h_conn_def)
  have i1: "keeps (p\<lparr>pm_lease := Some (set_h_conn (track_conn m c) g)\<rparr>)" using assms(1,2) w by (rule keeps_received)
  then have i2: "keeps (p\<lparr>pm_lease := Some (set_h_conn (track_conn m c) g), pm_dirty := True\<rparr>)"
    by (auto simp: keeps_def intro: recorded)
  show ?thesis
  proof (cases "\<exists>k v. m = BParameterStatus k v")
    case True
    with i1 i2 show ?thesis by (cases "pm_dirty p \<or> transaction_mode se") (auto simp: be_track_def Let_def conn keeps_def)
  next
    case False
    with i1 show ?thesis unfolding be_track_def Let_def conn by (cases m) auto
  qed
qed

lemma be_rows_keeps: "keeps p \<Longrightarrow> be_rows m p = Ret (m', q) \<Longrightarrow> keeps q"
  by (auto simp: be_rows_def Let_def intro: keeps_fields split: option.splits backend_msg.splits outcome.splits prod.splits)

lemma be_detach_keeps:
  assumes "keeps p"
  shows "keeps (be_detach se status p)"
proof (cases "transaction_mode se \<and> status = Idle \<and> pm_lease p \<noteq> None")
  case True
  then obtain h where h: "pm_lease p = Some h" by blast
  with assms have "I (lease_checkin_detached (se_env se) (pm_dirty p) h (pm_world p)) None False (pm_registry p)"
    by (simp add: keeps_def detached)
  with True h show ?thesis by (simp add: be_detach_def detach_if_idle_def keeps_def)
next
  case False
  with assms show ?thesis by (auto simp: be_detach_def detach_if_idle_def keeps_def split: option.splits)
qed

lemma take_report_keeps: "keeps p \<Longrightarrow> keeps (snd (take_report se m p))"
  by (auto simp: take_report_def Let_def keeps_fields split: option.splits prod.splits)

lemma give_report_keeps: "keeps p \<Longrightarrow> keeps (give_report rep p)"
  by (auto simp: give_report_def keeps_fields split: option.splits)

lemma be_forward_keeps:
  assumes "keeps p"
  shows "flow_keeps (be_forward se status m p)"
proof -
  obtain rep q where t: "take_report se m p = (rep, q)" by fastforce
  with take_report_keeps [OF assms, of m] have iq: "keeps q" by simp
  show ?thesis unfolding be_forward_def t prod.case Let_def
    by (rule send_then_keeps [OF iq]) (auto intro!: be_detach_keeps give_report_keeps keeps_fields)
qed

lemma be_hook_keeps: "keeps p \<Longrightarrow> flow_keeps (be_hook se status m p)"
  by (auto simp: be_hook_def Let_def intro!: be_forward_keeps keeps_fields send_all_then_keeps split: option.splits prod.splits action.splits)

lemma upstream_message_keeps:
  assumes "keeps p" "pm_lease p = Some g" "wire c = wire (h_conn g)"
  shows "flow_keeps (upstream_message se m (set_h_conn c g) p)"
  using be_rows_keeps [OF be_track_keeps [OF assms, of m]]
  by (fastforce simp: upstream_message_def Let_def intro: be_hook_keeps split: outcome.splits prod.splits option.splits)

lemma upstream_eof_keeps: "keeps p \<Longrightarrow> flow_keeps (upstream_eof se p)"
  by (auto simp: upstream_eof_def upstream_failed_def Let_def
      intro!: answer_lost_keeps keeps_fields end_awaiting_keeps drop_broken_lease_keeps split: prod.splits retry_decision.splits)

lemma upstream_arm_keeps:
  assumes "keeps p"
  shows "flow_keeps (upstream_arm se p)"
proof (cases "pm_lease p")
  case None
  with assms show ?thesis by (simp add: upstream_arm_def)
next
  case (Some h)
  with assms upstream_eof_keeps keeps_received [OF assms Some] upstream_message_keeps [OF assms Some] show ?thesis
    by (auto simp: upstream_arm_def split: list.splits recv.splits)
qed

lemma on_conn_keeps: "keeps p \<Longrightarrow> (\<And>c. wire (f c) = wire c) \<Longrightarrow> keeps (on_conn f p)"
  by (cases "pm_lease p") (auto simp: on_conn_def keeps_received keeps_same)

lemma pump_event_keeps:
  assumes "keeps p"
  shows "flow_keeps (pump_event se e p)"
proof (cases e)
  case CancelSignal
  with assms show ?thesis by (cases "pm_lease p") (auto simp: cancel_arm_def keeps_def cancelled)
qed (use assms in \<open>auto simp: client_message_keeps upstream_arm_keeps shutdown_arm_def on_conn_keeps\<close>)

lemma pump_run_keeps: "keeps p \<Longrightarrow> flow_keeps (pump_run se es p)"
proof (induction es arbitrary: p)
  case (Cons e es)
  from pump_event_keeps [OF Cons.prems, of e] Cons.IH show ?case
    by (cases "pump_event se e p") auto
qed simp

end

end
