(* ===== verification/Ledger.thy ===== *)
theory Ledger
  imports Scatter
begin

text \<open>
  The permit ledger. \<open>outstanding base w ks\<close> says that, over the permits \<open>base\<close> that others hold, exactly
  the permits of the pools listed in \<open>ks\<close> (with multiplicity) are out. Every way the session code gives
  a lease back - check-in, detach, destroy, or dropping it - keeps the same contract, the locale
  \<open>lease_return\<close>; attaching and scattering are accounted for against it.
\<close>

definition outstanding :: "(pool_key \<Rightarrow> nat) \<Rightarrow> 's world \<Rightarrow> pool_key list \<Rightarrow> bool" where
  "outstanding base w ks \<longleftrightarrow> world_wf w \<and> (\<forall>k. leased_out k w = base k + count_list ks k)"

lemma outstanding_pools:
  "w_pools w' = w_pools w \<Longrightarrow> outstanding base w' ks = outstanding base w ks"
  by (simp add: outstanding_def world_wf_def leased_out_def)

lemma outstanding_Cons_pool:
  assumes "outstanding base w (key # ks)"
  obtains p where "w_pools w key = Some p" "p_permits p < capacity (p_config p)"
proof -
  have "leased_out key w > 0" using assms by (simp add: outstanding_def)
  then show ?thesis using that by (auto simp: leased_out_def split: option.splits)
qed

section \<open>Giving a lease back\<close>

locale lease_return =
  fixes giveback :: "'s held \<Rightarrow> 's world \<Rightarrow> 's world"
  assumes giveback: "outstanding base w (h_key h # ks) \<Longrightarrow> outstanding base (giveback h w) ks"
begin

lemma giveback_all: "outstanding base w (map h_key hs @ ks) \<Longrightarrow> outstanding base (fold giveback hs w) ks"
proof (induction hs arbitrary: w)
  case (Cons h hs)
  from giveback [of base w h "map h_key hs @ ks"] Cons show ?case by simp
qed simp

end

text \<open>An operation on the pool that puts one permit back and keeps the configuration.\<close>

lemma pool_apply_gives_back:
  assumes f: "\<And>t p. p_permits (snd (f t p)) = Suc (p_permits p) \<and> p_config (snd (f t p)) = p_config p"
    and o: "outstanding base w (key # ks)"
  shows "outstanding base (pool_apply key f w) ks"
proof -
  obtain p where p: "w_pools w key = Some p" "p_permits p < capacity (p_config p)"
    using outstanding_Cons_pool [OF o] .
  obtain t' p' where fp: "f (w_tick w) p = (t', p')" by fastforce
  with f [of "w_tick w" p] have p': "p_permits p' = Suc (p_permits p)" "p_config p' = p_config p" by simp_all
  have w: "pool_apply key f w = w\<lparr>w_pools := (w_pools w)(key \<mapsto> p'), w_tick := t'\<rparr>"
    using p(1) fp by (simp add: pool_apply_def)
  have "world_wf (pool_apply key f w)"
    unfolding w using o p p' by (intro world_wf_put) (simp_all add: outstanding_def)
  moreover have "leased_out k (pool_apply key f w) = base k + count_list ks k" for k
  proof -
    have "leased_out k w = base k + count_list (key # ks) k" using o by (simp add: outstanding_def)
    moreover have "leased_out key w = capacity (p_config p) - p_permits p" using p(1) by (simp add: leased_out_def)
    ultimately show ?thesis unfolding w using leased_out_put [OF p(1)] p(2) p' by (cases "k = key") auto
  qed
  ultimately show ?thesis by (simp add: outstanding_def)
qed

lemma park_or_evict_gives_back:
  "p_permits (snd (park_or_evict clock t c created p)) = Suc (p_permits p) \<and>
   p_config (snd (park_or_evict clock t c created p)) = p_config p"
  by (simp add: park_or_evict_def)

lemma checkin_gives_back:
  "p_permits (snd (checkin ops clock h l t p)) = Suc (p_permits p) \<and> p_config (snd (checkin ops clock h l t p)) = p_config p"
  by (simp add: checkin_def Let_def park_or_evict_gives_back split: prod.splits io.splits)

lemma checkin_detached_gives_back:
  "p_permits (snd (checkin_detached ops clock d l t p)) = Suc (p_permits p) \<and>
   p_config (snd (checkin_detached ops clock d l t p)) = p_config p"
  by (simp add: checkin_detached_def Let_def park_or_evict_gives_back split: prod.splits io.splits)

interpretation rd: lease_return lease_destroy
  by unfold_locales (unfold lease_destroy_def, rule pool_apply_gives_back, simp_all)

interpretation rc: lease_return "lease_checkin env hyg" for env hyg
  by unfold_locales (unfold lease_checkin_def, rule pool_apply_gives_back, simp_all add: checkin_gives_back)

interpretation rt: lease_return "lease_checkin_detached env dirty" for env dirty
  by unfold_locales
    (unfold lease_checkin_detached_def, rule pool_apply_gives_back, simp_all add: checkin_detached_gives_back)

interpretation rp: lease_return drop_held
  by unfold_locales (unfold drop_held_def, rule pool_apply_gives_back, simp_all add: drop_lease_def)

section \<open>Taking one\<close>

lemma checkout_takes:
  assumes o: "outstanding base w ks" and p: "w_pools w key = Some p"
    and co: "checkout ops clock connect t p = (r, t', p')"
  shows "r = Done l \<Longrightarrow> outstanding base (w\<lparr>w_pools := (w_pools w)(key \<mapsto> p'), w_tick := t'\<rparr>) (key # ks)"
    "r = Fail e \<Longrightarrow> outstanding base (w\<lparr>w_pools := (w_pools w)(key \<mapsto> p'), w_tick := t'\<rparr>) ks"
proof -
  have le: "p_permits p \<le> capacity (p_config p)" using o p by (simp add: outstanding_def world_wf_def)
  note cp = checkout_permits [OF co le]
  let ?w = "w\<lparr>w_pools := (w_pools w)(key \<mapsto> p'), w_tick := t'\<rparr>"
  have wf: "world_wf ?w" using o cp(2) by (intro world_wf_put) (simp_all add: outstanding_def)
  have lo: "leased_out k ?w = (if k = key then capacity (p_config p') - p_permits p' else leased_out k w)" for k
    by (rule leased_out_put [OF p])
  have old: "leased_out k w = base k + count_list ks k" for k using o by (simp add: outstanding_def)
  have key: "leased_out key w = capacity (p_config p) - p_permits p" using p by (simp add: leased_out_def)
  show "outstanding base ?w (key # ks)" if "r = Done l"
    using wf lo old [of key] old key cp(1) cp(3) [OF that] le by (auto simp: outstanding_def)
  show "outstanding base ?w ks" if "r = Fail e"
    using wf lo old key cp(1) cp(4) [OF that] by (auto simp: outstanding_def)
qed

lemma resolve_pool_outstanding:
  assumes "outstanding base w ks" "resolve_pool env params ep w = (key, p, w')"
  shows "outstanding base w' ks"
  using resolve_pool_spec [OF assms(2)] assms(1) by (simp add: outstanding_def)

lemma attach_outstanding:
  assumes o: "outstanding base (a_world a) ks" and "a_lease a = None"
    and e: "ensure_attached env params r gucs startup hint a = (res, a')" and "res \<noteq> Stuck"
  shows "outstanding base (a_world a') ((case a_lease a' of None \<Rightarrow> [] | Some h \<Rightarrow> [h_key h]) @ ks)"
    "res = Attached \<longleftrightarrow> a_lease a' \<noteq> None"
proof -
  have wf: "world_wf (a_world a)" using o by (simp add: outstanding_def)
  have c: "attach_contract env params a (Some res) a'"
    using attach_loop_contract [OF wf assms(2)] e assms(2) by (simp add: ensure_attached_def)
  show "outstanding base (a_world a') ((case a_lease a' of None \<Rightarrow> [] | Some h \<Rightarrow> [h_key h]) @ ks)"
    using c o assms(4) by (cases res) (auto simp: attach_contract_def outstanding_def)
  show "res = Attached \<longleftrightarrow> a_lease a' \<noteq> None"
    using c assms(4) by (cases res) (auto simp: attach_contract_def)
qed

section \<open>Scatter\<close>

definition slot_keys :: "'s held option \<Rightarrow> pool_key list" where
  "slot_keys slot = (case slot of None \<Rightarrow> [] | Some h \<Rightarrow> [h_key h])"

lemma slot_keys_simps [simp]: "slot_keys None = []" "slot_keys (Some h) = [h_key h]"
  by (simp_all add: slot_keys_def)

definition outcome_keys :: "'s leg_outcome list \<Rightarrow> pool_key list" where
  "outcome_keys outs = concat (map (\<lambda>out. slot_keys (lo_lease out)) outs)"

lemma outcome_keys_simps [simp]:
  "outcome_keys [] = []" "outcome_keys (out # outs) = slot_keys (lo_lease out) @ outcome_keys outs"
  "outcome_keys (outs @ outs') = outcome_keys outs @ outcome_keys outs'"
  by (simp_all add: outcome_keys_def)

lemma outstanding_rotate: "outstanding base w (xs @ ys @ zs) = outstanding base w (ys @ xs @ zs)"
  by (simp add: outstanding_def add.left_commute)

lemma leg_on_lease_outstanding:
  assumes "outstanding base w (key # ks)" "leg_on_lease env startup i sql key l w = (Some out, w')"
  shows "outstanding base w' (slot_keys (lo_lease out) @ ks)"
  using assms rd.giveback [of base w "\<lparr>h_lease = _, h_key = key\<rparr>" ks]
  by (auto simp: leg_on_lease_def leg_connect_failed_def leg_finished_def Let_def
      split: prod.splits io.splits option.splits if_splits)

lemma run_leg_outstanding:
  assumes o: "outstanding base w ks" and r: "run_leg_pooled env startup i sql key w = (Some out, w')"
  shows "outstanding base w' (slot_keys (lo_lease out) @ ks)"
proof -
  obtain p where p: "w_pools w key = Some p" using r by (auto simp: run_leg_pooled_def split: option.splits)
  obtain res t p1 where co: "checkout (e_ops env) (e_clock env) (e_connect env) (w_tick w) p = (res, t, p1)"
    by (metis prod_cases3)
  let ?w = "w\<lparr>w_pools := (w_pools w)(key \<mapsto> p1), w_tick := t\<rparr>"
  show ?thesis
  proof (cases res)
    case (Done l)
    with r p co have "leg_on_lease env startup i sql key l ?w = (Some out, w')" by (simp add: run_leg_pooled_def)
    with checkout_takes(1) [OF o p co Done] show ?thesis by (blast intro: leg_on_lease_outstanding)
  next
    case (Fail e)
    with r p co have "out = leg_connect_failed (e_ops env) i e" "w' = ?w" by (simp_all add: run_leg_pooled_def)
    with checkout_takes(2) [OF o p co Fail] show ?thesis by (simp add: leg_connect_failed_def)
  next
    case Blocked
    with r p co show ?thesis by (simp add: run_leg_pooled_def)
  qed
qed

lemma outstanding_same_permits:
  assumes "outstanding base w ks" "w_pools w key = Some p" "p_permits p' = p_permits p" "p_config p' = p_config p"
  shows "outstanding base (w\<lparr>w_pools := (w_pools w)(key \<mapsto> p'), w_tick := t\<rparr>) ks"
proof -
  have "leased_out k (w\<lparr>w_pools := (w_pools w)(key \<mapsto> p'), w_tick := t\<rparr>) = leased_out k w" for k
    using assms(2-4) by (simp add: leased_out_def)
  with assms show ?thesis by (auto simp: outstanding_def world_wf_def)
qed

lemma abort_leg_outstanding:
  assumes o: "outstanding base w ks"
  shows "outstanding base (abort_leg env params sch leg w) ks"
proof (cases "sch_abort sch leg = Started \<and> w_pools w (leg_key env params leg) \<noteq> None")
  case False
  with o show ?thesis by (cases "sch_abort sch leg") (auto simp: abort_leg_def Let_def)
next
  case True
  let ?key = "leg_key env params leg"
  obtain p where p: "w_pools w ?key = Some p" using True by blast
  obtain res t p1 where co: "checkout (e_ops env) (e_clock env) (e_connect env) (w_tick w) p = (res, t, p1)"
    by (metis prod_cases3)
  show ?thesis
  proof (cases res)
    case (Done l)
    with checkout_takes(1) [OF o p co Done] rp.giveback [of base _ "\<lparr>h_lease = l, h_key = ?key\<rparr>" ks] True p co show ?thesis
      by (simp add: abort_leg_def Let_def)
  next
    case (Fail e)
    with checkout_takes(2) [OF o p co Fail] True p co show ?thesis by (simp add: abort_leg_def Let_def)
  next
    case Blocked
    let ?p = "if p_permits p1 < p_permits p then release_permit p1 else p1"
    have "p_permits ?p = p_permits p \<and> p_config ?p = p_config p"
      using checkout_not_Done [OF co] Blocked by (auto simp: add_waiting_def)
    with outstanding_same_permits [OF o p] True p co Blocked show ?thesis by (simp add: abort_leg_def Let_def)
  qed
qed

lemma abort_legs_outstanding:
  "outstanding base w ks \<Longrightarrow> outstanding base (fold (abort_leg env params sch) legs w) ks"
  by (induction legs arbitrary: w) (simp_all add: abort_leg_outstanding)

lemma drop_outcome_outstanding:
  "outstanding base w (slot_keys (lo_lease out) @ ks) \<Longrightarrow> outstanding base (drop_outcome out w) ks"
  by (auto simp: drop_outcome_def rp.giveback split: option.splits)

lemma drop_outcomes_outstanding:
  "outstanding base w (outcome_keys outs @ ks) \<Longrightarrow> outstanding base (fold drop_outcome outs w) ks"
  by (induction outs arbitrary: w) (simp_all add: drop_outcome_outstanding)

lemma checkin_outcomes_outstanding:
  "outstanding base w (outcome_keys outs @ ks) \<Longrightarrow> outstanding base (fold (checkin_outcome env) outs w) ks"
proof (induction outs arbitrary: w)
  case (Cons out outs)
  then have "outstanding base (checkin_outcome env out w) (outcome_keys outs @ ks)"
    by (auto simp: checkin_outcome_def rt.giveback split: option.splits)
  with Cons.IH show ?case by simp
qed simp

lemma gather_outstanding:
  "outstanding base w (outcome_keys outs @ ks) \<Longrightarrow> gather env params sch startup legs outs w = (Some (outs', e), w') \<Longrightarrow>
     outstanding base w' (outcome_keys outs' @ ks)"
proof (induction legs arbitrary: outs w)
  case Nil
  then show ?case by simp
next
  case (Cons leg legs)
  obtain ro w1 where run: "run_leg_pooled env startup (leg_endpoint leg) (leg_sql leg) (leg_key env params leg) w = (ro, w1)"
    by fastforce
  with Cons.prems(2) obtain out where ro: "ro = Some out" by (cases ro) auto
  have o1: "outstanding base w1 (slot_keys (lo_lease out) @ outcome_keys outs @ ks)"
    using run_leg_outstanding [OF Cons.prems(1)] run ro by blast
  show ?case
  proof (cases "lo_error out \<noteq> None \<or> lo_broken out")
    case True
    with Cons.prems(2) run ro have "outs' = outs" "w' = fold (abort_leg env params sch) legs (drop_outcome out w1)" by auto
    with abort_legs_outstanding [OF drop_outcome_outstanding [OF o1]] show ?thesis by simp
  next
    case False
    with Cons.prems(2) run ro have "gather env params sch startup legs (outs @ [out]) w1 = (Some (outs', e), w')" by auto
    moreover have "outstanding base w1 (outcome_keys (outs @ [out]) @ ks)"
      using o1 outstanding_rotate [of base w1 "slot_keys (lo_lease out)" "outcome_keys outs" ks] by simp
    ultimately show ?thesis using Cons.IH by blast
  qed
qed

lemma set_h_conn_key [simp]: "h_key (set_h_conn c h) = h_key h"
  by (simp add: set_h_conn_def)

lemma resolve_legs_outstanding: "outstanding base w ks \<Longrightarrow> outstanding base (resolve_legs env params legs w) ks"
proof (induction legs arbitrary: w)
  case (Cons leg legs)
  then show ?case by (auto split: option.splits prod.splits dest: resolve_pool_outstanding)
qed simp

lemma scatter_merge_outstanding:
  assumes "outstanding base w (outcome_keys outs @ slot_keys slot)"
    and "scatter_merge env req own outs slot d w = (res, slot', d', w')" "res \<noteq> ScatterPanic"
  shows "outstanding base w' (slot_keys slot') \<and> slot' = slot"
  using assms checkin_outcomes_outstanding [OF assms(1), of env] drop_outcomes_outstanding [OF assms(1)]
  by (auto simp: scatter_merge_def Let_def split: prod.splits merged.splits)

lemma scatter_own_leg_outstanding:
  assumes o: "outstanding base w (outcome_keys outs @ slot_keys slot)"
    and e: "scatter_own_leg env req own outs slot d w = (res, slot', d', w')" "res \<noteq> ScatterPanic" "res \<noteq> ScatterStuck"
  shows "outstanding base w' (slot_keys slot') \<and> slot_keys slot' = slot_keys slot"
proof (cases "own \<noteq> None \<and> slot \<noteq> None")
  case True
  then obtain leg h where lh: "own = Some leg" "slot = Some h" by blast
  obtain ro c where run: "run_query_collect (e_ops env) (e_codec env) (leg_sql leg) (h_conn h) = (ro, c)" by fastforce
  with e lh obtain co where co: "ro = Some co" by (cases ro) (auto simp: scatter_own_leg_def)
  have o': "outstanding base w (outcome_keys outs @ slot_keys (Some (set_h_conn c h)))" using o lh by simp
  consider (broken) "co_broken co" | (error) err where "\<not> co_broken co" "co_error co = Some err"
    | (fine) "\<not> co_broken co" "co_error co = None" by blast
  then show ?thesis
  proof cases
    case broken
    with e lh run co have "slot' = Some (set_h_conn c h)" "w' = fold drop_outcome outs w" by (auto simp: scatter_own_leg_def Let_def)
    with drop_outcomes_outstanding [OF o'] lh show ?thesis by simp
  next
    case error
    with e lh run co have "slot' = Some (set_h_conn c h)" "w' = fold (checkin_outcome env) outs w"
      by (auto simp: scatter_own_leg_def scatter_fail_def Let_def)
    with checkin_outcomes_outstanding [OF o'] lh show ?thesis by simp
  next
    case fine
    with e lh run co have "scatter_merge env req (Some co) outs (Some (set_h_conn c h)) d w = (res, slot', d', w')"
      by (simp add: scatter_own_leg_def Let_def)
    from scatter_merge_outstanding [OF o' this e(2)] lh show ?thesis by auto
  qed
next
  case False
  with e(1) have "scatter_merge env req None outs slot d w = (res, slot', d', w')"
    by (auto simp: scatter_own_leg_def split: option.splits)
  from scatter_merge_outstanding [OF o this e(2)] show ?thesis by auto
qed

lemma execute_scatter_outstanding:
  assumes o: "outstanding base w (slot_keys slot)"
    and e: "execute_scatter env params sch startup req cur slot d w = (res, slot', d', w')"
      "res \<noteq> ScatterPanic" "res \<noteq> ScatterStuck"
  shows "outstanding base w' (slot_keys slot') \<and> slot_keys slot' = slot_keys slot"
proof (cases "List.find (\<lambda>leg. route_endpoint (e_route env) (leg_endpoint leg) = None) (sr_legs req)")
  case (Some leg)
  with o e show ?thesis by (auto simp: execute_scatter_def)
next
  case None
  let ?w = "resolve_legs env params (sr_legs req) w"
  obtain own pooled where part: "partition_legs cur (slot \<noteq> None) (sr_legs req) = (own, pooled)" by fastforce
  obtain g w1 where g: "gather env params sch startup (sch_order sch pooled) [] ?w = (g, w1)" by fastforce
  with e None part obtain outs err where ge: "g = Some (outs, err)" by (cases g) (auto simp: execute_scatter_def)
  have "outstanding base ?w (outcome_keys [] @ slot_keys slot)" using resolve_legs_outstanding [OF o] by simp
  from gather_outstanding [OF this] g ge have o1: "outstanding base w1 (outcome_keys outs @ slot_keys slot)" by blast
  show ?thesis
  proof (cases err)
    case (Some er)
    with e None part g ge have "slot' = slot" "w' = fold (checkin_outcome env) outs w1"
      by (simp_all add: execute_scatter_def scatter_fail_def)
    with checkin_outcomes_outstanding [OF o1] show ?thesis by simp
  next
    case None': None
    with e None part g ge have "scatter_own_leg env req own outs slot d w1 = (res, slot', d', w')"
      by (simp add: execute_scatter_def)
    from scatter_own_leg_outstanding [OF o1 this e(2,3)] show ?thesis .
  qed
qed

end
