(* ===== verification/Pump_Laws.thy ===== *)
theory Pump_Laws
  imports Pump_Invariant Ledger
begin

text \<open>
  Properties of the session pump of theory \<open>Pump\<close>: what the client and the server get to see, the
  recovery after an injected error, the bookkeeping of prepared statements, and the conservation of
  pool permits over a whole session.
\<close>

section \<open>Recovery after an injected error\<close>

lemma swallow_other:
  "pm_swallow p \<Longrightarrow> msg \<noteq> FSync \<Longrightarrow> client_message se msg p = Goes p"
  by (simp add: client_message_def fe_swallow_def)

lemma swallow_run:
  "pm_swallow p \<Longrightarrow> list_all (\<lambda>m. m \<noteq> FSync \<and> m \<noteq> FTerminate) ms \<Longrightarrow> pump_run se (map ClientMsg ms @ es) p = pump_run se es p"
  by (induction ms) (simp_all add: swallow_other)

lemma swallow_sync:
  assumes "pm_swallow p" "ds_results (pm_ds p) = []"
  shows "\<exists>q. client_message se FSync p = Goes q \<and> \<not> pm_swallow q \<and> pm_lease q = pm_lease p \<and>
     w_pools (pm_world q) = w_pools (pm_world p) \<and> ds_sent (pm_ds q) = ds_sent (pm_ds p) @ [BReadyForQuery (lease_status p)]"
  using assms by (simp add: client_message_def fe_swallow_def lease_status_def)

text \<open>
  Property C13. After an injected error (a denied extended query, a duplicate statement, a lost connection)
  the client's pipelined messages are discarded up to its Sync: whatever they are, none of them reaches
  the upstream connection or a pool, the client gets nothing for them, and the Sync gets exactly one
  ReadyForQuery with the connection's transaction status, after which the session is back to normal.
\<close>

theorem swallow_until_sync:
  assumes "pm_swallow p" "ds_results (pm_ds p) = []" "list_all (\<lambda>m. m \<noteq> FSync \<and> m \<noteq> FTerminate) ms"
  shows "\<exists>q. pump_run se (map ClientMsg ms @ [ClientMsg FSync]) p = Goes q \<and> \<not> pm_swallow q \<and> pm_lease q = pm_lease p \<and>
     w_pools (pm_world q) = w_pools (pm_world p) \<and> ds_sent (pm_ds q) = ds_sent (pm_ds p) @ [BReadyForQuery (lease_status p)]"
  using swallow_sync [OF assms(1,2), of se] swallow_run [OF assms(1,3), of se "[ClientMsg FSync]"] by auto

section \<open>Denied queries\<close>

text \<open>A session whose interceptor denies the query \<open>sql\<close> with the error \<open>info\<close>.\<close>

definition denies :: "('s, 'c) pump \<Rightarrow> string \<Rightarrow> cycle_kind \<Rightarrow> error_info \<Rightarrow> bool" where
  "denies p sql kind info \<longleftrightarrow>
     (\<exists>h q ctx. pm_hooks p = Some h \<and>
        hook_on_query (sh_interceptor h) (sh_ctx h) (query_cycle_new sql kind) = (Deny info, q, ctx))"

lemma on_query_deny:
  assumes "denies p sql kind info" "cycle_input_of msg = Some \<lparr>ci_sql = sql, ci_kind = kind\<rparr>"
  shows "\<exists>h ctx. pm_hooks p = Some h \<and>
    fe_on_query se msg p = Handled (do_deny se sql kind info (p\<lparr>pm_extended := (kind \<noteq> Simple), pm_hooks := Some (h\<lparr>sh_ctx := ctx\<rparr>)\<rparr>))"
  using assms by (auto simp: denies_def fe_on_query_def)

lemma cycle_input_not_local:
  "cycle_input_of msg = Some i \<Longrightarrow> fe_local se msg p = Proceed msg p"
  by (cases msg) (auto simp: fe_local_def)

lemma client_message_query:
  assumes "\<not> pm_swallow p" "cycle_input_of msg = Some i" "fe_on_query se msg p = Handled f"
  shows "client_message se msg p = f"
  using assms by (simp add: client_message_def fe_swallow_def cycle_input_not_local)

text \<open>
  Property C14. A denied query never reaches a database: the lease and every pool are untouched. A simple
  query is answered by the error and one ReadyForQuery carrying the current transaction status; a
  denied Parse is answered by the error alone and the rest of the client's pipeline is discarded.
\<close>

theorem deny_never_reaches_upstream:
  assumes "\<not> pm_swallow p" "ds_results (pm_ds p) = []" "cycle_input_of msg = Some \<lparr>ci_sql = sql, ci_kind = kind\<rparr>"
    and "denies p sql kind info"
  shows "\<exists>q. client_message se msg p = Goes q \<and> pm_lease q = pm_lease p \<and>
     w_pools (pm_world q) = w_pools (pm_world p) \<and> pm_swallow q = (kind \<noteq> Simple) \<and>
     ds_sent (pm_ds q) = ds_sent (pm_ds p) @ BErrorResponse (err_into (e_codec (se_env se)) info) #
       (if kind = Simple then [BReadyForQuery (lease_status p)] else [])"
proof -
  obtain h ctx where "fe_on_query se msg p =
      Handled (do_deny se sql kind info (p\<lparr>pm_extended := (kind \<noteq> Simple), pm_hooks := Some (h\<lparr>sh_ctx := ctx\<rparr>)\<rparr>))"
    using on_query_deny [OF assms(4,3), of se] by blast
  from client_message_query [OF assms(1,3) this] assms(1,2) show ?thesis
    by (cases kind) (auto simp: do_deny_def end_or_swallow_def lease_status_def)
qed

section \<open>Prepared statements\<close>

lemma client_message_parse:
  assumes "\<not> pm_swallow p" "pm_hooks p = None" "msg = FParse m" "fe_registry se msg (p\<lparr>pm_extended := True\<rparr>) = Handled f"
  shows "client_message se msg p = f"
  using assms by (simp add: client_message_def fe_swallow_def cycle_input_not_local fe_on_query_def)

lemma parse_answered_locally:
  assumes "\<not> pm_swallow p" "ds_results (pm_ds p) = []" "pm_hooks p = None"
    and "parse_name m = Some name" "name \<noteq> []" "registry_lookup (pm_registry p) name = Some (known, oids)"
  shows "\<exists>q. client_message se (FParse m) p = Goes q \<and> pm_lease q = pm_lease p \<and> pm_world q = pm_world p \<and>
     pm_registry q = pm_registry p \<and>
     (if known = parse_query m then ds_sent (pm_ds q) = ds_sent (pm_ds p) @ [BParseComplete] \<and> \<not> pm_swallow q
      else ds_sent (pm_ds q) = ds_sent (pm_ds p) @
             [BErrorResponse (err_into (e_codec (se_env se)) (duplicate_statement name))] \<and> pm_swallow q)"
proof (cases "known = parse_query m")
  case True
  with assms have "fe_registry se (FParse m) (p\<lparr>pm_extended := True\<rparr>) = Handled (send_then BParseComplete (p\<lparr>pm_extended := True\<rparr>) Goes)"
    by (simp add: fe_registry_def)
  from client_message_parse [OF assms(1,3) refl this] True assms(1,2) show ?thesis by simp
next
  case False
  with assms have "fe_registry se (FParse m) (p\<lparr>pm_extended := True\<rparr>) =
      Handled (send_then (BErrorResponse (err_into (e_codec (se_env se)) (duplicate_statement name))) (p\<lparr>pm_extended := True\<rparr>)
        (\<lambda>p. Goes (p\<lparr>pm_swallow := True\<rparr>)))"
    by (simp add: fe_registry_def)
  from client_message_parse [OF assms(1,3) refl this] False assms(2) show ?thesis by simp
qed

text \<open>
  Property C28. Without an interceptor, a Parse of a registered name is settled by the proxy: with the same
  SQL it is answered ParseComplete, with different SQL by error 42P05 followed by the discard of the
  pipeline; either way nothing is sent upstream and the registry keeps the statement.
\<close>

theorem registered_parse_answered_locally:
  assumes "\<not> pm_swallow p" "ds_results (pm_ds p) = []" "pm_hooks p = None"
    and "parse_name m = Some name" "name \<noteq> []" "registry_lookup (pm_registry p) name = Some (known, oids)"
  shows "\<exists>q. client_message se (FParse m) p = Goes q \<and> pm_lease q = pm_lease p \<and> pm_world q = pm_world p \<and>
     pm_registry q = pm_registry p \<and>
     (if known = parse_query m then ds_sent (pm_ds q) = ds_sent (pm_ds p) @ [BParseComplete] \<and> \<not> pm_swallow q
      else ds_sent (pm_ds q) = ds_sent (pm_ds p) @
             [BErrorResponse (err_into (e_codec (se_env se)) (duplicate_statement name))] \<and> pm_swallow q)"
  using assms by (rule parse_answered_locally)

section \<open>The pump's invariant\<close>

text \<open>
  At every moment of a session: exactly the permit of the lease it holds is out on its behalf (over the
  permits \<open>base\<close> of others), and a lease that is not marked dirty carries no prepared statement of the
  registry.
\<close>

definition permit_inv :: "(pool_key \<Rightarrow> nat) \<Rightarrow> 's world \<Rightarrow> 's held option \<Rightarrow> bool \<Rightarrow> statement_registry \<Rightarrow> bool" where
  "permit_inv base w slot dirty r \<longleftrightarrow> outstanding base w (slot_keys slot) \<and> (slot \<noteq> None \<and> \<not> dirty \<longrightarrow> r = [])"

abbreviation pump_inv :: "(pool_key \<Rightarrow> nat) \<Rightarrow> ('s, 'c) pump \<Rightarrow> bool" where
  "pump_inv base p \<equiv> permit_inv base (pm_world p) (pm_lease p) (pm_dirty p) (pm_registry p)"

lemma slot_keys_None [simp]: "slot_keys slot = [] \<longleftrightarrow> slot = None"
  by (cases slot) simp_all

lemma prepare_lease_dirty:
  "prepare_lease ops r gucs startup l dirty = Ready c d \<Longrightarrow> r \<noteq> [] \<Longrightarrow> d"
  by (auto simp: prepare_lease_def replay_statements_def split: prod.splits io.splits prepared.splits if_splits)

lemma attach_loop_dirty:
  "attach_loop n env params r gucs startup hint a = (Attached, a') \<Longrightarrow> r \<noteq> [] \<Longrightarrow> a_dirty a'"
  by (blast dest: attach_loop_turn attach_turn_attached prepare_lease_dirty)

interpretation permits: session_invariant se "permit_inv base" for se base
proof (unfold_locales, goal_cases)
  case (1 w' w slot d r)
  then show ?case using outstanding_pools [of w' w] by (simp add: permit_inv_def)
next
  case (6 w h d r)
  then show ?case using rd.giveback [of base w h "[]"] by (simp add: permit_inv_def)
next
  case (7 w h d r)
  then show ?case using rt.giveback [of base w h "[]"] by (simp add: permit_inv_def)
next
  case (10 a r gucs hint res a')
  from 10(1) have o: "outstanding base (a_world a) []" by (simp add: permit_inv_def)
  note ao = attach_outstanding [OF o 10(2,3,4)]
  have "a_dirty a'" if "res = Attached" "r \<noteq> []"
    using 10(2,3) that attach_loop_dirty [OF _ that(2)] by (simp add: ensure_attached_def)
  with ao show ?case by (auto simp: permit_inv_def slot_keys_def)
next
  case (11 w slot d r req cur ds sres slot' ds' w')
  from 11(1) have o: "outstanding base w (slot_keys slot)" by (simp add: permit_inv_def)
  note so = execute_scatter_outstanding [OF o 11(2,3,4)]
  then have "slot' = None \<longleftrightarrow> slot = None" by (metis slot_keys_None)
  with so 11(1) show ?case by (auto simp: permit_inv_def)
qed (simp_all add: permit_inv_def)

lemma pump_run_inv:
  assumes "pump_inv base p"
  shows "pump_run se es p = Goes q \<Longrightarrow> pump_inv base q" "pump_run se es p = Ends reason q \<Longrightarrow> pump_inv base q"
  using permits.pump_run_keeps [of base p se es] assms by (simp_all add: permits.keeps_def)

lemma session_end_outstanding:
  assumes "pump_inv base p"
  shows "outstanding base (fst (session_end se reason p)) []"
proof (cases "pm_lease p")
  case None
  with assms show ?thesis by (cases reason) (simp_all add: session_end_def permit_inv_def)
next
  case (Some h)
  then have "outstanding base (pm_world p) [h_key h]" using assms by (simp add: permit_inv_def)
  with Some rc.giveback [of base "pm_world p" h "[]"] rd.giveback [of base "pm_world p" h "[]"] show ?thesis
    by (cases reason) (simp_all add: session_end_def)
qed

text \<open>
  Property C2. A session never leaks a pool permit. Whatever the client, the servers, the interceptor, the
  cancel and shutdown signals do, and however often the session attaches, detaches, scatters, loses a
  connection and relinks: while it runs, exactly the permit of the lease it currently holds is out on
  its behalf, and when it ends every pool has as many permits out as before it attached.
\<close>

theorem session_returns_every_permit:
  assumes "world_wf (pm_world p)" "pm_lease p = None"
    and "pump_run se es p = Ends reason q"
  shows "leased_out k (fst (session_end se reason q)) = leased_out k (pm_world p) \<and>
    leased_out k (pm_world q) = leased_out k (pm_world p) + count_list (slot_keys (pm_lease q)) k"
proof -
  have "pump_inv (\<lambda>k. leased_out k (pm_world p)) p" using assms(1,2) by (simp add: permit_inv_def outstanding_def)
  from pump_run_inv(2) [OF this assms(3)] have i: "pump_inv (\<lambda>k. leased_out k (pm_world p)) q" .
  from session_end_outstanding [OF i] i show ?thesis by (simp add: outstanding_def permit_inv_def)
qed

section \<open>Passthrough\<close>

definition accepts :: "'s client_ops \<Rightarrow> bool" where
  "accepts ops \<longleftrightarrow> (\<forall>w m. (\<exists>r. op_send ops w m = Inr r) \<and> (\<exists>r. op_feed ops w m = Inr r))"

text \<open>Messages the proxy has no business with: no Terminate, no Parse of a named statement.\<close>

definition plain_msg :: "frontend_msg \<Rightarrow> bool" where
  "plain_msg m \<longleftrightarrow> m \<noteq> FTerminate \<and> check_parse m [] = NotNamed"

lemma plain_msg_check: "plain_msg m \<Longrightarrow> check_parse m r = NotNamed"
  by (cases m) (auto simp: plain_msg_def split: option.splits if_splits)

definition open_session :: "('s, 'c) pump \<Rightarrow> bool" where
  "open_session p \<longleftrightarrow> \<not> pm_swallow p \<and> pm_hooks p = None \<and> pm_lease p \<noteq> None"

definition lease_log :: "('s \<Rightarrow> frontend_msg list) \<Rightarrow> ('s, 'c) pump \<Rightarrow> frontend_msg list" where
  "lease_log log p = (case pm_lease p of None \<Rightarrow> [] | Some h \<Rightarrow> log (wire (h_conn h)))"

lemma h_conn_set [simp]: "h_conn (set_h_conn c h) = c"
  by (simp add: h_conn_def set_h_conn_def)

lemma open_session_phases:
  assumes "open_session p" "plain_msg msg"
  shows "\<exists>q. client_message se msg p = fe_forward se msg q \<and> pm_lease q = pm_lease p \<and> open_session q \<and> pm_ds q = pm_ds p \<and>
     pm_frontend q = pm_frontend p \<and> pm_registry q = pm_registry p"
proof -
  obtain h where h: "pm_lease p = Some h" using assms(1) by (auto simp: open_session_def)
  let ?p = "case cycle_input_of msg of None \<Rightarrow> p | Some i \<Rightarrow> p\<lparr>pm_extended := (ci_kind i \<noteq> Simple)\<rparr>"
  have p: "fe_on_query se msg p = Proceed msg ?p" "pm_lease ?p = Some h" "open_session ?p" "pm_ds ?p = pm_ds p"
    "pm_frontend ?p = pm_frontend p" "pm_registry ?p = pm_registry p"
    using assms(1) h by (auto simp: fe_on_query_def Let_def open_session_def split: option.splits)
  have "fe_local se msg p = Proceed msg p" using h by (simp add: fe_local_def)
  moreover have "fe_registry se msg ?p = Proceed msg ?p" using plain_msg_check [OF assms(2)] by (simp add: fe_registry_def)
  moreover have "fe_attach se hint msg ?p = Proceed msg (?p\<lparr>pm_attached := True\<rparr>)" for hint
    using p(2) plain_msg_check [OF assms(2)]
    by (simp add: fe_attach_def ensure_attached_def pm_attach_state_def pm_set_attach_state_def)
  moreover have "fe_hook msg (?p\<lparr>pm_attached := True\<rparr>) = Proceed msg (?p\<lparr>pm_attached := True\<rparr>)"
    using p(3) by (simp add: fe_hook_def open_session_def)
  ultimately have "client_message se msg p = fe_forward se msg (?p\<lparr>pm_attached := True\<rparr>)"
    using assms(1) p(1) by (simp add: client_message_def fe_swallow_def open_session_def)
  moreover have "pm_lease (?p\<lparr>pm_attached := True\<rparr>) = pm_lease p \<and> open_session (?p\<lparr>pm_attached := True\<rparr>) \<and>
      pm_ds (?p\<lparr>pm_attached := True\<rparr>) = pm_ds p \<and> pm_frontend (?p\<lparr>pm_attached := True\<rparr>) = pm_frontend p \<and>
      pm_registry (?p\<lparr>pm_attached := True\<rparr>) = pm_registry p"
    using p h by (simp add: open_session_def)
  ultimately show ?thesis by blast
qed

lemma forward_logs:
  assumes "logs ops log" "accepts ops" "e_ops (se_env se) = ops" "open_session p"
  shows "\<exists>q. fe_forward se msg p = Goes q \<and> open_session q \<and> pm_ds q = pm_ds p \<and>
     lease_log log q = lease_log log p @ [msg] \<and> pm_frontend q = pm_frontend p + 1 \<and> pm_registry q = pm_registry p"
proof -
  obtain h where h: "pm_lease p = Some h" using assms(4) by (auto simp: open_session_def)
  obtain failed c where s: "(if triggers_response msg then conn_send ops msg (h_conn h) else conn_feed ops msg (h_conn h)) = (failed, c)"
    by fastforce
  moreover have "failed = None"
  proof -
    obtain r1 r2 where "op_send ops (wire (h_conn h)) msg = Inr r1" "op_feed ops (wire (h_conn h)) msg = Inr r2"
      using assms(2) unfolding accepts_def by blast
    with s show ?thesis by (auto simp: conn_send_def conn_feed_def split: if_splits prod.splits)
  qed
  ultimately have "log (wire c) = log (wire (h_conn h)) @ [msg]"
    using logs_send [OF assms(1)] logs_feed [OF assms(1)] by (auto split: if_splits)
  with h s \<open>failed = None\<close> assms(3,4) show ?thesis
    by (auto simp: fe_forward_def Let_def open_session_def lease_log_def)
qed

text \<open>
  Property C15. Client to server, the proxy is transparent: with no interceptor and an attached connection
  that takes the messages, a session forwards every message it is sent, unchanged and in order, and
  writes nothing to the client on its own account.
\<close>

theorem passthrough_forwards_everything:
  assumes "logs (e_ops (se_env se)) log" "accepts (e_ops (se_env se))" "open_session p" "list_all plain_msg ms"
  shows "\<exists>q. pump_run se (map ClientMsg ms) p = Goes q \<and> pm_lease q \<noteq> None \<and>
     lease_log log q = lease_log log p @ ms \<and> pm_ds q = pm_ds p \<and> pm_frontend q = pm_frontend p + of_nat (length ms)"
  using assms(3,4)
proof (induction ms arbitrary: p)
  case Nil
  then show ?case by (simp add: open_session_def)
next
  case (Cons m ms)
  have pm: "plain_msg m" using Cons.prems(2) by simp
  obtain p1 where p1: "client_message se m p = fe_forward se m p1" "pm_lease p1 = pm_lease p" "open_session p1" "pm_ds p1 = pm_ds p"
    "pm_frontend p1 = pm_frontend p" using open_session_phases [OF Cons.prems(1) pm] by blast
  obtain q where q: "fe_forward se m p1 = Goes q" "open_session q" "pm_ds q = pm_ds p1" "lease_log log q = lease_log log p1 @ [m]"
    "pm_frontend q = pm_frontend p1 + 1"
    using forward_logs [OF assms(1,2) refl p1(3)] by blast
  have "m \<noteq> FTerminate" using Cons.prems(2) by (simp add: plain_msg_def)
  moreover have "lease_log log p1 = lease_log log p" using p1(2) by (simp add: lease_log_def)
  ultimately show ?case using Cons.IH [OF q(2)] Cons.prems(2) p1 q by (auto simp: ac_simps)
qed

text \<open>
  Property C27. A Close of a registered statement that arrives while the session is attached goes to the server and leaves the registry as it
  was. The client's next Parse of that name never reaches the server: with the old SQL it is answered ParseComplete although the server
  no longer has the statement, with other SQL it is refused with error 42P05 although the client has closed the name.
\<close>

theorem closed_statement_stays_registered:
  assumes "logs (e_ops (se_env se)) log" "accepts (e_ops (se_env se))" "open_session p" "ds_results (pm_ds p) = []"
    and "registry_lookup (pm_registry p) name = Some (known, oids)" "name \<noteq> []" "parse_name m = Some name"
  shows "\<exists>q. pump_run se [ClientMsg (FClose (Some name) kind), ClientMsg (FParse m)] p = Goes q \<and>
     lease_log log q = lease_log log p @ [FClose (Some name) kind] \<and> pm_registry q = pm_registry p \<and>
     (if known = parse_query m then ds_sent (pm_ds q) = ds_sent (pm_ds p) @ [BParseComplete] \<and> \<not> pm_swallow q
      else ds_sent (pm_ds q) = ds_sent (pm_ds p) @
             [BErrorResponse (err_into (e_codec (se_env se)) (duplicate_statement name))] \<and> pm_swallow q)"
proof -
  have plain: "plain_msg (FClose (Some name) kind)" by (simp add: plain_msg_def)
  obtain p1 where p1: "client_message se (FClose (Some name) kind) p = fe_forward se (FClose (Some name) kind) p1" "pm_lease p1 = pm_lease p"
    "open_session p1" "pm_ds p1 = pm_ds p" "pm_registry p1 = pm_registry p"
    using open_session_phases [OF assms(3) plain] by blast
  obtain q where q: "fe_forward se (FClose (Some name) kind) p1 = Goes q" "open_session q" "pm_ds q = pm_ds p1"
    "lease_log log q = lease_log log p1 @ [FClose (Some name) kind]" "pm_registry q = pm_registry p1"
    using forward_logs [OF assms(1,2) refl p1(3)] by blast
  have "\<exists>q'. client_message se (FParse m) q = Goes q' \<and> pm_lease q' = pm_lease q \<and> pm_world q' = pm_world q \<and> pm_registry q' = pm_registry q \<and>
     (if known = parse_query m then ds_sent (pm_ds q') = ds_sent (pm_ds q) @ [BParseComplete] \<and> \<not> pm_swallow q'
      else ds_sent (pm_ds q') = ds_sent (pm_ds q) @
             [BErrorResponse (err_into (e_codec (se_env se)) (duplicate_statement name))] \<and> pm_swallow q')"
    using q p1 assms by (intro parse_answered_locally) (simp_all add: open_session_def)
  then obtain q' where q': "client_message se (FParse m) q = Goes q'" "pm_lease q' = pm_lease q" "pm_registry q' = pm_registry q"
    "if known = parse_query m then ds_sent (pm_ds q') = ds_sent (pm_ds q) @ [BParseComplete] \<and> \<not> pm_swallow q'
      else ds_sent (pm_ds q') = ds_sent (pm_ds q) @
             [BErrorResponse (err_into (e_codec (se_env se)) (duplicate_statement name))] \<and> pm_swallow q'" by blast
  have "pump_run se [ClientMsg (FClose (Some name) kind), ClientMsg (FParse m)] p = Goes q'" using p1(1) q(1) q'(1) by simp
  moreover have "lease_log log q' = lease_log log p @ [FClose (Some name) kind]"
    using q(4) q'(2) p1(2) by (simp add: lease_log_def)
  ultimately show ?thesis using q' q p1 by simp
qed

section \<open>Server to client\<close>

lemma upstream_message_plain:
  assumes "pm_hooks p = None" "ds_results (pm_ds p) = []" "\<not> pm_draining p"
  shows "\<exists>q. upstream_message se m h p = Goes q \<and> pm_hooks q = None \<and> \<not> pm_draining q \<and> ds_results (pm_ds q) = [] \<and>
     ds_sent (pm_ds q) = ds_sent (pm_ds p) @ [m] \<and>
     (transaction_mode se \<and> is_ready m \<and> transaction_status (track_conn m (h_conn h)) = Idle \<or>
      pm_lease q = Some (set_h_conn (track_conn m (h_conn h)) h))"
proof -
  let ?p = "be_track se m h p"
  have p: "pm_hooks ?p = None" "ds_results (pm_ds ?p) = []" "ds_sent (pm_ds ?p) = ds_sent (pm_ds p)" "\<not> pm_draining ?p"
    "pm_lease ?p = Some (set_h_conn (track_conn m (h_conn h)) h)"
    using assms by (auto simp: be_track_def Let_def ds_set_status_def split: backend_msg.splits)
  then show ?thesis
    by (auto simp: upstream_message_def be_rows_def be_hook_def be_forward_def take_report_def give_report_def Let_def
        be_detach_def detach_if_idle_def)
qed

text \<open>
  Property C16. Server to client, a session-mode session without an interceptor delivers every message the
  server sent, unchanged and in order, nothing else, and keeps its connection.
\<close>

theorem passthrough_delivers_everything:
  assumes "\<not> transaction_mode se" "pm_hooks p = None" "ds_results (pm_ds p) = []" "\<not> pm_draining p"
    and "pm_lease p = Some h" "inbox (h_conn h) = map RMsg ms"
  shows "\<exists>q g. pump_run se (replicate (length ms) UpstreamReady) p = Goes q \<and> pm_lease q = Some g \<and> h_key g = h_key h \<and>
     inbox (h_conn g) = [] \<and> ds_sent (pm_ds q) = ds_sent (pm_ds p) @ ms"
  using assms(2-6)
proof (induction ms arbitrary: p h)
  case Nil
  then show ?case by simp
next
  case (Cons m ms)
  let ?h = "set_h_conn ((h_conn h)\<lparr>inbox := map RMsg ms\<rparr>) h"
  have arm: "upstream_arm se p = upstream_message se m ?h p" using Cons.prems(4,5) by (simp add: upstream_arm_def)
  obtain q where q: "upstream_message se m ?h p = Goes q" "pm_hooks q = None" "\<not> pm_draining q" "ds_results (pm_ds q) = []"
    "ds_sent (pm_ds q) = ds_sent (pm_ds p) @ [m]" "pm_lease q = Some (set_h_conn (track_conn m (h_conn ?h)) ?h)"
    using upstream_message_plain [OF Cons.prems(1-3), of se m ?h] assms(1) by blast
  have "inbox (track_conn m (h_conn ?h)) = map RMsg ms"
    by (cases m) (simp_all add: set_transaction_status_def set_server_parameter_def)
  then obtain q' g where "pump_run se (replicate (length ms) UpstreamReady) q = Goes q'" "pm_lease q' = Some g" "h_key g = h_key h"
    "inbox (h_conn g) = []" "ds_sent (pm_ds q') = ds_sent (pm_ds q) @ ms"
    using Cons.IH [OF q(2,4,3,6)] by auto
  with arm q show ?case by auto
qed

section \<open>Detaching\<close>

text \<open>
  Property C39. When the server reports ReadyForQuery(Idle) a transaction-mode session gives its connection
  back at once and forwards the message; the connection is parked with everything still unread on it.
  The pump does not look at the number of cycles the client has in flight: if the client pipelined a
  second query, its response (\<open>items\<close>, or what the server sends later) stays on a connection that the
  next session will be given.
\<close>

theorem detach_parks_unread_messages:
  assumes "transaction_mode se" "pm_hooks p = None" "ds_results (pm_ds p) = []" "\<not> pm_draining p"
    and "pm_lease p = Some h" "inbox (h_conn h) = RMsg (BReadyForQuery Idle) # items" "\<not> pm_dirty p"
    and "w_pools (pm_world p) (h_key h) = Some pool"
    and "elapsed (e_clock (se_env se) (w_tick (pm_world p))) (l_created_at (h_lease h)) \<le> max_lifetime (p_config pool)"
  shows "\<exists>q pool' pk. upstream_arm se p = Goes q \<and> pm_lease q = None \<and>
     ds_sent (pm_ds q) = ds_sent (pm_ds p) @ [BReadyForQuery Idle] \<and>
     w_pools (pm_world q) (h_key h) = Some pool' \<and> p_idle pool' = p_idle pool @ [pk] \<and>
     inbox (pk_conn pk) = items \<and> wire (pk_conn pk) = wire (h_conn h)"
proof -
  let ?h = "set_h_conn ((h_conn h)\<lparr>inbox := items\<rparr>) h"
  have "upstream_arm se p = upstream_message se (BReadyForQuery Idle) ?h p" using assms(5,6) by (simp add: upstream_arm_def)
  also have "\<dots> = be_forward se Idle (BReadyForQuery Idle) (be_track se (BReadyForQuery Idle) ?h p)"
    using assms(2) by (simp add: upstream_message_def be_rows_def be_hook_def be_track_def Let_def set_transaction_status_def)
  finally show ?thesis
    using assms
    by (auto simp: be_forward_def take_report_def give_report_def be_track_def Let_def ds_set_status_def be_detach_def detach_if_idle_def
        lease_checkin_detached_def pool_apply_def checkin_detached_def park_or_evict_def pool_simps set_transaction_status_def
        set_h_conn_def h_conn_def split: prod.splits)
qed

text \<open>
  Lemma. Inside a transaction (or after an error in one) the connection stays with the session at
  ReadyForQuery, in either pool mode, the dirty mark is kept, and no pool is touched.
\<close>

theorem transaction_keeps_lease:
  assumes "st \<noteq> Idle" "pm_hooks p = None" "ds_results (pm_ds p) = []" "\<not> pm_draining p"
    and "pm_lease p = Some h" "inbox (h_conn h) = RMsg (BReadyForQuery st) # items"
  shows "\<exists>q g. upstream_arm se p = Goes q \<and> pm_lease q = Some g \<and> h_key g = h_key h \<and> inbox (h_conn g) = items \<and>
     transaction_status (h_conn g) = st \<and> ds_status (pm_ds q) = st \<and> pm_dirty q = pm_dirty p \<and> pm_world q = pm_world p \<and>
     ds_sent (pm_ds q) = ds_sent (pm_ds p) @ [BReadyForQuery st]"
proof -
  let ?h = "set_h_conn ((h_conn h)\<lparr>inbox := items\<rparr>) h"
  have "upstream_arm se p = upstream_message se (BReadyForQuery st) ?h p" using assms(5,6) by (simp add: upstream_arm_def)
  also have "\<dots> = be_forward se st (BReadyForQuery st) (be_track se (BReadyForQuery st) ?h p)"
    using assms(2) by (simp add: upstream_message_def be_rows_def be_hook_def be_track_def Let_def set_transaction_status_def)
  finally show ?thesis
    using assms
    by (auto simp: be_forward_def take_report_def give_report_def be_track_def Let_def ds_set_status_def be_detach_def detach_if_idle_def
        set_transaction_status_def)
qed

text \<open>
  Property C25. A connection on which the session's registered statements are prepared is not handed on with them: whenever, at any point of
  any run, the registry is not empty and a session without an interceptor is given ReadyForQuery(Idle) in transaction mode, the detach runs
  DISCARD ALL on the connection first. Only when that succeeds is the connection parked, as DISCARD ALL left it (and if it is
  within its lifetime); when it fails or does not return, the connection is dropped and the idle stack is as it was. The registry holds
  the named statements the client prepared with Parse messages; a statement prepared in SQL is not in it.
\<close>

theorem detach_discards_statements:
  assumes "world_wf (pm_world p)" "pm_lease p = None" "pump_run se es p = Goes q" "pm_registry q \<noteq> []"
    and "transaction_mode se" "pm_hooks q = None" "ds_results (pm_ds q) = []" "\<not> pm_draining q"
    and "pm_lease q = Some h" "inbox (h_conn h) = RMsg (BReadyForQuery Idle) # items"
  shows "\<exists>pool q' pool'. w_pools (pm_world q) (h_key h) = Some pool \<and> upstream_arm se q = Goes q' \<and> pm_lease q' = None \<and>
    w_pools (pm_world q') (h_key h) = Some pool' \<and>
    (case op_simple_query (e_ops (se_env se)) ((h_conn h)\<lparr>inbox := items, transaction_status := Idle\<rparr>) ''DISCARD ALL'' of
       (Done _, c) \<Rightarrow>
         p_idle pool' = p_idle pool @
           (if elapsed (e_clock (se_env se) (w_tick (pm_world q))) (l_created_at (h_lease h)) \<le> max_lifetime (p_config pool)
            then [\<lparr>pk_conn = c, pk_idle_since = e_clock (se_env se) (w_tick (pm_world q) + 1), pk_created_at = l_created_at (h_lease h)\<rparr>]
            else [])
     | _ \<Rightarrow> p_idle pool' = p_idle pool \<and> m_dropped (p_metrics pool') = m_dropped (p_metrics pool) + 1)"
proof -
  have "pump_inv (\<lambda>k. leased_out k (pm_world p)) p" using assms(1,2) by (simp add: permit_inv_def outstanding_def)
  from pump_run_inv(1) [OF this assms(3)] assms(4,9)
  have dirty: "pm_dirty q" and out: "outstanding (\<lambda>k. leased_out k (pm_world p)) (pm_world q) [h_key h]" by (simp_all add: permit_inv_def)
  from out have "leased_out (h_key h) (pm_world q) > 0" by (simp add: outstanding_def)
  then obtain pool where pool: "w_pools (pm_world q) (h_key h) = Some pool" by (auto simp: leased_out_def split: option.splits)
  let ?h = "set_h_conn ((h_conn h)\<lparr>inbox := items\<rparr>) h"
  have "upstream_arm se q = upstream_message se (BReadyForQuery Idle) ?h q" using assms(9,10) by (simp add: upstream_arm_def)
  also have "\<dots> = be_forward se Idle (BReadyForQuery Idle) (be_track se (BReadyForQuery Idle) ?h q)"
    using assms(6) by (simp add: upstream_message_def be_rows_def be_hook_def be_track_def Let_def set_transaction_status_def)
  finally show ?thesis
    using assms(5-8) dirty pool
    by (auto simp: be_forward_def take_report_def give_report_def be_track_def Let_def ds_set_status_def be_detach_def detach_if_idle_def
        lease_checkin_detached_def pool_apply_def checkin_detached_def park_or_evict_def pool_simps set_transaction_status_def
        set_h_conn_def h_conn_def split: prod.splits io.splits)
qed

section \<open>Shutdown\<close>

lemma draining_message:
  assumes "pm_hooks p = None" "ds_results (pm_ds p) = []" "pm_draining p"
  shows "\<exists>q. upstream_message se m h p = (if is_ready m then Ends ClientGone q else Goes q) \<and> pm_hooks q = None \<and> pm_draining q \<and>
     ds_results (pm_ds q) = [] \<and> ds_sent (pm_ds q) = ds_sent (pm_ds p) @ [m] \<and>
     pm_lease q = Some (set_h_conn (track_conn m (h_conn h)) h) \<and>
     (\<not> is_ready m \<longrightarrow> awaiting_response (pm_hygiene q) = awaiting_response (pm_hygiene p))"
proof -
  let ?p = "be_track se m h p"
  have p: "pm_hooks ?p = None" "ds_results (pm_ds ?p) = []" "ds_sent (pm_ds ?p) = ds_sent (pm_ds p)" "pm_draining ?p"
    "pm_lease ?p = Some (set_h_conn (track_conn m (h_conn h)) h)"
    "\<not> is_ready m \<longrightarrow> awaiting_response (pm_hygiene ?p) = awaiting_response (pm_hygiene p)"
    using assms by (auto simp: be_track_def Let_def ds_set_status_def split: backend_msg.splits)
  then show ?thesis
    by (auto simp: upstream_message_def be_rows_def be_hook_def be_forward_def take_report_def give_report_def Let_def)
qed

lemma draining_run:
  assumes "pm_hooks p = None" "ds_results (pm_ds p) = []" "pm_draining p"
    and "pm_lease p = Some h" "inbox (h_conn h) = map RMsg (ms @ BReadyForQuery st # rest)" "list_all (\<lambda>m. \<not> is_ready m) ms"
  shows "\<exists>q. pump_run se (replicate (Suc (length ms)) UpstreamReady) p = Ends ClientGone q \<and> pm_lease q \<noteq> None \<and>
     ds_sent (pm_ds q) = ds_sent (pm_ds p) @ ms @ [BReadyForQuery st]"
  using assms
proof (induction ms arbitrary: p h)
  case Nil
  let ?h = "set_h_conn ((h_conn h)\<lparr>inbox := map RMsg rest\<rparr>) h"
  have "upstream_arm se p = upstream_message se (BReadyForQuery st) ?h p" using Nil by (simp add: upstream_arm_def)
  with draining_message [OF Nil(1-3), of se "BReadyForQuery st" ?h] show ?case by auto
next
  case (Cons m ms)
  let ?h = "set_h_conn ((h_conn h)\<lparr>inbox := map RMsg (ms @ BReadyForQuery st # rest)\<rparr>) h"
  have arm: "upstream_arm se p = upstream_message se m ?h p" using Cons.prems by (simp add: upstream_arm_def)
  obtain q where q: "upstream_message se m ?h p = Goes q" "pm_hooks q = None" "pm_draining q" "ds_results (pm_ds q) = []"
    "ds_sent (pm_ds q) = ds_sent (pm_ds p) @ [m]" "pm_lease q = Some (set_h_conn (track_conn m (h_conn ?h)) ?h)"
    using draining_message [OF Cons.prems(1-3), of se m ?h] Cons.prems(6) by auto
  have "inbox (track_conn m (h_conn ?h)) = map RMsg (ms @ BReadyForQuery st # rest)"
    by (cases m) (simp_all add: set_transaction_status_def set_server_parameter_def)
  with Cons.IH [OF q(2,4,3,6)] Cons.prems(6) arm q show ?case by auto
qed

text \<open>A draining session with \<open>ms\<close> unread, and what the network does to it.\<close>

definition drains :: "('s, 'c) pump \<Rightarrow> backend_msg list \<Rightarrow> bool" where
  "drains p ms \<longleftrightarrow>
     pm_hooks p = None \<and> ds_results (pm_ds p) = [] \<and> pm_draining p \<and> awaiting_response (pm_hygiene p) \<and>
     (\<exists>h. pm_lease p = Some h \<and> inbox (h_conn h) = map RMsg ms \<and> \<not> at_eof (h_conn h))"

fun network_event :: "event \<Rightarrow> bool" where
  "network_event (Arrives items) = (\<forall>e. RErr e \<notin> set items)"
| "network_event UpstreamReady = True"
| "network_event ShutdownSignal = True"
| "network_event _ = False"

definition received :: "recv list \<Rightarrow> backend_msg list" where
  "received items = concat (map (\<lambda>i. case i of RMsg m \<Rightarrow> [m] | RErr e \<Rightarrow> []) items)"

fun arriving :: "event list \<Rightarrow> backend_msg list" where
  "arriving [] = []"
| "arriving (Arrives items # es) = received items @ arriving es"
| "arriving (_ # es) = arriving es"

lemma received_map: "\<forall>e. RErr e \<notin> set items \<Longrightarrow> map RMsg (received items) = items"
  by (induction items) (auto simp: received_def split: recv.splits)

text \<open>What such a session has delivered: part of the stream before the first ReadyForQuery, or all of it through that.\<close>

definition drained_to :: "('s, 'c) pump \<Rightarrow> backend_msg list \<Rightarrow> ('s, 'c) pump flow \<Rightarrow> bool" where
  "drained_to p stream f \<longleftrightarrow>
     (case f of
        Goes q \<Rightarrow> \<exists>got rest. stream = got @ rest \<and> list_all (\<lambda>m. \<not> is_ready m) got \<and> drains q rest \<and>
                    ds_sent (pm_ds q) = ds_sent (pm_ds p) @ got
      | Ends reason q \<Rightarrow> reason = ClientGone \<and> pm_lease q \<noteq> None \<and>
                    (\<exists>got st rest. stream = got @ BReadyForQuery st # rest \<and> list_all (\<lambda>m. \<not> is_ready m) got \<and>
                       ds_sent (pm_ds q) = ds_sent (pm_ds p) @ got @ [BReadyForQuery st])
      | _ \<Rightarrow> False)"

lemma drains_upstream:
  assumes "drains p ms"
  shows "drained_to p ms (upstream_arm se p)"
proof -
  obtain h where h: "pm_lease p = Some h" "inbox (h_conn h) = map RMsg ms" "\<not> at_eof (h_conn h)" using assms by (auto simp: drains_def)
  show ?thesis
  proof (cases ms)
    case Nil
    with h assms show ?thesis by (simp add: upstream_arm_def drained_to_def)
  next
    case (Cons m ms')
    let ?h = "set_h_conn ((h_conn h)\<lparr>inbox := map RMsg ms'\<rparr>) h"
    have arm: "upstream_arm se p = upstream_message se m ?h p" using Cons h by (simp add: upstream_arm_def)
    obtain q where q: "upstream_message se m ?h p = (if is_ready m then Ends ClientGone q else Goes q)" "pm_hooks q = None" "pm_draining q"
      "ds_results (pm_ds q) = []" "ds_sent (pm_ds q) = ds_sent (pm_ds p) @ [m]" "pm_lease q = Some (set_h_conn (track_conn m (h_conn ?h)) ?h)"
      "\<not> is_ready m \<longrightarrow> awaiting_response (pm_hygiene q)"
      using draining_message [of p se m ?h] assms by (auto simp: drains_def)
    have "inbox (track_conn m (h_conn ?h)) = map RMsg ms'" "at_eof (track_conn m (h_conn ?h)) = at_eof (h_conn h)"
      by (cases m; simp add: set_transaction_status_def set_server_parameter_def)+
    with q h have "\<not> is_ready m \<Longrightarrow> drains q ms'" by (simp add: drains_def)
    moreover have "is_ready m \<Longrightarrow> \<exists>st. m = BReadyForQuery st" by (cases m) auto
    ultimately show ?thesis using arm q Cons
      by (cases "is_ready m") (fastforce simp: drained_to_def intro: exI [of _ "[]"] exI [of _ "[m]"])+
  qed
qed

lemma drains_event:
  assumes "drains p ms" "network_event e"
  shows "drained_to p (ms @ arriving [e]) (pump_event se e p)"
proof (cases e)
  case (Arrives items)
  obtain h where "pm_lease p = Some h" "inbox (h_conn h) = map RMsg ms" "\<not> at_eof (h_conn h)" using assms by (auto simp: drains_def)
  with Arrives assms received_map [of items] have "drains (on_conn (\<lambda>c. c\<lparr>inbox := inbox c @ items\<rparr>) p) (ms @ received items)"
    by (simp add: drains_def on_conn_def)
  with Arrives show ?thesis by (simp add: drained_to_def on_conn_def exI [of _ "[]"])
next
  case UpstreamReady
  with drains_upstream [OF assms(1)] show ?thesis by simp
next
  case ShutdownSignal
  with assms have "pump_event se e p = Goes p" by (simp add: shutdown_arm_def drains_def)
  with assms(1) ShutdownSignal show ?thesis by (simp add: drained_to_def exI [of _ "[]"])
qed (use assms in simp_all)

lemma drained_to_more: "drained_to p stream (Ends reason q) \<Longrightarrow> drained_to p (stream @ new) (Ends reason q)"
  by (auto simp: drained_to_def)

lemma drained_to_trans:
  assumes "stream = got @ rest" "list_all (\<lambda>m. \<not> is_ready m) got" "ds_sent (pm_ds q) = ds_sent (pm_ds p) @ got"
    and "drained_to q (rest @ new) f"
  shows "drained_to p (stream @ new) f"
  using assms by (cases f) (fastforce simp: drained_to_def)+

lemma drains_run:
  "drains p ms \<Longrightarrow> list_all network_event es \<Longrightarrow> drained_to p (ms @ arriving es) (pump_run se es p)"
proof (induction es arbitrary: p ms)
  case Nil
  then show ?case by (simp add: drained_to_def exI [of _ "[]"])
next
  case (Cons e es)
  have d: "drained_to p (ms @ arriving [e]) (pump_event se e p)" by (rule drains_event) (use Cons.prems in simp_all)
  have split: "arriving (e # es) = arriving [e] @ arriving es" by (cases e) simp_all
  show ?case
  proof (cases "pump_event se e p")
    case (Goes q)
    with d obtain got rest where g: "ms @ arriving [e] = got @ rest" "list_all (\<lambda>m. \<not> is_ready m) got" "drains q rest"
      "ds_sent (pm_ds q) = ds_sent (pm_ds p) @ got" by (auto simp: drained_to_def)
    from Cons.IH [OF g(3)] Cons.prems(2) have "drained_to q (rest @ arriving es) (pump_run se es q)" by simp
    from drained_to_trans [OF g(1,2,4) this] Goes split show ?thesis by simp
  next
    case (Ends reason q)
    with d have "drained_to p ((ms @ arriving [e]) @ arriving es) (Ends reason q)" by (metis drained_to_more)
    with Ends split show ?thesis by simp
  qed (use d in \<open>auto simp: drained_to_def\<close>)
qed

lemma arriving_append: "arriving (es @ fs) = arriving es @ arriving fs"
proof (induction es)
  case (Cons e es)
  then show ?case by (cases e) simp_all
qed simp

lemma arriving_wakes [simp]: "arriving (replicate n UpstreamReady) = []"
  by (induction n) simp_all

lemma network_wakes [simp]: "list_all network_event (replicate n UpstreamReady)"
  by (induction n) simp_all

lemma pump_run_append:
  "pump_run se (es @ fs) p = (case pump_run se es p of Goes q \<Rightarrow> pump_run se fs q | f \<Rightarrow> f)"
  by (induction es arbitrary: p) (simp_all split: flow.split)

lemma first_ready_unique:
  assumes "got @ BReadyForQuery st # rest = got' @ BReadyForQuery st' # rest'"
    and "list_all (\<lambda>m. \<not> is_ready m) got" "list_all (\<lambda>m. \<not> is_ready m) got'"
  shows "got = got' \<and> st = st'"
proof -
  have "takeWhile (\<lambda>m. \<not> is_ready m) (g @ BReadyForQuery s # r) = g" if "list_all (\<lambda>m. \<not> is_ready m) g" for g s r
    using that by (induction g) simp_all
  from this [OF assms(2), of st rest] this [OF assms(3), of st' rest'] assms(1) show ?thesis by simp
qed

text \<open>Reading as many messages as there are up to the first ReadyForQuery ends the session.\<close>

lemma drains_wakes:
  assumes "drains p (got @ BReadyForQuery st # rest)" "list_all (\<lambda>m. \<not> is_ready m) got" "length got < n"
  shows "\<exists>reason q. pump_run se (replicate n UpstreamReady) p = Ends reason q"
proof -
  obtain h where "pm_lease p = Some h" "inbox (h_conn h) = map RMsg (got @ BReadyForQuery st # rest)"
    using assms(1) by (auto simp: drains_def)
  with draining_run [of p h got st rest se] assms(1,2) obtain q where
    "pump_run se (replicate (Suc (length got)) UpstreamReady) p = Ends ClientGone q" by (auto simp: drains_def)
  moreover have "replicate n UpstreamReady = replicate (Suc (length got)) UpstreamReady @ replicate (n - Suc (length got)) UpstreamReady"
    using assms(3) replicate_add [of "Suc (length got)" "n - Suc (length got)" UpstreamReady] by simp
  ultimately show ?thesis by (simp only: pump_run_append) simp
qed

lemma drains_long_enough:
  assumes "drains p ms" "list_all network_event es" "ms @ arriving es = got @ BReadyForQuery st # rest" "list_all (\<lambda>m. \<not> is_ready m) got"
  shows "\<exists>reason q. pump_run se (es @ replicate (Suc (length got)) UpstreamReady) p = Ends reason q"
proof -
  from drains_run [OF assms(1,2), of se] show ?thesis
  proof (cases "pump_run se es p")
    case (Goes q)
    with drains_run [OF assms(1,2), of se] assms(3) obtain g r where g: "got @ BReadyForQuery st # rest = g @ r"
      "list_all (\<lambda>m. \<not> is_ready m) g" "drains q r" by (auto simp: drained_to_def)
    have "\<exists>got'. r = got' @ BReadyForQuery st # rest \<and> got = g @ got'"
      using g(1,2) by (auto simp: append_eq_append_conv2 Cons_eq_append_conv)
    with g(3) assms(4) obtain got' where "drains q (got' @ BReadyForQuery st # rest)" "list_all (\<lambda>m. \<not> is_ready m) got'" "length got' < Suc (length got)"
      by auto
    from drains_wakes [OF this, of se] Goes show ?thesis by (simp add: pump_run_append del: replicate_Suc)
  qed (auto simp: drained_to_def pump_run_append)
qed

text \<open>
  Property C36. What the shutdown signal does to a session without an interceptor. With no response awaited and no COPY under way it ends at
  once, even with extended-protocol messages fed and not yet synced. While a response is awaited, it goes on: however the server's
  messages arrive and are read, and however often the signal is repeated, it delivers them in order up to and including the first ReadyForQuery and ends
  exactly there, with its connection still to be checked in - no earlier, and no later once that many messages have been read. Further cycles
  the client has pipelined are not waited for.
\<close>

theorem shutdown_finishes_current_cycle:
  assumes "pm_hooks p = None" "ds_results (pm_ds p) = []"
  shows "(\<not> awaiting_response (pm_hygiene p) \<and> copy (pm_hygiene p) = NoCopy \<longrightarrow>
       pump_run se (ShutdownSignal # es) p = Ends ClientGone p) \<and>
    (awaiting_response (pm_hygiene p) \<and> pm_lease p = Some h \<and> inbox (h_conn h) = map RMsg ms \<and> \<not> at_eof (h_conn h) \<and>
       list_all network_event es \<longrightarrow>
       drained_to p (ms @ arriving es) (pump_run se (ShutdownSignal # es) p) \<and>
       (\<forall>got st rest. ms @ arriving es = got @ BReadyForQuery st # rest \<and> list_all (\<lambda>m. \<not> is_ready m) got \<longrightarrow>
          (\<exists>q. pump_run se (ShutdownSignal # es @ replicate (Suc (length got)) UpstreamReady) p = Ends ClientGone q \<and>
             ds_sent (pm_ds q) = ds_sent (pm_ds p) @ got @ [BReadyForQuery st])))"
proof (intro conjI impI allI)
  assume "\<not> awaiting_response (pm_hygiene p) \<and> copy (pm_hygiene p) = NoCopy"
  then show "pump_run se (ShutdownSignal # es) p = Ends ClientGone p" by (simp add: shutdown_arm_def)
next
  assume a: "awaiting_response (pm_hygiene p) \<and> pm_lease p = Some h \<and> inbox (h_conn h) = map RMsg ms \<and> \<not> at_eof (h_conn h) \<and>
       list_all network_event es"
  let ?p = "p\<lparr>pm_draining := True\<rparr>"
  have d: "drains ?p ms" using assms a by (simp add: drains_def)
  have start: "pump_run se (ShutdownSignal # fs) p = pump_run se fs ?p" for fs using a by (simp add: shutdown_arm_def)
  have to: "drained_to p stream f \<longleftrightarrow> drained_to ?p stream f" for stream f by (cases f) (simp_all add: drained_to_def)
  show "drained_to p (ms @ arriving es) (pump_run se (ShutdownSignal # es) p)"
    using drains_run [OF d] a start to by simp
  fix got st rest
  assume g: "ms @ arriving es = got @ BReadyForQuery st # rest \<and> list_all (\<lambda>m. \<not> is_ready m) got"
  let ?fs = "es @ replicate (Suc (length got)) UpstreamReady"
  have "drained_to p (got @ BReadyForQuery st # rest) (pump_run se ?fs ?p)"
    using drains_run [OF d, of ?fs] a g to by (simp add: arriving_append)
  moreover obtain reason q where e: "pump_run se ?fs ?p = Ends reason q"
    using drains_long_enough [OF d, of es got st rest se] a g by blast
  ultimately obtain got' st' rest' where u: "got @ BReadyForQuery st # rest = got' @ BReadyForQuery st' # rest'"
    "list_all (\<lambda>m. \<not> is_ready m) got'" "reason = ClientGone" "ds_sent (pm_ds q) = ds_sent (pm_ds p) @ got' @ [BReadyForQuery st']"
    by (auto simp: drained_to_def)
  from first_ready_unique [OF u(1) _ u(2)] g u(3,4) e start [of ?fs]
  show "\<exists>q. pump_run se (ShutdownSignal # ?fs) p = Ends ClientGone q \<and>
             ds_sent (pm_ds q) = ds_sent (pm_ds p) @ got @ [BReadyForQuery st]"
    by auto
qed

text \<open>
  Lemma. The relink after a connection lost during COPY leaves the copy mark behind: the session has
  no connection and awaits nothing, and still a shutdown signal does not end it - it is told to drain
  a cycle that no longer exists.
\<close>

theorem stale_copy_mark_blocks_shutdown:
  assumes "pm_hooks p = None" "ds_results (pm_ds p) = []" "pm_lease p = Some h" "inbox (h_conn h) = []" "at_eof (h_conn h)"
    and "copy (pm_hygiene p) \<noteq> NoCopy"
  shows "\<exists>q. pump_run se [UpstreamReady, ShutdownSignal] p = Goes q \<and> pm_lease q = None \<and>
     \<not> awaiting_response (pm_hygiene q) \<and> pm_draining q"
  using assms
  by (auto simp: upstream_arm_def upstream_eof_def upstream_failed_def dispatch_on_upstream_error_def drop_broken_lease_def
      answer_lost_def synthesize_upstream_lost_def send_ready_for_query_def end_awaiting_def shutdown_arm_def pm_tick_def Let_def)

section \<open>No panic without an interceptor\<close>

definition calm :: "('s, 'c) pump flow \<Rightarrow> bool" where
  "calm f \<longleftrightarrow> (case f of Goes q \<Rightarrow> pm_hooks q = None | Panics \<Rightarrow> False | _ \<Rightarrow> True)"

lemma calm_simps [simp]: "calm (Goes q) = (pm_hooks q = None)" "calm (Ends e q)" "calm (Hangs q)" "\<not> calm Panics"
  by (simp_all add: calm_def)

lemma send_then_calm:
  "pm_hooks p = None \<Longrightarrow> (\<And>q. pm_hooks q = None \<Longrightarrow> calm (k q)) \<Longrightarrow> calm (send_then m p k)"
  by (auto simp: send_then_def split: prod.splits bool.splits)

lemma finish_none [simp]:
  "pm_hooks (finish_cycle se p) = None \<longleftrightarrow> pm_hooks p = None" "pm_hooks (finish_active_cycle se p) = None \<longleftrightarrow> pm_hooks p = None"
  by (auto simp: finish_active_cycle_def finish_cycle_def pm_tick_def split: option.splits)

lemma attach_loop_none:
  "a_hooks a = None \<Longrightarrow> attach_loop n env params r gucs startup hint a = (res, a') \<Longrightarrow> a_hooks a' = None"
proof (induction n arbitrary: a)
  case 0
  then show ?case by auto
next
  case (Suc n)
  obtain tr a1 where t: "attach_turn env params r gucs startup hint a = (tr, a1)" by fastforce
  have "a_hooks a1 = None" using t Suc.prems(1)
    by (auto simp: attach_turn_def dispatch_upstream_def attach_endpoint_def attach_prepared_def attach_failed_def Let_def
        dispatch_on_upstream_error_def dispatch_on_upstream_connected_def
        split: prod.splits option.splits io.splits prepared.splits retry_decision.splits)
  with Suc t show ?case by (cases tr) auto
qed

lemma fe_attach_calm:
  assumes "pm_hooks p = None"
  shows "case fe_attach se hint msg p of Handled f \<Rightarrow> calm f | Proceed m q \<Rightarrow> pm_hooks q = None \<and> pm_lease q \<noteq> None"
proof -
  let ?hint = "case hint of Some s \<Rightarrow> Some s | None \<Rightarrow> bind_statement_sql msg (pm_registry p)"
  obtain res a where e: "ensure_attached (se_env se) (se_params se) (pm_registry p) (pm_gucs p) (se_startup se) ?hint (pm_attach_state p) = (res, a)"
    by fastforce
  have "a_hooks a = None"
    using e assms attach_loop_none [of "pm_attach_state p"]
    by (auto simp: ensure_attached_def pm_attach_state_def split: option.splits)
  moreover have "res = Attached \<Longrightarrow> a_lease a \<noteq> None"
    using e attach_loop_attached by (auto simp: ensure_attached_def pm_attach_state_def split: option.splits)
  ultimately show ?thesis using e
    by (cases res; cases "check_parse msg (pm_registry p)") (auto simp: fe_attach_def Let_def pm_set_attach_state_def)
qed

lemma drop_broken_lease_hooks [simp]: "pm_hooks (drop_broken_lease p) = pm_hooks p"
  by (simp add: drop_broken_lease_def split: option.splits)

lemma synthesize_none:
  "synthesize_upstream_lost cod now ext sw None d = (alive, sw', hooks, d') \<Longrightarrow> hooks = None"
  by (auto simp: synthesize_upstream_lost_def split: prod.splits bool.splits if_splits)

lemma answer_lost_calm:
  assumes "pm_hooks p = None" "\<And>q. pm_hooks q = None \<Longrightarrow> calm (k q)"
  shows "calm (answer_lost se p k)"
proof -
  obtain alive sw hooks d where
    s: "synthesize_upstream_lost (e_codec (se_env se)) (pm_now se p) (pm_extended p) (pm_swallow p) (pm_hooks p) (pm_ds p) = (alive, sw, hooks, d)"
    by (metis prod_cases4)
  with assms(1) have "hooks = None" using synthesize_none by metis
  with s assms(2) show ?thesis by (simp add: answer_lost_def pm_tick_def Let_def)
qed

lemma end_awaiting_hooks [simp]: "pm_hooks (end_awaiting p) = pm_hooks p"
  by (simp add: end_awaiting_def)

lemma upstream_failed_none: "pm_hooks p = None \<Longrightarrow> upstream_failed why p = (Relink, p)"
  by (simp add: upstream_failed_def dispatch_on_upstream_error_def)

lemma fe_send_failed_calm: "pm_hooks p = None \<Longrightarrow> calm (fe_send_failed se p)"
  by (auto simp: fe_send_failed_def upstream_failed_none Let_def intro!: answer_lost_calm)

lemma upstream_eof_calm: "pm_hooks p = None \<Longrightarrow> calm (upstream_eof se p)"
  by (auto simp: upstream_eof_def upstream_failed_none Let_def intro!: answer_lost_calm)

lemma fe_forward_calm:
  assumes "pm_hooks p = None" "pm_lease p \<noteq> None"
  shows "calm (fe_forward se msg p)"
proof -
  obtain h where "pm_lease p = Some h" using assms(2) by blast
  with assms(1) show ?thesis
    by (cases "if triggers_response msg then conn_send (e_ops (se_env se)) msg (h_conn h) else conn_feed (e_ops (se_env se)) msg (h_conn h)")
      (auto simp: fe_forward_def Let_def intro!: fe_send_failed_calm)
qed

lemma client_message_calm:
  assumes "pm_hooks p = None"
  shows "calm (client_message se msg p)"
proof -
  have tail: "calm (then_phase (fe_attach se hint msg q) (\<lambda>msg p. then_phase (fe_hook msg p) (fe_forward se)))"
    if "pm_hooks q = None" for hint q
    using fe_attach_calm [OF that, of se hint msg] fe_forward_calm
    by (cases "fe_attach se hint msg q") (auto simp: fe_hook_def)
  have reg: "calm (then_phase (fe_registry se msg q) (\<lambda>msg p. then_phase (fe_attach se hint msg p) (\<lambda>msg p. then_phase (fe_hook msg p) (fe_forward se))))"
    if "pm_hooks q = None" for hint q
    using that tail [OF that, of hint] by (cases "check_parse msg (pm_registry q)") (auto simp: fe_registry_def intro!: send_then_calm)
  have qry: "\<exists>q. fe_on_query se msg p = Proceed msg q \<and> pm_hooks q = None"
    using assms by (cases "cycle_input_of msg") (auto simp: fe_on_query_def)
  show ?thesis
  proof (cases "pm_swallow p")
    case True
    with assms show ?thesis by (auto simp: client_message_def fe_swallow_def Let_def intro!: send_then_calm)
  next
    case False
    then have sw: "fe_swallow se msg p = Proceed msg p" by (simp add: fe_swallow_def)
    show ?thesis
    proof (cases "\<exists>f. fe_local se msg p = Handled f")
      case True
      with assms have "\<exists>f. fe_local se msg p = Handled f \<and> calm f"
        by (auto simp: fe_local_def Let_def intro!: send_then_calm split: if_splits frontend_msg.splits option.splits)
      with sw show ?thesis by (auto simp: client_message_def)
    next
      case False
      then have "fe_local se msg p = Proceed msg p"
        by (auto simp: fe_local_def Let_def split: if_splits frontend_msg.splits option.splits)
      with sw qry reg show ?thesis by (auto simp: client_message_def Let_def)
    qed
  qed
qed

lemma upstream_message_calm: "pm_hooks p = None \<Longrightarrow> calm (upstream_message se m h p)"
proof -
  assume n: "pm_hooks p = None"
  have t: "pm_hooks (be_track se m h p) = None" using n by (auto simp: be_track_def Let_def split: backend_msg.splits)
  then show ?thesis
    by (auto simp: upstream_message_def be_rows_def be_hook_def be_forward_def take_report_def give_report_def be_detach_def
        detach_if_idle_def Let_def intro!: send_then_calm split: option.splits)
qed

lemma pump_event_calm: "pm_hooks p = None \<Longrightarrow> calm (pump_event se e p)"
proof (cases e)
  case UpstreamReady
  assume n: "pm_hooks p = None"
  have "calm (upstream_eof se p)" using n by (rule upstream_eof_calm)
  with n UpstreamReady upstream_message_calm show ?thesis
    by (auto simp: upstream_arm_def split: option.splits list.splits recv.splits)
qed (auto simp: client_message_calm cancel_arm_def shutdown_arm_def on_conn_def split: option.splits)

text \<open>
  Property C37. A session without an interceptor never panics, on any sequence of events: in particular the
  unwrap of the lease before a message is forwarded always finds the lease the attach put there.
\<close>

theorem plain_session_never_panics:
  assumes "pm_hooks p = None"
  shows "pump_run se es p \<noteq> Panics"
  using assms
proof (induction es arbitrary: p)
  case (Cons e es)
  from pump_event_calm [OF Cons.prems, of se e] Cons.IH show ?case by (cases "pump_event se e p") auto
qed simp

section \<open>Concrete sessions\<close>

text \<open>
  Sessions over the logging transport of theory \<open>Session_State\<close>, on which the properties above are
  exercised.
\<close>

definition log_env :: "pool_mode \<Rightarrow> frontend_msg list env" where
  "log_env mode = \<lparr>e_ops = log_ops, e_clock = (\<lambda>n. n), e_connect = (\<lambda>a t. Done log_conn),
     e_codec = \<lparr>err_into = (\<lambda>e. [(CHR ''C'', code e), (CHR ''M'', message e)]), err_from = (\<lambda>f. error_info_new [] [] [])\<rparr>,
     e_route = sample_route, e_pool_config = pool_config_default\<lparr>pool_mode := mode\<rparr>\<rparr>"

definition log_se :: "pool_mode \<Rightarrow> frontend_msg list session_env" where
  "log_se mode = \<lparr>se_env = log_env mode, se_params = sample_params, se_startup = Map.empty,
     se_schedule = \<lparr>sch_order = (\<lambda>legs. legs), sch_abort = (\<lambda>leg. NotStarted)\<rparr>,
     se_cycle_clock = (\<lambda>n. n)\<rparr>"

definition log_key :: pool_key where
  "log_key = pool_key_for sample_route sample_params (sample_endpoint ''a'')"

definition log_pool :: "frontend_msg list pool" where
  "log_pool = (pool_new log_key pool_config_default sample_args)\<lparr>p_permits := 15\<rparr>"

definition log_held :: "recv list \<Rightarrow> frontend_msg list held" where
  "log_held items = \<lparr>h_lease = \<lparr>l_conn = log_conn\<lparr>inbox := items\<rparr>, l_created_at = 0\<rparr>, h_key = log_key\<rparr>"

definition log_pump :: "pool_mode \<Rightarrow> frontend_msg list held option \<Rightarrow> (frontend_msg list, unit) pump" where
  "log_pump mode slot = pump_new (log_se mode) sample_downstream slot None True \<lparr>w_pools = [log_key \<mapsto> log_pool], w_tick = 1\<rparr>"

definition idle_pump :: "pool_mode \<Rightarrow> (frontend_msg list, unit) pump" where
  "idle_pump mode = pump_new (log_se mode) sample_downstream None None False \<lparr>w_pools = Map.empty, w_tick = 0\<rparr>"

lemmas pump_samples = log_pump_def pump_new_def log_se_def log_env_def sample_route_def log_held_def log_conn_def sample_downstream_def
  h_conn_def sample_endpoint_def

lemma log_open_session: "open_session (log_pump mode (Some (log_held items)))"
  by (simp add: open_session_def pump_samples)

lemma log_accepts: "accepts log_ops"
  by (simp add: accepts_def log_ops_def)

theorem swallow_until_sync_witness:
  "\<exists>q. pump_run (log_se SessionMode) (map ClientMsg [FBind None [], FExecute []] @ [ClientMsg FSync])
        ((log_pump SessionMode (Some (log_held [])))\<lparr>pm_swallow := True\<rparr>) = Goes q \<and>
     ds_sent (pm_ds q) = [BReadyForQuery Idle]"
proof -
  let ?p = "(log_pump SessionMode (Some (log_held [])))\<lparr>pm_swallow := True\<rparr>"
  have "ds_sent (pm_ds ?p) = []" "lease_status ?p = Idle" by (simp_all add: pump_samples lease_status_def)
  with swallow_until_sync [of ?p "[FBind None [], FExecute []]" "log_se SessionMode"] show ?thesis
    by (auto simp: pump_samples)
qed

definition deny_hooks :: "unit session_hooks" where
  "deny_hooks = session_hooks_new 0
     ((default_hooks ())\<lparr>hook_on_query := (\<lambda>c q. (Deny (error_info_new ''ERROR'' ''42501'' ''no''), q, c))\<rparr>)"

theorem deny_never_reaches_upstream_witness:
  "\<exists>q. client_message (log_se SessionMode) (FQuery ''DROP TABLE t'') ((log_pump SessionMode (Some (log_held [])))\<lparr>pm_hooks := Some deny_hooks\<rparr>) = Goes q \<and>
     pm_lease q = Some (log_held []) \<and>
     ds_sent (pm_ds q) = [BErrorResponse [(CHR ''C'', ''42501''), (CHR ''M'', ''no'')], BReadyForQuery Idle]"
proof -
  let ?p = "(log_pump SessionMode (Some (log_held [])))\<lparr>pm_hooks := Some deny_hooks\<rparr>"
  have "denies ?p ''DROP TABLE t'' Simple (error_info_new ''ERROR'' ''42501'' ''no'')"
    by (simp add: denies_def deny_hooks_def session_hooks_new_def default_hooks_def)
  moreover have "pm_lease ?p = Some (log_held [])" "lease_status ?p = Idle" "ds_sent (pm_ds ?p) = []"
    by (simp_all add: pump_samples lease_status_def)
  ultimately show ?thesis
    using deny_never_reaches_upstream [of ?p "FQuery ''DROP TABLE t''" "''DROP TABLE t''" Simple _ "log_se SessionMode"]
    by (fastforce simp: pump_samples error_info_new_def)
qed

theorem registered_parse_answered_locally_witness:
  "\<exists>q. client_message (log_se SessionMode) (FParse \<lparr>parse_name = Some ''s'', parse_query = ''SELECT 2'', parse_type_oids = []\<rparr>)
        ((log_pump SessionMode (Some (log_held [])))\<lparr>pm_registry := [(''s'', ''SELECT 1'', [])]\<rparr>) = Goes q \<and> pm_swallow q"
  using registered_parse_answered_locally [of "(log_pump SessionMode (Some (log_held [])))\<lparr>pm_registry := [(''s'', ''SELECT 1'', [])]\<rparr>"
      "\<lparr>parse_name = Some ''s'', parse_query = ''SELECT 2'', parse_type_oids = []\<rparr>" "''s''" "''SELECT 1''" "[]" "log_se SessionMode"]
  by (auto simp: pump_samples registry_lookup_def)

theorem passthrough_forwards_everything_witness:
  "\<exists>q. pump_run (log_se SessionMode) (map ClientMsg [FQuery ''SELECT 1'', FFlush]) (log_pump SessionMode (Some (log_held []))) = Goes q \<and>
     lease_log (\<lambda>w. w) q = [FQuery ''SELECT 1'', FFlush]"
  using passthrough_forwards_everything [of "log_se SessionMode" "\<lambda>w. w" "log_pump SessionMode (Some (log_held []))" "[FQuery ''SELECT 1'', FFlush]"]
    log_ops_logs log_accepts log_open_session [of SessionMode "[]"]
  by (auto simp: plain_msg_def pump_samples lease_log_def)

theorem passthrough_delivers_everything_witness:
  "\<exists>q. pump_run (log_se SessionMode) (replicate 2 UpstreamReady)
        (log_pump SessionMode (Some (log_held (map RMsg [BCommandComplete ''SELECT 0'', BReadyForQuery Idle])))) = Goes q \<and>
     ds_sent (pm_ds q) = [BCommandComplete ''SELECT 0'', BReadyForQuery Idle]"
  using passthrough_delivers_everything [of "log_se SessionMode"
      "log_pump SessionMode (Some (log_held (map RMsg [BCommandComplete ''SELECT 0'', BReadyForQuery Idle])))"
      "log_held (map RMsg [BCommandComplete ''SELECT 0'', BReadyForQuery Idle])" "[BCommandComplete ''SELECT 0'', BReadyForQuery Idle]"]
  by (auto simp: pump_samples transaction_mode_def numeral_2_eq_2)

theorem detach_parks_unread_messages_witness:
  "\<exists>q pool' pk. upstream_arm (log_se TransactionMode)
        (log_pump TransactionMode (Some (log_held [RMsg (BReadyForQuery Idle), RMsg (BCommandComplete ''SELECT 7'')]))) = Goes q \<and>
     pm_lease q = None \<and> w_pools (pm_world q) log_key = Some pool' \<and> p_idle pool' = [pk] \<and>
     inbox (pk_conn pk) = [RMsg (BCommandComplete ''SELECT 7'')]"
  using detach_parks_unread_messages [of "log_se TransactionMode"
      "log_pump TransactionMode (Some (log_held [RMsg (BReadyForQuery Idle), RMsg (BCommandComplete ''SELECT 7'')]))"
      "log_held [RMsg (BReadyForQuery Idle), RMsg (BCommandComplete ''SELECT 7'')]" "[RMsg (BCommandComplete ''SELECT 7'')]" log_pool]
  by (auto simp: pump_samples transaction_mode_def log_pool_def pool_new_def elapsed_def pool_config_default_def from_secs_def)

theorem transaction_keeps_lease_witness:
  "\<exists>q g. upstream_arm (log_se TransactionMode) (log_pump TransactionMode (Some (log_held [RMsg (BReadyForQuery InTransaction)]))) = Goes q \<and>
     pm_lease q = Some g \<and> transaction_status (h_conn g) = InTransaction"
  using transaction_keeps_lease [of InTransaction "log_pump TransactionMode (Some (log_held [RMsg (BReadyForQuery InTransaction)]))"
      "log_held [RMsg (BReadyForQuery InTransaction)]" "[]" "log_se TransactionMode"]
  by (auto simp: pump_samples)

theorem shutdown_finishes_current_cycle_witness:
  "\<exists>q. pump_run (log_se SessionMode) (ShutdownSignal # [UpstreamReady, ShutdownSignal, Arrives [RMsg (BReadyForQuery Idle)]] @ replicate 2 UpstreamReady)
        ((log_pump SessionMode (Some (log_held [RMsg (BCommandComplete ''SELECT 0'')])))\<lparr>pm_hygiene := \<lparr>awaiting_response = True, copy = NoCopy\<rparr>\<rparr>) =
        Ends ClientGone q \<and> ds_sent (pm_ds q) = [BCommandComplete ''SELECT 0'', BReadyForQuery Idle]"
proof -
  let ?h = "log_held [RMsg (BCommandComplete ''SELECT 0'')]"
  let ?p = "(log_pump SessionMode (Some ?h))\<lparr>pm_hygiene := \<lparr>awaiting_response = True, copy = NoCopy\<rparr>\<rparr>"
  have "pm_hooks ?p = None" "ds_results (pm_ds ?p) = []" "pm_lease ?p = Some ?h" "ds_sent (pm_ds ?p) = []" "\<not> at_eof (h_conn ?h)"
    "inbox (h_conn ?h) = map RMsg [BCommandComplete ''SELECT 0'']"
    by (simp_all add: pump_samples)
  with shutdown_finishes_current_cycle [of ?p "log_se SessionMode" "[UpstreamReady, ShutdownSignal, Arrives [RMsg (BReadyForQuery Idle)]]" ?h
      "[BCommandComplete ''SELECT 0'']"]
  have "\<forall>got st rest. [BCommandComplete ''SELECT 0''] @ arriving [UpstreamReady, ShutdownSignal, Arrives [RMsg (BReadyForQuery Idle)]] =
        got @ BReadyForQuery st # rest \<and> list_all (\<lambda>m. \<not> is_ready m) got \<longrightarrow>
      (\<exists>q. pump_run (log_se SessionMode) (ShutdownSignal # [UpstreamReady, ShutdownSignal, Arrives [RMsg (BReadyForQuery Idle)]] @
            replicate (Suc (length got)) UpstreamReady) ?p = Ends ClientGone q \<and>
         ds_sent (pm_ds q) = ds_sent (pm_ds ?p) @ got @ [BReadyForQuery st])"
    by simp
  from this [rule_format, of "[BCommandComplete ''SELECT 0'']" Idle "[]"] \<open>ds_sent (pm_ds ?p) = []\<close> show ?thesis
    by (simp del: pump_run.simps replicate.simps add: received_def numeral_2_eq_2)
qed

theorem stale_copy_mark_blocks_shutdown_witness:
  "\<exists>q. pump_run (log_se SessionMode) [UpstreamReady, ShutdownSignal]
        ((log_pump SessionMode (Some ((log_held [])\<lparr>h_lease := \<lparr>l_conn = log_conn\<lparr>at_eof := True\<rparr>, l_created_at = 0\<rparr>\<rparr>)))
           \<lparr>pm_hygiene := \<lparr>awaiting_response = False, copy = ClientOwesCopy\<rparr>\<rparr>) = Goes q \<and> pm_lease q = None"
proof -
  let ?h = "(log_held [])\<lparr>h_lease := \<lparr>l_conn = log_conn\<lparr>at_eof := True\<rparr>, l_created_at = 0\<rparr>\<rparr>"
  let ?p = "(log_pump SessionMode (Some ?h))\<lparr>pm_hygiene := \<lparr>awaiting_response = False, copy = ClientOwesCopy\<rparr>\<rparr>"
  have "pm_hooks ?p = None" "ds_results (pm_ds ?p) = []" "pm_lease ?p = Some ?h" "inbox (h_conn ?h) = []" "at_eof (h_conn ?h)"
    "copy (pm_hygiene ?p) \<noteq> NoCopy"
    by (simp_all add: pump_samples)
  from stale_copy_mark_blocks_shutdown [OF this, of "log_se SessionMode"] show ?thesis by blast
qed

theorem plain_session_never_panics_witness:
  "pump_run (log_se TransactionMode) [ClientMsg (FQuery ''SELECT 1''), UpstreamReady, ClientEof] (idle_pump TransactionMode) \<noteq> Panics"
  by (rule plain_session_never_panics) (simp add: idle_pump_def pump_new_def)

lemma idle_pump_attaches:
  "\<exists>q. pump_event (log_se TransactionMode) (ClientMsg (FQuery ''SELECT 1'')) (idle_pump TransactionMode) = Goes q \<and>
     pm_lease q \<noteq> None \<and> \<not> pm_dirty q"
  by (simp add: idle_pump_def pump_samples log_ops_def pump_simps pool_simps)

theorem session_returns_every_permit_witness:
  "\<exists>q. pump_run (log_se TransactionMode) [ClientMsg (FQuery ''SELECT 1''), ClientEof] (idle_pump TransactionMode) = Ends ClientGone q \<and>
     pm_lease q \<noteq> None \<and> leased_out log_key (fst (session_end (log_se TransactionMode) ClientGone q)) = 0"
proof -
  obtain q where q: "pump_event (log_se TransactionMode) (ClientMsg (FQuery ''SELECT 1'')) (idle_pump TransactionMode) = Goes q"
    "pm_lease q \<noteq> None" using idle_pump_attaches by blast
  then have r: "pump_run (log_se TransactionMode) [ClientMsg (FQuery ''SELECT 1''), ClientEof] (idle_pump TransactionMode) = Ends ClientGone q"
    by simp
  have "world_wf (pm_world (idle_pump TransactionMode))" "pm_lease (idle_pump TransactionMode) = None"
    "leased_out log_key (pm_world (idle_pump TransactionMode)) = 0"
    by (simp_all add: idle_pump_def pump_new_def world_wf_def leased_out_def)
  with session_returns_every_permit [OF _ _ r, of log_key] have
    "leased_out log_key (fst (session_end (log_se TransactionMode) ClientGone q)) = 0" by simp
  with r q show ?thesis by blast
qed

lemma idle_pump_prepares:
  "\<exists>q h. pump_run (log_se TransactionMode) [ClientMsg (FParse \<lparr>parse_name = Some ''s'', parse_query = ''SELECT 1'', parse_type_oids = []\<rparr>),
        Arrives [RMsg (BReadyForQuery Idle)]] (idle_pump TransactionMode) = Goes q \<and>
     pm_lease q = Some h \<and> inbox (h_conn h) = [RMsg (BReadyForQuery Idle)] \<and> pm_registry q \<noteq> [] \<and> pm_hooks q = None \<and>
     ds_results (pm_ds q) = [] \<and> \<not> pm_draining q"
  by (simp add: idle_pump_def pump_samples log_ops_def pump_simps pool_simps registry_lookup_def record_parse_def conn_feed_def on_conn_def)

theorem detach_discards_statements_witness:
  "\<exists>q h q' pool'. pump_run (log_se TransactionMode) [ClientMsg (FParse \<lparr>parse_name = Some ''s'', parse_query = ''SELECT 1'', parse_type_oids = []\<rparr>),
        Arrives [RMsg (BReadyForQuery Idle)]] (idle_pump TransactionMode) = Goes q \<and> pm_lease q = Some h \<and>
     upstream_arm (log_se TransactionMode) q = Goes q' \<and> pm_lease q' = None \<and> w_pools (pm_world q') (h_key h) = Some pool'"
proof -
  obtain q h where q: "pump_run (log_se TransactionMode) [ClientMsg (FParse \<lparr>parse_name = Some ''s'', parse_query = ''SELECT 1'', parse_type_oids = []\<rparr>),
        Arrives [RMsg (BReadyForQuery Idle)]] (idle_pump TransactionMode) = Goes q" "pm_lease q = Some h"
      "inbox (h_conn h) = [RMsg (BReadyForQuery Idle)]" "pm_registry q \<noteq> []" "pm_hooks q = None" "ds_results (pm_ds q) = []" "\<not> pm_draining q"
    using idle_pump_prepares by blast
  have "world_wf (pm_world (idle_pump TransactionMode))" "pm_lease (idle_pump TransactionMode) = None" "transaction_mode (log_se TransactionMode)"
    by (simp_all add: idle_pump_def pump_new_def world_wf_def transaction_mode_def log_se_def log_env_def)
  from detach_discards_statements [OF this(1,2) q(1,4) this(3) q(5-7,2,3)] q(1,2) show ?thesis by blast
qed

theorem closed_statement_stays_registered_witness:
  "\<exists>q. pump_run (log_se SessionMode) [ClientMsg (FClose (Some ''s'') ''S''),
        ClientMsg (FParse \<lparr>parse_name = Some ''s'', parse_query = ''SELECT 2'', parse_type_oids = []\<rparr>)]
        ((log_pump SessionMode (Some (log_held [])))\<lparr>pm_registry := [(''s'', ''SELECT 1'', [])]\<rparr>) = Goes q \<and>
     lease_log (\<lambda>w. w) q = [FClose (Some ''s'') ''S''] \<and> pm_swallow q"
  using closed_statement_stays_registered [of "log_se SessionMode" "\<lambda>w. w" "(log_pump SessionMode (Some (log_held [])))\<lparr>pm_registry := [(''s'', ''SELECT 1'', [])]\<rparr>"
      "''s''" "''SELECT 1''" "[]" "\<lparr>parse_name = Some ''s'', parse_query = ''SELECT 2'', parse_type_oids = []\<rparr>" "''S''"]
    log_ops_logs log_accepts
  by (auto simp: pump_samples registry_lookup_def open_session_def lease_log_def)

end
