(* ===== verification/Runtime.thy ===== *)
theory Runtime
  imports Config
begin

text \<open>
  The registries a session is entered in while it lives: the cancel router
  (src/crates/pgferry/src/cancel.rs) and the session registry (src/crates/pgferry/src/runtime.rs).

  Objects shared by reference - the cancel channels and the \<^verbatim>\<open>Arc<SessionInfo>\<close> values - live in a list
  that only grows; a reference is an index into it.
\<close>

section \<open>The cancel router\<close>

text \<open>
  A channel of capacity one carrying \<^verbatim>\<open>()\<close>: whether a signal is buffered, whether the receiver is
  still there, and whether the sender (which only the router's entry owns) is. \<^verbatim>\<open>try_send\<close> on a full or
  closed channel fails and changes nothing.
\<close>

record channel =
  ch_pending :: bool
  ch_open :: bool
  ch_sender :: bool

definition try_send :: "channel \<Rightarrow> channel" where
  "try_send c = (if ch_open c then c\<lparr>ch_pending := True\<rparr> else c)"

type_synonym cancel_key = "i32 \<times> u8 list"

record cancel_router =
  cr_sessions :: "cancel_key \<rightharpoonup> nat"
  cr_channels :: "channel list"

definition router_new :: cancel_router where
  "router_new = \<lparr>cr_sessions = Map.empty, cr_channels = []\<rparr>"

text \<open>An entry that is replaced or removed drops its sender.\<close>

definition drop_sender :: "nat option \<Rightarrow> channel list \<Rightarrow> channel list" where
  "drop_sender entry chs =
     (case entry of None \<Rightarrow> chs | Some tx \<Rightarrow> chs[tx := (chs ! tx)\<lparr>ch_sender := False\<rparr>])"

definition router_register :: "i32 \<Rightarrow> u8 list \<Rightarrow> cancel_router \<Rightarrow> nat \<times> cancel_router" where
  "router_register pid secret r =
     (let rx = length (cr_channels r)
      in (rx, r\<lparr>cr_sessions := (cr_sessions r)((pid, secret) \<mapsto> rx),
                cr_channels := drop_sender (cr_sessions r (pid, secret)) (cr_channels r) @
                  [\<lparr>ch_pending = False, ch_open = True, ch_sender = True\<rparr>]\<rparr>))"

definition router_cancel :: "i32 \<Rightarrow> u8 list \<Rightarrow> cancel_router \<Rightarrow> bool \<times> cancel_router" where
  "router_cancel pid secret r =
     (case cr_sessions r (pid, secret) of
        Some tx \<Rightarrow> (True, r\<lparr>cr_channels := (cr_channels r)[tx := try_send (cr_channels r ! tx)]\<rparr>)
      | None \<Rightarrow> (False, r))"

definition router_unregister :: "i32 \<Rightarrow> u8 list \<Rightarrow> cancel_router \<Rightarrow> cancel_router" where
  "router_unregister pid secret r =
     r\<lparr>cr_sessions := (cr_sessions r)((pid, secret) := None),
       cr_channels := drop_sender (cr_sessions r (pid, secret)) (cr_channels r)\<rparr>"

text \<open>
  The session's side: polling the receiver gives the buffered signal, reports the channel closed when no
  sender is left (the router's entry was replaced or removed), or waits; ending drops the receiver.
\<close>

datatype poll = Signal | Closed | Waits

definition router_recv :: "nat \<Rightarrow> cancel_router \<Rightarrow> poll \<times> cancel_router" where
  "router_recv rx r =
     (if ch_pending (cr_channels r ! rx)
      then (Signal, r\<lparr>cr_channels := (cr_channels r)[rx := (cr_channels r ! rx)\<lparr>ch_pending := False\<rparr>]\<rparr>)
      else if ch_sender (cr_channels r ! rx) then (Waits, r) else (Closed, r))"

definition router_drop :: "nat \<Rightarrow> cancel_router \<Rightarrow> cancel_router" where
  "router_drop rx r = r\<lparr>cr_channels := (cr_channels r)[rx := (cr_channels r ! rx)\<lparr>ch_open := False\<rparr>]\<rparr>"

text \<open>Everything that can happen to the router, by any session, in any order.\<close>

datatype router_event =
    RRegister i32 "u8 list"
  | RCancel i32 "u8 list"
  | RUnregister i32 "u8 list"
  | RRecv nat
  | RDrop nat

fun router_apply :: "router_event \<Rightarrow> cancel_router \<Rightarrow> cancel_router" where
  "router_apply (RRegister pid s) r = snd (router_register pid s r)"
| "router_apply (RCancel pid s) r = snd (router_cancel pid s r)"
| "router_apply (RUnregister pid s) r = router_unregister pid s r"
| "router_apply (RRecv rx) r = snd (router_recv rx r)"
| "router_apply (RDrop rx) r = router_drop rx r"

text \<open>Every entry names a channel of its own.\<close>

definition router_wf :: "cancel_router \<Rightarrow> bool" where
  "router_wf r \<longleftrightarrow>
     (\<forall>k rx. cr_sessions r k = Some rx \<longrightarrow>
        rx < length (cr_channels r) \<and> (\<forall>k'. cr_sessions r k' = Some rx \<longrightarrow> k' = k))"

lemma length_drop_sender [simp]: "length (drop_sender entry chs) = length chs"
  by (simp add: drop_sender_def split: option.splits)

lemma router_wf_same_sessions:
  "router_wf r \<Longrightarrow> cr_sessions r' = cr_sessions r \<Longrightarrow> length (cr_channels r') = length (cr_channels r) \<Longrightarrow> router_wf r'"
  by (simp add: router_wf_def)

lemma router_wf_register:
  assumes "router_wf r"
  shows "router_wf (snd (router_register pid s r))"
proof -
  have "cr_sessions r k \<noteq> Some (length (cr_channels r))" for k
    using assms unfolding router_wf_def by blast
  with assms show ?thesis
    unfolding router_wf_def router_register_def Let_def by (simp add: less_Suc_eq split_paired_all)
qed

lemma router_wf_unregister: "router_wf r \<Longrightarrow> router_wf (router_unregister pid s r)"
  by (auto simp: router_wf_def router_unregister_def split: if_splits)

lemma router_wf_apply: "router_wf r \<Longrightarrow> router_wf (router_apply e r)"
  by (cases e)
    (auto simp: router_wf_register router_wf_unregister router_cancel_def router_recv_def router_drop_def
      elim: router_wf_same_sessions split: option.splits)

interpretation ro: event_system router_apply router_wf
  by unfold_locales (rule router_wf_apply)

lemma router_wf_history: "router_wf (fold router_apply es router_new)"
  by (rule ro.run_inv) (simp add: router_wf_def router_new_def)

lemma router_register_entry:
  "cr_sessions (snd (router_register pid s r)) (pid, s) = Some (fst (router_register pid s r))"
  "(pid, s) \<noteq> k \<Longrightarrow> cr_sessions (snd (router_register pid s r)) k = cr_sessions r k"
  by (auto simp: router_register_def Let_def)

lemma router_register_unregister:
  "cr_sessions (router_unregister pid s (snd (router_register pid s r))) = (cr_sessions r)((pid, s) := None)"
  by (simp add: router_register_def router_unregister_def Let_def)

text \<open>
  Property C31. A cancel request reaches the session that owns the presented pair and nobody else, whatever
  happened to the router before: with an unknown pair - also a right pid with a wrong secret - it answers
  false and changes nothing; with a registered pair it answers true, the owner's receiver (while it is
  alive) then yields a signal, repeating it before that adds nothing, and no other channel and no
  registration changes.
\<close>

theorem cancel_reaches_owner_only:
  fixes es pid s
  defines "r \<equiv> fold router_apply es router_new"
  shows "(case cr_sessions r (pid, s) of
      None \<Rightarrow> router_cancel pid s r = (False, r)
    | Some rx \<Rightarrow>
        (\<exists>r'. router_cancel pid s r = (True, r') \<and> cr_sessions r' = cr_sessions r \<and>
           (\<forall>k. k \<noteq> (pid, s) \<longrightarrow> cr_sessions r k \<noteq> Some rx) \<and>
           (\<forall>j. j \<noteq> rx \<longrightarrow> cr_channels r' ! j = cr_channels r ! j) \<and>
           (ch_open (cr_channels r ! rx) \<longrightarrow> fst (router_recv rx r') = Signal) \<and>
           router_cancel pid s r' = (True, r')))"
proof (cases "cr_sessions r (pid, s)")
  case None
  then show ?thesis by (simp add: router_cancel_def)
next
  case (Some rx)
  have wf: "router_wf r" unfolding r_def by (rule router_wf_history)
  then have rx: "rx < length (cr_channels r)" using Some by (simp add: router_wf_def)
  have other: "cr_sessions r k \<noteq> Some rx" if "k \<noteq> (pid, s)" for k
    using wf Some that unfolding router_wf_def by blast
  from Some rx other show ?thesis by (simp add: router_cancel_def router_recv_def try_send_def)
qed

text \<open>
  Two sessions that were handed the same pair (the keys are drawn at random): the second registration
  takes over, and when the first session ends its \<^verbatim>\<open>unregister\<close> removes the second one's entry.
\<close>

lemma colliding_keys_lose_entry:
  "cr_sessions (router_unregister pid s (snd (router_register pid s (snd (router_register pid s r))))) (pid, s) = None"
  by (simp add: router_unregister_def)

theorem cancel_reaches_owner_only_witness:
  "router_cancel 7 [1] (fold router_apply [RRegister 7 [1], RRegister 8 [2], RUnregister 7 [1]] router_new) =
     (False, fold router_apply [RRegister 7 [1], RRegister 8 [2], RUnregister 7 [1]] router_new) \<and>
   fst (router_recv 1 (snd (router_cancel 8 [2] (fold router_apply [RRegister 7 [1], RRegister 8 [2], RUnregister 7 [1]] router_new)))) = Signal"
proof -
  note th = cancel_reaches_owner_only [where es = "[RRegister 7 [1], RRegister 8 [2], RUnregister 7 [1]]"]
  show ?thesis
    using th [of 7 "[1]"] th [of 8 "[2]"]
    by (auto simp: router_register_def router_unregister_def router_new_def drop_sender_def Let_def)
qed

section \<open>The session registry\<close>

record session_info =
  si_pid :: i32
  si_addr :: string
  si_user :: string
  si_database :: string
  si_is_admin :: bool
  si_attached :: bool
  si_started :: instant

record runtime_state =
  rt_infos :: "session_info list"
  rt_sessions :: "nat list"
  rt_total :: u64

definition runtime_new :: runtime_state where
  "runtime_new = \<lparr>rt_infos = [], rt_sessions = [], rt_total = 0\<rparr>"

definition rt_info :: "runtime_state \<Rightarrow> nat \<Rightarrow> session_info" where
  "rt_info rt i = rt_infos rt ! i"

text \<open>Registering returns the reference the session keeps; its guard remembers the pid.\<close>

definition runtime_register :: "session_info \<Rightarrow> runtime_state \<Rightarrow> nat \<times> runtime_state" where
  "runtime_register info rt =
     (length (rt_infos rt),
      rt\<lparr>rt_total := rt_total rt + 1, rt_infos := rt_infos rt @ [info],
         rt_sessions := rt_sessions rt @ [length (rt_infos rt)]\<rparr>)"

definition live_sessions :: "runtime_state \<Rightarrow> session_info list" where
  "live_sessions rt = map (rt_info rt) (rt_sessions rt)"

definition sessions_active :: "runtime_state \<Rightarrow> nat" where
  "sessions_active rt = length (rt_sessions rt)"

definition sessions_total :: "runtime_state \<Rightarrow> u64" where
  "sessions_total rt = rt_total rt"

definition runtime_unregister :: "i32 \<Rightarrow> runtime_state \<Rightarrow> runtime_state" where
  "runtime_unregister pid rt = rt\<lparr>rt_sessions := filter (\<lambda>i. si_pid (rt_info rt i) \<noteq> pid) (rt_sessions rt)\<rparr>"

text \<open>Dropping the guard that \<^verbatim>\<open>register\<close> returned.\<close>

definition guard_drop :: "nat \<Rightarrow> runtime_state \<Rightarrow> runtime_state" where
  "guard_drop i rt = runtime_unregister (si_pid (rt_info rt i)) rt"

definition store_attached :: "nat \<Rightarrow> bool \<Rightarrow> runtime_state \<Rightarrow> runtime_state" where
  "store_attached i b rt = rt\<lparr>rt_infos := (rt_infos rt)[i := (rt_info rt i)\<lparr>si_attached := b\<rparr>]\<rparr>"

datatype runtime_event = Begins session_info | Ends_session nat | Attaches nat bool

fun runtime_apply :: "runtime_event \<Rightarrow> runtime_state \<Rightarrow> runtime_state" where
  "runtime_apply (Begins info) rt = snd (runtime_register info rt)"
| "runtime_apply (Ends_session i) rt = guard_drop i rt"
| "runtime_apply (Attaches i b) rt = store_attached i b rt"

text \<open>
  The sessions that have begun and not ended, as a reader of the event sequence counts them: \<open>n\<close> is the
  number of sessions begun so far.
\<close>

fun alive_after :: "nat \<Rightarrow> nat list \<Rightarrow> runtime_event list \<Rightarrow> nat list" where
  "alive_after n live [] = live"
| "alive_after n live (Begins info # es) = alive_after (Suc n) (live @ [n]) es"
| "alive_after n live (Ends_session i # es) = alive_after n (filter (\<lambda>j. j \<noteq> i) live) es"
| "alive_after n live (Attaches i b # es) = alive_after n live es"

text \<open>No session begins with the pid of one that is alive, and only begun sessions end or attach.\<close>

fun pids_fresh :: "runtime_event list \<Rightarrow> runtime_state \<Rightarrow> bool" where
  "pids_fresh [] rt = True"
| "pids_fresh (e # es) rt =
     ((case e of
         Begins info \<Rightarrow> si_pid info \<notin> si_pid ` set (live_sessions rt)
       | Ends_session i \<Rightarrow> i \<in> set (rt_sessions rt)
       | Attaches i b \<Rightarrow> i \<in> set (rt_sessions rt)) \<and> pids_fresh es (runtime_apply e rt))"

definition runtime_wf :: "runtime_state \<Rightarrow> bool" where
  "runtime_wf rt \<longleftrightarrow>
     set (rt_sessions rt) \<subseteq> {..<length (rt_infos rt)} \<and> distinct (map (\<lambda>i. si_pid (rt_info rt i)) (rt_sessions rt))"

lemma rt_info_register:
  "i < length (rt_infos rt) \<Longrightarrow> rt_info (snd (runtime_register info rt)) i = rt_info rt i"
  "rt_info (snd (runtime_register info rt)) (length (rt_infos rt)) = info"
  by (simp_all add: rt_info_def runtime_register_def nth_append)

lemma rt_info_store_attached [simp]: "si_pid (rt_info (store_attached i b rt) j) = si_pid (rt_info rt j)"
  by (cases "i < length (rt_infos rt)") (auto simp: rt_info_def store_attached_def nth_list_update list_update_beyond)

lemma runtime_wf_register:
  assumes "runtime_wf rt" "si_pid info \<notin> si_pid ` set (live_sessions rt)"
  shows "runtime_wf (snd (runtime_register info rt))"
proof -
  let ?rt = "snd (runtime_register info rt)"
  have "map (\<lambda>i. si_pid (rt_info ?rt i)) (rt_sessions rt) = map (\<lambda>i. si_pid (rt_info rt i)) (rt_sessions rt)"
    using assms(1) by (auto simp: runtime_wf_def rt_info_register)
  moreover have "rt_sessions ?rt = rt_sessions rt @ [length (rt_infos rt)]" "length (rt_infos ?rt) = Suc (length (rt_infos rt))"
    by (simp_all add: runtime_register_def)
  moreover have "si_pid info \<notin> set (map (\<lambda>i. si_pid (rt_info rt i)) (rt_sessions rt))"
    using assms(2) by (simp add: live_sessions_def image_image)
  ultimately show ?thesis
    using assms(1) by (auto simp: runtime_wf_def rt_info_register(2) simp del: set_map map_eq_conv)
qed

lemma guard_drop_sessions:
  assumes "runtime_wf rt" "i \<in> set (rt_sessions rt)"
  shows "rt_sessions (guard_drop i rt) = filter (\<lambda>j. j \<noteq> i) (rt_sessions rt)"
proof -
  have "(si_pid (rt_info rt j) \<noteq> si_pid (rt_info rt i)) = (j \<noteq> i)" if "j \<in> set (rt_sessions rt)" for j
    using assms that by (auto simp: runtime_wf_def distinct_map inj_on_def)
  then show ?thesis by (simp add: guard_drop_def runtime_unregister_def cong: filter_cong)
qed

lemma guard_drop_others [simp]: "rt_infos (guard_drop i rt) = rt_infos rt" "rt_total (guard_drop i rt) = rt_total rt"
  "rt_info (guard_drop i rt) = rt_info rt"
  by (simp_all add: guard_drop_def runtime_unregister_def rt_info_def fun_eq_iff)

lemma runtime_wf_guard_drop:
  "runtime_wf rt \<Longrightarrow> i \<in> set (rt_sessions rt) \<Longrightarrow> runtime_wf (guard_drop i rt)"
  by (auto simp: runtime_wf_def guard_drop_sessions distinct_map intro: inj_on_subset)

lemma runtime_wf_store: "runtime_wf rt \<Longrightarrow> runtime_wf (store_attached i b rt)"
  by (simp add: runtime_wf_def) (simp add: store_attached_def)

lemma registry_tracks:
  "runtime_wf rt \<Longrightarrow> pids_fresh es rt \<Longrightarrow>
     rt_sessions (fold runtime_apply es rt) = alive_after (length (rt_infos rt)) (rt_sessions rt) es \<and>
     rt_total (fold runtime_apply es rt) = rt_total rt + of_nat (length (filter (\<lambda>e. \<exists>i. e = Begins i) es))"
proof (induction es arbitrary: rt)
  case (Cons e es)
  show ?case
  proof (cases e)
    case (Begins info)
    with Cons.prems Cons.IH [of "runtime_apply e rt"] show ?thesis
      by (simp add: runtime_wf_register) (simp add: runtime_register_def)
  next
    case (Ends_session i)
    with Cons.prems Cons.IH [of "runtime_apply e rt"] show ?thesis
      by (simp add: runtime_wf_guard_drop guard_drop_sessions)
  next
    case (Attaches i b)
    with Cons.prems Cons.IH [of "runtime_apply e rt"] show ?thesis
      by (simp add: runtime_wf_store) (simp add: store_attached_def)
  qed
qed simp

text \<open>
  Lemma. As long as no session is given the pid of another live one, the registry lists exactly the
  sessions that have begun and not yet ended, in the order they began, and the total counts every
  session ever begun (as a 64-bit counter). Dropping a guard removes by pid, so the condition is needed.
\<close>

theorem registry_lists_live_sessions:
  assumes "pids_fresh es runtime_new"
  shows "rt_sessions (fold runtime_apply es runtime_new) = alive_after 0 [] es \<and>
    sessions_active (fold runtime_apply es runtime_new) = length (alive_after 0 [] es) \<and>
    sessions_total (fold runtime_apply es runtime_new) = of_nat (length (filter (\<lambda>e. \<exists>i. e = Begins i) es))"
proof -
  have "runtime_wf runtime_new" by (simp add: runtime_wf_def runtime_new_def)
  from registry_tracks [OF this assms] show ?thesis
    by (simp add: sessions_active_def sessions_total_def) (simp add: runtime_new_def)
qed

definition sample_info :: "i32 \<Rightarrow> session_info" where
  "sample_info pid =
     \<lparr>si_pid = pid, si_addr = ''a'', si_user = ''u'', si_database = ''d'', si_is_admin = False, si_attached = False, si_started = 0\<rparr>"

lemma colliding_pids_vanish:
  "live_sessions (fold runtime_apply [Begins (sample_info 5), Begins (sample_info 5), Ends_session 0] runtime_new) = []"
  by (simp add: runtime_register_def guard_drop_def runtime_unregister_def rt_info_def runtime_new_def live_sessions_def)

theorem registry_lists_live_sessions_witness:
  "rt_sessions (fold runtime_apply [Begins (sample_info 5), Begins (sample_info 6), Ends_session 0] runtime_new) = [1]"
proof -
  have "pids_fresh [Begins (sample_info 5), Begins (sample_info 6), Ends_session 0] runtime_new"
    by (simp add: runtime_register_def live_sessions_def rt_info_def runtime_new_def sample_info_def)
  from registry_lists_live_sessions [OF this] show ?thesis by simp
qed

end
