(* ===== verification/Metrics.thy ===== *)
theory Metrics
  imports Pool Runtime
begin

text \<open>
  The Prometheus endpoint (src/crates/pgferry/src/metrics.rs): reading the request head from the chunks
  the socket delivers, the response, the rendering of the registries, and the escaping of label values.
  The order in which the pool registry is iterated is the argument \<open>order\<close>.
\<close>

section \<open>Rendering\<close>

definition newline :: char where "newline = CHR 0x0A"
definition dquote :: char where "dquote = CHR 0x22"
definition backslash :: char where "backslash = CHR 0x5C"

definition escape :: "string \<Rightarrow> string" where
  "escape v =
     replace_char newline (backslash # ''n'')
       (replace_char dquote [backslash, dquote] (replace_char backslash [backslash, backslash] v))"

definition show_u64 :: "u64 \<Rightarrow> string" where "show_u64 w = show_nat (unat w)"
definition show_i64 :: "i64 \<Rightarrow> string" where "show_i64 w = show_int (sint w)"

definition key_labels :: "pool_key \<Rightarrow> string" where
  "key_labels key =
     ''route='' @ [dquote] @ escape (key_route key) @ [dquote] @
     '',user='' @ [dquote] @ escape (key_user key) @ [dquote] @
     '',database='' @ [dquote] @ escape (case key_database key of Some d \<Rightarrow> d | None \<Rightarrow> []) @ [dquote]"

definition metric_lines :: "string \<Rightarrow> string \<Rightarrow> string \<Rightarrow> string \<Rightarrow> string" where
  "metric_lines name kind labels val =
     ''# TYPE '' @ name @ '' '' @ kind @ [newline] @ name @ ''{'' @ labels @ ''} '' @ val @ [newline]"

definition counter :: "string \<Rightarrow> string \<Rightarrow> u64 \<Rightarrow> string" where
  "counter labels name v = metric_lines (''pgferry_pool_'' @ name @ ''_total'') ''counter'' labels (show_u64 v)"

definition gauge :: "string \<Rightarrow> string \<Rightarrow> string \<Rightarrow> string" where
  "gauge labels name v = metric_lines (''pgferry_pool_'' @ name) ''gauge'' labels v"

definition render_pool :: "'s pool \<Rightarrow> string" where
  "render_pool p =
     (let labels = key_labels (p_key p); m = p_metrics p
      in counter labels ''checkouts'' (m_checkouts m) @
         counter labels ''checkouts_reused'' (m_reused m) @
         counter labels ''connections_created'' (m_created m) @
         counter labels ''checkins'' (m_checked_in m) @
         counter labels ''connections_dropped'' (m_dropped m) @
         counter labels ''connections_evicted'' (m_evicted m) @
         counter labels ''stale_probes'' (m_probed m) @
         gauge labels ''connections_active'' (show_i64 (m_active m)) @
         gauge labels ''connections_idle'' (show_nat (idle_len p)) @
         gauge labels ''clients_waiting'' (show_i64 (m_waiting m)) @
         gauge labels ''max_size'' (show_nat (pool_max_size p)))"

definition pools_in :: "pool_key list \<Rightarrow> 's pool_manager \<Rightarrow> 's pool list" where
  "pools_in order ps = List.map_filter ps order"

definition render :: "runtime_state \<Rightarrow> 's pool list \<Rightarrow> string" where
  "render rt ps =
     ''# TYPE pgferry_sessions_active gauge'' @ [newline] @
     ''pgferry_sessions_active '' @ show_nat (sessions_active rt) @ [newline] @
     ''# TYPE pgferry_sessions_total counter'' @ [newline] @
     ''pgferry_sessions_total '' @ show_u64 (sessions_total rt) @ [newline] @
     concat (map render_pool ps)"

section \<open>Serving a request\<close>

definition crlf :: string where "crlf = [CHR 0x0D, CHR 0x0A]"

fun has_blank_line :: "string \<Rightarrow> bool" where
  "has_blank_line [] = False"
| "has_blank_line (c # cs) = (strip_prefix (crlf @ crlf) (c # cs) \<noteq> None \<or> has_blank_line cs)"

text \<open>
  The read loop: \<open>reads\<close> are the results of the successive reads, \<open>None\<close> an I/O error, the empty string
  the end of the stream. The result is the request head, \<open>Fail\<close> when the connection ends first, and
  \<open>Blocked\<close> when it waits for more.
\<close>

fun read_head :: "string \<Rightarrow> string option list \<Rightarrow> (unit, string) io" where
  "read_head buf [] = Blocked"
| "read_head buf (None # reads) = Fail ()"
| "read_head buf (Some chunk # reads) =
     (if chunk = [] then Fail ()
      else (let buf = buf @ chunk
            in if has_blank_line buf \<or> length buf > 16 * 1024 then Done buf else read_head buf reads))"

text \<open>\<^verbatim>\<open>str::lines\<close>: the first line, without its line end; \<^verbatim>\<open>split_whitespace\<close>.\<close>

definition first_line :: "string \<Rightarrow> string" where
  "first_line s =
     (let l = takeWhile (\<lambda>c. c \<noteq> newline) s
      in if l \<noteq> s \<and> l \<noteq> [] \<and> last l = CHR 0x0D then butlast l else l)"

definition split_whitespace :: "string \<Rightarrow> string list" where
  "split_whitespace s = filter (\<lambda>w. w \<noteq> []) (split_on is_ws s)"

definition nth_part :: "string list \<Rightarrow> nat \<Rightarrow> string" where
  "nth_part ws n = (if n < length ws then ws ! n else [])"

definition http_response :: "string \<Rightarrow> string \<Rightarrow> string" where
  "http_response status body =
     ''HTTP/1.1 '' @ status @ crlf @ ''Content-Type: text/plain; version=0.0.4'' @ crlf @
     ''Content-Length: '' @ show_nat (length body) @ crlf @ ''Connection: close'' @ crlf @ crlf @ body"

definition answer_request :: "string \<Rightarrow> string \<Rightarrow> string" where
  "answer_request rendered head =
     (let parts = split_whitespace (first_line head)
      in if nth_part parts 0 = ''GET'' \<and> nth_part parts 1 = ''/metrics''
         then http_response ''200 OK'' rendered
         else http_response ''404 Not Found'' (''not found'' @ [newline]))"

definition handle_metrics :: "runtime_state \<Rightarrow> 's pool list \<Rightarrow> string option list \<Rightarrow> (unit, string) io" where
  "handle_metrics rt ps reads =
     (case read_head [] reads of
        Done head \<Rightarrow> Done (answer_request (render rt ps) head)
      | Fail e \<Rightarrow> Fail e
      | Blocked \<Rightarrow> Blocked)"

text \<open>
  \<^verbatim>\<open>run_metrics_server\<close> on the results of its successive accepts: the sockets handed to tasks of their own, and the
  error it has returned with, if any. What a socket's task answers is \<open>handle_metrics\<close>.
\<close>

fun metrics_accepts :: "('e + 'k) list \<Rightarrow> 'k list \<times> 'e option" where
  "metrics_accepts [] = ([], None)"
| "metrics_accepts (Inl e # accepts) = ([], Some e)"
| "metrics_accepts (Inr socket # accepts) = (let (served, e) = metrics_accepts accepts in (socket # served, e))"

definition run_metrics_server :: "('e + string) \<Rightarrow> ('e + 'k) list \<Rightarrow> 'k list \<times> 'e option" where
  "run_metrics_server local_addr accepts =
     (case local_addr of Inl e \<Rightarrow> ([], Some e) | Inr _ \<Rightarrow> metrics_accepts accepts)"

text \<open>
  Lemma. The first failing accept ends the endpoint for good: everything accepted before it is served, nothing after.
\<close>

lemma metrics_server_ends_on_error:
  "run_metrics_server (Inr a) (map Inr served @ Inl e # later) = (served, Some e)"
  by (induction served) (simp_all add: run_metrics_server_def)

section \<open>Label values\<close>

text \<open>How a scraper reads a quoted label value: the value and what follows its closing quote.\<close>

fun scan_value :: "string \<Rightarrow> (string \<times> string) option" where
  "scan_value [] = None"
| "scan_value (c # cs) =
     (if c = dquote then Some ([], cs)
      else if c = newline then None
      else if c = backslash then
        (case cs of
           [] \<Rightarrow> None
         | e # ds \<Rightarrow>
             if e = backslash \<or> e = dquote then map_option (\<lambda>(v, r). (e # v, r)) (scan_value ds)
             else if e = CHR ''n'' then map_option (\<lambda>(v, r). (newline # v, r)) (scan_value ds)
             else None)
      else map_option (\<lambda>(v, r). (c # v, r)) (scan_value cs))"

lemmas special_chars = newline_def dquote_def backslash_def

lemma escape_Nil [simp]: "escape [] = []"
  by (simp add: escape_def)

lemma escape_Cons:
  "escape (c # v) =
     (if c = backslash then [backslash, backslash]
      else if c = dquote then [backslash, dquote]
      else if c = newline then [backslash, CHR ''n'']
      else [c]) @ escape v"
  by (simp add: escape_def special_chars replace_char_append)

lemma scan_escape: "scan_value (escape v @ dquote # rest) = Some (v, rest)"
  by (induction v) (auto simp: escape_Cons special_chars)

lemma escape_delimited:
  assumes "escape v @ dquote # r = escape v' @ dquote # r'"
  shows "v = v' \<and> r = r'"
proof -
  have "Some (v, r) = Some (v', r')" unfolding scan_escape [symmetric] assms ..
  then show ?thesis by simp
qed

lemma escape_no_newline: "newline \<notin> set (escape v)"
  by (induction v) (auto simp: escape_Cons special_chars)

text \<open>
  Lemma. Whatever bytes a route, user or database name has - quotes, backslashes, line breaks - the
  label values stay inside their quotes: a scraper reads each one back exactly, no label contains a raw
  line break, and so two pools carry the same labels precisely when route, user and database name agree.
  The endpoint is not among them: pools of the same route and user on different endpoints are rendered
  as the same series.
\<close>

theorem labels_roundtrip:
  "scan_value (escape v @ dquote # rest) = Some (v, rest) \<and> newline \<notin> set (escape v) \<and>
   (key_labels k = key_labels k' \<longleftrightarrow>
      key_route k = key_route k' \<and> key_user k = key_user k' \<and>
      (case key_database k of Some d \<Rightarrow> d | None \<Rightarrow> []) = (case key_database k' of Some d \<Rightarrow> d | None \<Rightarrow> []))"
proof (intro conjI iffI)
  assume "key_labels k = key_labels k'"
  then have r: "escape (key_route k) @ dquote # ('',user='' @ [dquote] @ escape (key_user k) @ [dquote] @
      '',database='' @ [dquote] @ escape (case key_database k of Some d \<Rightarrow> d | None \<Rightarrow> []) @ [dquote]) =
     escape (key_route k') @ dquote # ('',user='' @ [dquote] @ escape (key_user k') @ [dquote] @
      '',database='' @ [dquote] @ escape (case key_database k' of Some d \<Rightarrow> d | None \<Rightarrow> []) @ [dquote])"
    by (simp add: key_labels_def)
  from escape_delimited [OF r] show "key_route k = key_route k'" by simp
  from escape_delimited [OF r]
  have u: "escape (key_user k) @ dquote # ('',database='' @ [dquote] @ escape (case key_database k of Some d \<Rightarrow> d | None \<Rightarrow> []) @ [dquote]) =
     escape (key_user k') @ dquote # ('',database='' @ [dquote] @ escape (case key_database k' of Some d \<Rightarrow> d | None \<Rightarrow> []) @ [dquote])"
    by simp
  from escape_delimited [OF u] show "key_user k = key_user k'" by simp
  from escape_delimited [OF u] escape_delimited [of _ "[]" _ "[]"]
  show "(case key_database k of Some d \<Rightarrow> d | None \<Rightarrow> []) = (case key_database k' of Some d \<Rightarrow> d | None \<Rightarrow> [])"
    by simp
qed (simp_all add: scan_escape escape_no_newline key_labels_def)

section \<open>Requests\<close>

lemma read_head_Done:
  "read_head buf reads = Done head \<Longrightarrow>
     (\<exists>k < length reads. head = buf @ concat (map the (take (Suc k) reads)) \<and>
        (has_blank_line head \<or> length head > 16 * 1024))"
proof (induction buf reads rule: read_head.induct)
  case (3 buf chunk reads)
  show ?case
  proof (cases "has_blank_line (buf @ chunk) \<or> length (buf @ chunk) > 16 * 1024")
    case True
    with 3 have "head = buf @ chunk" by (auto simp: Let_def split: if_splits)
    with True show ?thesis by (intro exI [of _ 0]) simp
  next
    case False
    with 3 obtain k where "k < length reads" "head = (buf @ chunk) @ concat (map the (take (Suc k) reads))"
      "has_blank_line head \<or> length head > 16 * 1024"
      by (auto simp: Let_def split: if_splits)
    then show ?thesis by (intro exI [of _ "Suc k"]) simp
  qed
qed simp_all

lemma read_head_bound:
  "length buf \<le> 16 * 1024 \<Longrightarrow> list_all (\<lambda>r. case r of None \<Rightarrow> True | Some c \<Rightarrow> length c \<le> 1024) reads \<Longrightarrow>
     read_head buf reads = Done head \<Longrightarrow> length head \<le> 17 * 1024"
proof (induction buf reads rule: read_head.induct)
  case (3 buf chunk reads)
  then show ?case
    by (cases "has_blank_line (buf @ chunk) \<or> length (buf @ chunk) > 16 * 1024") (auto simp: Let_def split: if_splits)
qed simp_all


lemma read_head_served:
  "list_all (\<lambda>c. c \<noteq> []) chunks \<Longrightarrow> chunks \<noteq> [] \<Longrightarrow>
     has_blank_line (buf @ concat chunks) \<or> length (buf @ concat chunks) > 16 * 1024 \<Longrightarrow>
     \<exists>head. read_head buf (map Some chunks) = Done head"
proof (induction chunks arbitrary: buf)
  case (Cons c cs)
  then show ?case
  proof (cases "has_blank_line (buf @ c) \<or> length (buf @ c) > 16 * 1024")
    case False
    with Cons.prems have "cs \<noteq> []" by auto
    with Cons.prems Cons.IH [of "buf @ c"] False show ?thesis by (simp add: Let_def)
  qed (simp add: Let_def)
qed simp

text \<open>
  Lemma. A request is answered as soon as its head is complete, from at most 17 KiB of buffered input:
  if the chunks the socket delivers (none larger than the 1 KiB read buffer) end the head or pass 16 KiB,
  the connection gets a response, computed from the shortest run of chunks that does so; a peer that
  closes or keeps waiting before that gets none.
\<close>

theorem metrics_request_served:
  assumes "list_all (\<lambda>c. c \<noteq> [] \<and> length c \<le> 1024) chunks" "chunks \<noteq> []"
    and "has_blank_line (concat chunks) \<or> length (concat chunks) > 16 * 1024"
  shows "\<exists>k<length chunks. length (concat (take (Suc k) chunks)) \<le> 17 * 1024 \<and>
    handle_metrics rt ps (map Some chunks) = Done (answer_request (render rt ps) (concat (take (Suc k) chunks)))"
proof -
  have "list_all (\<lambda>c. c \<noteq> []) chunks" using assms(1) by (auto simp: list_all_iff)
  from read_head_served [of chunks "[]", OF this assms(2)] assms(3)
  obtain head where head: "read_head [] (map Some chunks) = Done head" by auto
  from read_head_Done [OF head] obtain k where k: "k < length chunks" "head = concat (take (Suc k) chunks)"
    by (auto simp: take_map comp_def)
  moreover have "length head \<le> 17 * 1024"
    using read_head_bound [OF _ _ head] assms(1) by (simp add: list_all_iff)
  ultimately show ?thesis using head by (intro exI [of _ k]) (simp add: handle_metrics_def)
qed

theorem metrics_request_served_witness:
  "handle_metrics runtime_new ([] :: unit pool list) [Some ''GET /metrics HTTP/1.1'', Some (crlf @ crlf)] =
     Done (http_response ''200 OK'' (render runtime_new ([] :: unit pool list)))"
proof -
  let ?cs = "[''GET /metrics HTTP/1.1'', crlf @ crlf]"
  have cs: "list_all (\<lambda>c. c \<noteq> [] \<and> length c \<le> 1024) ?cs" "?cs \<noteq> []"
    "has_blank_line (concat ?cs) \<or> length (concat ?cs) > 16 * 1024"
    by (simp_all add: crlf_def)
  obtain k where k: "k < length ?cs"
    "handle_metrics runtime_new ([] :: unit pool list) (map Some ?cs) =
       Done (answer_request (render runtime_new ([] :: unit pool list)) (concat (take (Suc k) ?cs)))"
    using metrics_request_served [OF cs] by blast
  have ans: "answer_request r (''GET /metrics HTTP/1.1'' @ xs) = http_response ''200 OK'' r"
    if "xs = [] \<or> xs = crlf @ crlf" for r xs
    using that by (auto simp: answer_request_def first_line_def split_whitespace_def nth_part_def is_ws_def newline_def crlf_def Let_def)
  have "concat (take (Suc k) ?cs) = ''GET /metrics HTTP/1.1'' @ (if k = 0 then [] else crlf @ crlf)"
    using k(1) by (cases k) simp_all
  then have "answer_request r (concat (take (Suc k) ?cs)) = http_response ''200 OK'' r" for r
    using ans [of "if k = 0 then [] else crlf @ crlf" r] by simp
  with k(2) show ?thesis by simp
qed

end
