(* ===== verification/Admin.thy ===== *)
theory Admin
  imports Metrics
begin

text \<open>
  The admin console (src/crates/pgferry/src/admin.rs). It reads the registries and answers locally. Each
  event is handled against a snapshot of them, since other sessions change them in between:
  \<open>sn_pools\<close> is what iterating the pool registry yields at that moment. Parameters (\<open>admin_cfg\<close>): the
  crate version the build inserts, pgwire's row encoder and handshake messages, the error codec, and the
  one-decimal rendering of a floating-point number of seconds.
\<close>

record admin_cfg =
  ac_version :: string
  ac_encode_row :: "string list \<Rightarrow> data_row"
  ac_fmt_secs :: "duration \<Rightarrow> string"
  ac_codec :: err_codec
  ac_auth :: "(string \<rightharpoonup> string) \<Rightarrow> i32 \<Rightarrow> u8 list \<Rightarrow> backend_msg list"

record 's snapshot =
  sn_pools :: "'s pool list"
  sn_runtime :: runtime_state
  sn_now :: instant

definition admin_parameters :: "string \<Rightarrow> string \<rightharpoonup> string" where
  "admin_parameters version =
     [''server_version'' \<mapsto> ''pgferry-'' @ version, ''server_encoding'' \<mapsto> ''UTF8'', ''client_encoding'' \<mapsto> ''UTF8'',
      ''DateStyle'' \<mapsto> ''ISO, MDY'', ''integer_datetimes'' \<mapsto> ''on'', ''standard_conforming_strings'' \<mapsto> ''on'',
      ''is_superuser'' \<mapsto> ''on'']"

section \<open>Result sets\<close>

definition text_result :: "admin_cfg \<Rightarrow> string list \<Rightarrow> string list list \<Rightarrow> string \<Rightarrow> backend_msg list" where
  "text_result cfg columns rows tag =
     BRowDescription (map (\<lambda>n. \<lparr>fd_name = n, fd_type_id = 25, fd_format_code = 0\<rparr>) columns) #
     map (\<lambda>r. BDataRow (ac_encode_row cfg r)) rows @ [BCommandComplete (tag @ '' '' @ show_nat (length rows))]"

definition unwrap_db :: "string option \<Rightarrow> string" where
  "unwrap_db db = (case db of Some d \<Rightarrow> d | None \<Rightarrow> [])"

definition pool_clients :: "runtime_state \<Rightarrow> pool_key \<Rightarrow> nat" where
  "pool_clients rt key =
     length (filter (\<lambda>s. \<not> si_is_admin s \<and> si_user s = key_user key \<and> si_database s = unwrap_db (key_database key))
       (live_sessions rt))"

definition show_pools :: "admin_cfg \<Rightarrow> 's snapshot \<Rightarrow> backend_msg list" where
  "show_pools cfg sn =
     text_result cfg [''database'', ''user'', ''route'', ''cl_active'', ''cl_waiting'', ''sv_active'', ''sv_idle'', ''max_size'']
       (map (\<lambda>p. [unwrap_db (key_database (p_key p)), key_user (p_key p), key_route (p_key p),
                  show_nat (pool_clients (sn_runtime sn) (p_key p)), show_i64 (m_waiting (p_metrics p)),
                  show_i64 (m_active (p_metrics p)), show_nat (idle_len p), show_nat (pool_max_size p)]) (sn_pools sn))
       ''SHOW''"

definition show_clients :: "admin_cfg \<Rightarrow> 's snapshot \<Rightarrow> backend_msg list" where
  "show_clients cfg sn =
     text_result cfg [''pid'', ''client'', ''user'', ''database'', ''kind'', ''state'', ''connected_for'']
       (map (\<lambda>s. [show_int (sint (si_pid s)), si_addr s, si_user s, si_database s,
                  (if si_is_admin s then ''admin'' else ''client''), (if si_attached s then ''attached'' else ''idle''),
                  ac_fmt_secs cfg (elapsed (sn_now sn) (si_started s))]) (live_sessions (sn_runtime sn)))
       ''SHOW''"

definition show_stats :: "admin_cfg \<Rightarrow> 's snapshot \<Rightarrow> backend_msg list" where
  "show_stats cfg sn =
     text_result cfg [''database'', ''user'', ''checkouts'', ''reused'', ''created'', ''checked_in'', ''dropped'', ''evicted'', ''probed'']
       (map (\<lambda>p. let m = p_metrics p in
                 [unwrap_db (key_database (p_key p)), key_user (p_key p), show_u64 (m_checkouts m), show_u64 (m_reused m),
                  show_u64 (m_created m), show_u64 (m_checked_in m), show_u64 (m_dropped m), show_u64 (m_evicted m),
                  show_u64 (m_probed m)]) (sn_pools sn))
       ''SHOW''"

definition show_help :: "admin_cfg \<Rightarrow> backend_msg list" where
  "show_help cfg =
     text_result cfg [''command''] [[''SHOW POOLS''], [''SHOW CLIENTS''], [''SHOW STATS''], [''SHOW HELP'']] ''SHOW''"

section \<open>Queries\<close>

definition admin_command :: "string \<Rightarrow> string" where
  "admin_command q = map ascii_lower (trim (trim_end_matches (CHR '';'') (trim q)))"

definition unknown_command :: "string \<Rightarrow> error_info" where
  "unknown_command other =
     error_info_new ''ERROR'' ''42601''
       (''unknown admin command '' @ debug_str other @
        ''; supported: SHOW POOLS | SHOW CLIENTS | SHOW STATS | SHOW HELP'')"

definition admin_outcome :: "admin_cfg \<Rightarrow> 's snapshot \<Rightarrow> string \<Rightarrow> error_info + backend_msg list" where
  "admin_outcome cfg sn command =
     (if command = ''show pools'' then Inr (show_pools cfg sn)
      else if command = ''show clients'' then Inr (show_clients cfg sn)
      else if command = ''show stats'' then Inr (show_stats cfg sn)
      else if command = ''show help'' \<or> command = ''help'' then Inr (show_help cfg)
      else Inl (unknown_command command))"

definition admin_dispatch :: "admin_cfg \<Rightarrow> 's snapshot \<Rightarrow> string \<Rightarrow> downstream \<Rightarrow> bool \<times> downstream" where
  "admin_dispatch cfg sn q d =
     (case ds_send_all
             (case admin_outcome cfg sn (admin_command q) of
                Inr ms \<Rightarrow> ms
              | Inl e \<Rightarrow> [BErrorResponse (err_into (ac_codec cfg) e)]) d of
        (False, d) \<Rightarrow> (False, d)
      | (True, d) \<Rightarrow> send_ready_for_query Idle d)"

section \<open>The session loop\<close>

datatype admin_event = AShutdown | ACancel | AEof | AGarbage | AMsg frontend_msg

datatype admin_flow = AGoes downstream | AEnds downstream

definition only_simple :: error_info where
  "only_simple = error_info_new ''ERROR'' ''0A000'' ''pgferry admin console: only simple queries are supported''"

fun admin_message :: "admin_cfg \<Rightarrow> 's snapshot \<Rightarrow> frontend_msg \<Rightarrow> downstream \<Rightarrow> admin_flow" where
  "admin_message cfg sn FTerminate d = AEnds d"
| "admin_message cfg sn FSync d = AGoes (snd (send_ready_for_query Idle d))"
| "admin_message cfg sn (FQuery q) d =
     (case admin_dispatch cfg sn q d of (True, d) \<Rightarrow> AGoes d | (False, d) \<Rightarrow> AEnds d)"
| "admin_message cfg sn _ d =
     (case ds_send (BErrorResponse (err_into (ac_codec cfg) only_simple)) d of
        (False, d) \<Rightarrow> AEnds d
      | (True, d) \<Rightarrow> AGoes (snd (send_ready_for_query Idle d)))"

fun admin_step :: "admin_cfg \<Rightarrow> 's snapshot \<Rightarrow> admin_event \<Rightarrow> downstream \<Rightarrow> admin_flow" where
  "admin_step cfg sn AShutdown d = AEnds d"
| "admin_step cfg sn ACancel d = AGoes d"
| "admin_step cfg sn AEof d = AEnds d"
| "admin_step cfg sn AGarbage d = AEnds d"
| "admin_step cfg sn (AMsg m) d = admin_message cfg sn m d"

fun admin_run :: "admin_cfg \<Rightarrow> (admin_event \<times> 's snapshot) list \<Rightarrow> downstream \<Rightarrow> admin_flow" where
  "admin_run cfg [] d = AGoes d"
| "admin_run cfg ((e, sn) # es) d =
     (case admin_step cfg sn e d of AGoes d \<Rightarrow> admin_run cfg es d | AEnds d \<Rightarrow> AEnds d)"

text \<open>
  \<^verbatim>\<open>run_admin_session\<close>: \<open>None\<close> while the loop is still running; otherwise whether the handshake could be
  written, with the router's registration of the session made and removed around the loop.
\<close>

definition run_admin_session ::
    "admin_cfg \<Rightarrow> i32 \<Rightarrow> u8 list \<Rightarrow> (admin_event \<times> 's snapshot) list \<Rightarrow> downstream \<Rightarrow> cancel_router \<Rightarrow>
       (bool \<times> downstream \<times> cancel_router) option" where
  "run_admin_session cfg pid secret es d router =
     (case ds_send_all (ac_auth cfg (admin_parameters (ac_version cfg)) pid secret) d of
        (False, d) \<Rightarrow> Some (False, d, router)
      | (True, d) \<Rightarrow>
          (let (rx, router) = router_register pid secret router
           in case admin_run cfg es d of
                AGoes d \<Rightarrow> None
              | AEnds d \<Rightarrow> Some (True, d, router_unregister pid secret router)))"

section \<open>Answers\<close>

fun is_rfq :: "backend_msg \<Rightarrow> bool" where
  "is_rfq (BReadyForQuery _) = True"
| "is_rfq _ = False"

text \<open>The answer to a client message, without the closing ReadyForQuery.\<close>

fun admin_answer :: "admin_cfg \<Rightarrow> 's snapshot \<Rightarrow> frontend_msg \<Rightarrow> backend_msg list" where
  "admin_answer cfg sn FSync = []"
| "admin_answer cfg sn (FQuery q) =
     (case admin_outcome cfg sn (admin_command q) of
        Inr ms \<Rightarrow> ms
      | Inl e \<Rightarrow> [BErrorResponse (err_into (ac_codec cfg) e)])"
| "admin_answer cfg sn _ = [BErrorResponse (err_into (ac_codec cfg) only_simple)]"

lemma text_result_no_rfq: "filter is_rfq (text_result cfg cols rows tag) = []"
  by (simp add: text_result_def filter_empty_conv)

lemmas show_defs = show_pools_def show_clients_def show_stats_def show_help_def

lemma shows_no_rfq:
  "filter is_rfq (show_pools cfg sn) = []" "filter is_rfq (show_clients cfg sn) = []"
  "filter is_rfq (show_stats cfg sn) = []" "filter is_rfq (show_help cfg) = []"
  by (simp_all only: show_defs text_result_no_rfq)

lemma admin_outcome_cases:
  "admin_outcome cfg sn c = Inl (unknown_command c) \<or>
   (\<exists>ms. admin_outcome cfg sn c = Inr ms \<and> ms \<in> {show_pools cfg sn, show_clients cfg sn, show_stats cfg sn, show_help cfg})"
  by (simp add: admin_outcome_def)

lemma admin_answer_no_rfq: "filter is_rfq (admin_answer cfg sn m) = []"
proof (cases m)
  case (FQuery q)
  with admin_outcome_cases [of cfg sn "admin_command q"] show ?thesis by (auto simp: shows_no_rfq)
qed simp_all

lemma admin_message_healthy:
  assumes "ds_results d = []" "m \<noteq> FTerminate"
  shows "admin_message cfg sn m d = AGoes (d\<lparr>ds_sent := ds_sent d @ admin_answer cfg sn m @ [BReadyForQuery Idle]\<rparr>)"
  using assms by (cases m) (simp_all add: send_ready_for_query_def admin_dispatch_def)

lemma admin_run_healthy:
  "ds_results d = [] \<Longrightarrow> list_all (\<lambda>(m, sn). m \<noteq> FTerminate) ms \<Longrightarrow>
     admin_run cfg (map (\<lambda>(m, sn). (AMsg m, sn)) ms) d =
       AGoes (d\<lparr>ds_sent := ds_sent d @ concat (map (\<lambda>(m, sn). admin_answer cfg sn m @ [BReadyForQuery Idle]) ms)\<rparr>)"
proof (induction ms arbitrary: d)
  case (Cons a ms)
  obtain m sn where a: "a = (m, sn)" by fastforce
  let ?d = "d\<lparr>ds_sent := ds_sent d @ admin_answer cfg sn m @ [BReadyForQuery Idle]\<rparr>"
  have "admin_message cfg sn m d = AGoes ?d" using Cons.prems a by (intro admin_message_healthy) simp_all
  with Cons.IH [of ?d] Cons.prems a show ?case by simp
qed simp

text \<open>
  Property C35. The admin console never loses step with its client: whatever sequence of messages the client
  sends, supported or not, it gets for each of them, in order, the answer followed by exactly one
  ReadyForQuery(Idle), and the session goes on.
\<close>

theorem admin_one_ready_per_message:
  assumes "ds_results d = []" "list_all (\<lambda>(m, sn). m \<noteq> FTerminate) ms"
  shows "\<exists>d'. admin_run cfg (map (\<lambda>(m, sn). (AMsg m, sn)) ms) d = AGoes d' \<and>
     ds_sent d' = ds_sent d @ concat (map (\<lambda>(m, sn). admin_answer cfg sn m @ [BReadyForQuery Idle]) ms) \<and>
     length (filter is_rfq (ds_sent d')) = length (filter is_rfq (ds_sent d)) + length ms"
proof -
  have "length (filter is_rfq (concat (map (\<lambda>(m, sn). admin_answer cfg sn m @ [BReadyForQuery Idle]) ms))) = length ms"
    by (induction ms) (auto simp: admin_answer_no_rfq)
  with admin_run_healthy [OF assms, of cfg] show ?thesis by simp
qed

text \<open>
  SHOW POOLS and SHOW STATS answer one row per pool, SHOW CLIENTS one per live session, in registry order,
  and the command tag carries that number. Letter case, surrounding white space and trailing semicolons
  of the command do not matter.
\<close>

lemma text_result_shape:
  "\<exists>cols' rs. text_result cfg cols rows ''SHOW'' =
      BRowDescription cols' # map BDataRow rs @ [BCommandComplete (''SHOW '' @ show_nat (length rows))] \<and>
      map fd_name cols' = cols \<and> length rs = length rows"
  by (rule exI [of _ "map (\<lambda>n. \<lparr>fd_name = n, fd_type_id = 25, fd_format_code = 0\<rparr>) cols"], rule exI [of _ "map (ac_encode_row cfg) rows"])
    (simp add: text_result_def comp_def)

lemma show_pools_shape:
  "\<exists>cols rs. show_pools cfg sn = BRowDescription cols # map BDataRow rs @ [BCommandComplete (''SHOW '' @ show_nat (length (sn_pools sn)))] \<and>
     length rs = length (sn_pools sn)"
  using text_result_shape [of cfg _ "map _ (sn_pools sn)"] unfolding show_pools_def length_map by blast

lemma show_clients_shape:
  "\<exists>cols rs. show_clients cfg sn =
      BRowDescription cols # map BDataRow rs @ [BCommandComplete (''SHOW '' @ show_nat (sessions_active (sn_runtime sn)))] \<and>
     length rs = sessions_active (sn_runtime sn)"
  using text_result_shape [of cfg _ "map _ (live_sessions (sn_runtime sn))"]
  unfolding show_clients_def sessions_active_def length_map live_sessions_def by blast

lemma admin_command_example: "admin_command (''  Show Pools ;; '') = ''show pools''"
  by code_simp

section \<open>A concrete console\<close>

definition sample_admin :: admin_cfg where
  "sample_admin =
     \<lparr>ac_version = ''0.1.0'', ac_encode_row = (\<lambda>r. \<lparr>row_data = [], field_count = of_nat (length r)\<rparr>),
      ac_fmt_secs = (\<lambda>d. show_nat (d div 1000000000)), ac_codec = \<lparr>err_into = (\<lambda>e. [(CHR ''C'', code e)]), err_from = (\<lambda>_. error_info_new [] [] [])\<rparr>,
      ac_auth = (\<lambda>ps pid s. [BReadyForQuery Idle])\<rparr>"

definition sample_snapshot :: "unit snapshot" where
  "sample_snapshot = \<lparr>sn_pools = [], sn_runtime = runtime_new, sn_now = 0\<rparr>"

theorem admin_one_ready_per_message_witness:
  "\<exists>d'. admin_run sample_admin [(AMsg FSync, sample_snapshot), (AMsg FFlush, sample_snapshot)]
      \<lparr>ds_sent = [], ds_status = Idle, ds_results = [], ds_closed = False\<rparr> = AGoes d' \<and>
     ds_sent d' = [BReadyForQuery Idle, BErrorResponse [(CHR ''C'', ''0A000'')], BReadyForQuery Idle]"
proof -
  let ?d = "\<lparr>ds_sent = [], ds_status = Idle, ds_results = [], ds_closed = False\<rparr>"
  have "ds_results ?d = []" "list_all (\<lambda>(m, sn). m \<noteq> FTerminate) [(FSync, sample_snapshot), (FFlush, sample_snapshot)]"
    by simp_all
  from admin_one_ready_per_message [OF this, of sample_admin] obtain d' where
    "admin_run sample_admin [(AMsg FSync, sample_snapshot), (AMsg FFlush, sample_snapshot)] ?d = AGoes d'"
    "ds_sent d' = [BReadyForQuery Idle, BErrorResponse (err_into (ac_codec sample_admin) only_simple), BReadyForQuery Idle]"
    by (auto simp del: admin_run.simps)
  then show ?thesis by (auto simp: sample_admin_def only_simple_def error_info_new_def simp del: admin_run.simps)
qed

end
