(* ===== verification/Startup.thy ===== *)
theory Startup
  imports Pump_Laws Admin
begin

text \<open>
  A client connection from accept to end (\<^verbatim>\<open>run_session\<close> and \<^verbatim>\<open>run_session_ready\<close> of
  src/crates/pgferry/src/session.rs): TLS negotiation and the first message, the protocol version,
  refusals, registration, the admin console, opening the upstream side, the handshake, the pump, and the
  clean-up. \<open>shared\<close> is the part of \<^verbatim>\<open>ProxyShared\<close> that sessions change.

  The outcome of TLS negotiation and of the first read, the generated key pair, and the events of the
  session are inputs. pgwire's handshake messages (AuthenticationOk, parameters, key data, ReadyForQuery)
  are the parameter \<open>ac_auth\<close>; its rendering of an unexpected message is \<open>sv_show_msg\<close>.
\<close>

section \<open>Inputs and shared state\<close>

record ('s, 'c) server =
  sv_env :: "'s env"
  sv_schedule :: schedule
  sv_cycle_clock :: clock
  sv_interceptor :: "'c interceptor option"
  sv_admin :: admin_cfg
  sv_admin_database :: "string option"
  sv_show_msg :: "frontend_msg \<Rightarrow> string"

record 's shared =
  g_world :: "'s world"
  g_router :: cancel_router
  g_runtime :: runtime_state

datatype negotiation = TlsFailed | TlsDirect | TlsDone

datatype first_read = FirstEof | FirstError | FirstMsg frontend_msg

record 's client =
  cl_addr :: string
  cl_tls :: negotiation
  cl_first :: first_read
  cl_pid :: i32
  cl_secret :: "u8 list"
  cl_events :: "event list"
  cl_admin_events :: "(admin_event \<times> 's snapshot) list"

text \<open>
  What becomes of the connection: it ends, with \<^verbatim>\<open>Ok\<close> or an I/O error; the events are used up while it
  runs; it waits for good; or its task panics.
\<close>

datatype ('s, 'c) result =
    Finished bool downstream "'s shared"
  | Running "('s, 'c) pump"
  | RunningAdmin
  | Suspended
  | Crashed

section \<open>Refusals\<close>

definition send_fatal :: "err_codec \<Rightarrow> string \<Rightarrow> string \<Rightarrow> downstream \<Rightarrow> bool \<times> downstream" where
  "send_fatal cod c m d =
     (case ds_send (BErrorResponse (err_into cod (error_info_new ''FATAL'' c m))) d of
        (False, d) \<Rightarrow> (False, d)
      | (True, d) \<Rightarrow> (True, d\<lparr>ds_closed := True\<rparr>))"

definition refuse :: "err_codec \<Rightarrow> string \<Rightarrow> string \<Rightarrow> downstream \<Rightarrow> 's shared \<Rightarrow> ('s, 'c) result" where
  "refuse cod c m d g = (let (ok, d) = send_fatal cod c m d in Finished ok d g)"

section \<open>Opening the upstream side\<close>

datatype ('s, 'c) opened =
    Opened "'c session_hooks option" "'s held option" "string \<rightharpoonup> string" downstream "'s world"
  | NotOpened bool downstream "'s world"
  | Opening

definition is_transaction :: "'s env \<Rightarrow> bool" where
  "is_transaction env \<longleftrightarrow> pool_mode (e_pool_config env) = TransactionMode"

definition open_upstream ::
    "'s env \<Rightarrow> session_params \<Rightarrow> (string \<rightharpoonup> string) \<Rightarrow> 'c session_hooks option \<Rightarrow> downstream \<Rightarrow> 's world \<Rightarrow> ('s, 'c) opened" where
  "open_upstream env params startup hooks d w =
     (if is_transaction env
      then (case baseline_params_routed env params w hooks of
              (Done m, w, hooks) \<Rightarrow> Opened hooks None m d w
            | (Fail e, w, hooks) \<Rightarrow>
                (let (ok, d) = send_fatal (e_codec env) ''08006'' (''pgferry: failed to connect to upstream: '' @ e) d
                 in NotOpened ok d w)
            | (Blocked, w, hooks) \<Rightarrow> Opening)
      else (case ensure_attached env params [] [] startup None
                   \<lparr>a_world = w, a_ds = d, a_hooks = hooks, a_lease = None, a_dirty = False, a_endpoint = None\<rparr> of
              (Attached, a) \<Rightarrow>
                Opened (a_hooks a) (a_lease a)
                  (case a_lease a of Some h \<Rightarrow> server_parameters (h_conn h) | None \<Rightarrow> Map.empty) (a_ds a) (a_world a)
            | (Refused, a) \<Rightarrow> NotOpened True (a_ds a) (a_world a)
            | (Stuck, a) \<Rightarrow> Opening))"

section \<open>Serving the client\<close>

definition session_env_of :: "('s, 'c) server \<Rightarrow> session_params \<Rightarrow> (string \<rightharpoonup> string) \<Rightarrow> 's session_env" where
  "session_env_of sv params startup =
     \<lparr>se_env = sv_env sv, se_params = params, se_startup = startup, se_schedule = sv_schedule sv,
      se_cycle_clock = sv_cycle_clock sv\<rparr>"

text \<open>A lease that is dropped with the session's local variables.\<close>

definition drop_slot :: "'s held option \<Rightarrow> 's world \<Rightarrow> 's world" where
  "drop_slot slot w = (case slot of None \<Rightarrow> w | Some h \<Rightarrow> drop_held h w)"

definition serve_client ::
    "('s, 'c) server \<Rightarrow> 's client \<Rightarrow> 's session_env \<Rightarrow> nat \<Rightarrow> 'c session_hooks option \<Rightarrow> 's held option \<Rightarrow>
       (string \<rightharpoonup> string) \<Rightarrow> downstream \<Rightarrow> 's shared \<Rightarrow> ('s, 'c) result" where
  "serve_client sv cl se i hooks slot sparams d g =
     (case ds_send_all (ac_auth (sv_admin sv) sparams (cl_pid cl) (cl_secret cl)) d of
        (False, d) \<Rightarrow>
          Finished False d (g\<lparr>g_world := drop_slot slot (g_world g), g_runtime := guard_drop i (g_runtime g)\<rparr>)
      | (True, d) \<Rightarrow>
          (let (rx, router) = router_register (cl_pid cl) (cl_secret cl) (g_router g)
           in case pump_run se (cl_events cl) (pump_new se (ds_set_status Idle d) slot hooks (slot \<noteq> None) (g_world g)) of
                Ends reason q \<Rightarrow>
                  (let (w, d) = session_end se reason q
                   in Finished True d
                        \<lparr>g_world = w,
                         g_router = router_unregister (cl_pid cl) (cl_secret cl) (router_drop rx router),
                         g_runtime = guard_drop i (store_attached i (pm_attached q) (g_runtime g))\<rparr>)
              | Goes q \<Rightarrow> Running q
              | Hangs q \<Rightarrow> Suspended
              | Panics \<Rightarrow> Crashed))"

definition session_info_of :: "('s, 'c) server \<Rightarrow> 's client \<Rightarrow> session_params \<Rightarrow> instant \<Rightarrow> session_info" where
  "session_info_of sv cl params now =
     \<lparr>si_pid = cl_pid cl, si_addr = cl_addr cl, si_user = sp_user params, si_database = unwrap_db (sp_database params),
      si_is_admin = (case sv_admin_database sv of Some db \<Rightarrow> sp_database params = Some db | None \<Rightarrow> False),
      si_attached = False, si_started = now\<rparr>"

text \<open>Reading the clock.\<close>

definition g_now :: "('s, 'c) server \<Rightarrow> 's shared \<Rightarrow> instant \<times> 's shared" where
  "g_now sv g =
     (e_clock (sv_env sv) (w_tick (g_world g)), g\<lparr>g_world := (g_world g)\<lparr>w_tick := w_tick (g_world g) + 1\<rparr>\<rparr>)"

definition new_hooks :: "('s, 'c) server \<Rightarrow> 's shared \<Rightarrow> 'c session_hooks option \<times> 's shared" where
  "new_hooks sv g =
     (case sv_interceptor sv of
        None \<Rightarrow> (None, g)
      | Some i \<Rightarrow> (let (now, g) = g_now sv g in (Some (session_hooks_new now i), g)))"

text \<open>From the registered session on: the admin console, or a client session.\<close>

definition run_registered ::
    "('s, 'c) server \<Rightarrow> 's client \<Rightarrow> session_params \<Rightarrow> startup_msg \<Rightarrow> bool \<Rightarrow> nat \<Rightarrow> downstream \<Rightarrow> 's shared \<Rightarrow> ('s, 'c) result" where
  "run_registered sv cl params s admin i d g =
     (if admin
      then (case run_admin_session (sv_admin sv) (cl_pid cl) (cl_secret cl) (cl_admin_events cl) d (g_router g) of
              None \<Rightarrow> RunningAdmin
            | Some (ok, d, router) \<Rightarrow> Finished ok d (g\<lparr>g_router := router, g_runtime := guard_drop i (g_runtime g)\<rparr>))
      else (let (hooks, g) = new_hooks sv g
            in case open_upstream (sv_env sv) params (startup_parameters s) hooks d (g_world g) of
                 Opening \<Rightarrow> Suspended
               | NotOpened ok d w \<Rightarrow> Finished ok d (g\<lparr>g_world := w, g_runtime := guard_drop i (g_runtime g)\<rparr>)
               | Opened hooks slot sparams d w \<Rightarrow>
                   (let rt = (if is_transaction (sv_env sv) then g_runtime g else store_attached i True (g_runtime g))
                    in serve_client sv cl (session_env_of sv params (startup_parameters s)) i hooks slot sparams d
                         (g\<lparr>g_world := w, g_runtime := rt\<rparr>))))"

definition run_session_ready ::
    "('s, 'c) server \<Rightarrow> 's client \<Rightarrow> session_params \<Rightarrow> startup_msg \<Rightarrow> downstream \<Rightarrow> 's shared \<Rightarrow> ('s, 'c) result" where
  "run_session_ready sv cl params s d g =
     (let (started, g) = g_now sv g
      in if sp_replication params
         then refuse (e_codec (sv_env sv)) ''0A000'' ''pgferry: replication connections are not supported'' d g
         else if sp_user params = []
         then refuse (e_codec (sv_env sv)) ''28000'' ''pgferry: no user specified in startup packet'' d g
         else (let (now, g) = g_now sv g;
                   info = session_info_of sv cl params now;
                   (i, rt) = runtime_register info (g_runtime g)
               in run_registered sv cl params s (si_is_admin info) i d (g\<lparr>g_runtime := rt\<rparr>)))"

definition run_startup ::
    "('s, 'c) server \<Rightarrow> 's client \<Rightarrow> startup_msg \<Rightarrow> downstream \<Rightarrow> 's shared \<Rightarrow> ('s, 'c) result" where
  "run_startup sv cl s d g =
     (let params = from_startup s
      in if protocol_major s = 3 \<and> protocol_minor s = 0 then run_session_ready sv cl params s d g
         else if protocol_major s = 3
         then (case ds_send (BNegotiateProtocolVersion 0 []) d of
                 (False, d) \<Rightarrow> Finished False d g
               | (True, d) \<Rightarrow> run_session_ready sv cl params s d g)
         else refuse (e_codec (sv_env sv)) ''08P01''
                (''pgferry: unsupported protocol version '' @ show_nat (protocol_major s) @ ''.'' @ show_nat (protocol_minor s)) d g)"

definition run_session :: "('s, 'c) server \<Rightarrow> 's client \<Rightarrow> downstream \<Rightarrow> 's shared \<Rightarrow> ('s, 'c) result" where
  "run_session sv cl d g =
     (case cl_tls cl of
        TlsFailed \<Rightarrow> Finished False d g
      | TlsDirect \<Rightarrow> Finished True d g
      | TlsDone \<Rightarrow>
          (case cl_first cl of
             FirstEof \<Rightarrow> Finished True d g
           | FirstError \<Rightarrow> Finished True d g
           | FirstMsg m \<Rightarrow>
               (case m of
                  FStartup s \<Rightarrow> run_startup sv cl s d g
                | FCancelRequest pid secret \<Rightarrow>
                    Finished True (d\<lparr>ds_closed := True\<rparr>) (g\<lparr>g_router := snd (router_cancel pid secret (g_router g))\<rparr>)
                | other \<Rightarrow>
                    refuse (e_codec (sv_env sv)) ''08P01'' (''pgferry: expected Startup, got '' @ sv_show_msg sv other) d g)))"

section \<open>Permits across the upstream side's opening\<close>

lemma baseline_pool_outstanding:
  fixes env :: "'s env"
  assumes o: "outstanding base w ks" and p: "w_pools w key = Some p"
    and b: "baseline_params (e_ops env) (e_clock env) (e_connect env) (w_tick w) p = (r, t', p')" and "r \<noteq> Blocked"
  shows "outstanding base (w\<lparr>w_pools := (w_pools w)(key \<mapsto> p'), w_tick := t'\<rparr>) ks"
proof (cases "p_baseline p")
  case (Some m)
  with b p have "t' = w_tick w" "p' = p" by (simp_all add: baseline_params_def)
  with p have "w\<lparr>w_pools := (w_pools w)(key \<mapsto> p'), w_tick := t'\<rparr> = w" by (simp add: map_upd_triv)
  with o show ?thesis by simp
next
  case None
  obtain rr t1 p1 where co: "checkout (e_ops env) (e_clock env) (e_connect env) (w_tick w) p = (rr, t1, p1)"
    by (metis prod_cases3)
  let ?w = "w\<lparr>w_pools := (w_pools w)(key \<mapsto> p1), w_tick := t1\<rparr>"
  show ?thesis
  proof (cases rr)
    case (Done l)
    let ?h = "\<lparr>h_lease = l, h_key = key\<rparr>"
    have "outstanding base (lease_checkin env hygiene_default ?h ?w) ks"
      using rc.giveback [of base ?w ?h ks env hygiene_default] checkout_takes(1) [OF o p co Done] by simp
    moreover have "lease_checkin env hygiene_default ?h ?w = w\<lparr>w_pools := (w_pools w)(key \<mapsto> p'), w_tick := t'\<rparr>"
      using b None co Done by (auto simp: baseline_params_def lease_checkin_def pool_apply_def split: prod.splits)
    ultimately show ?thesis by simp
  next
    case (Fail e)
    with b None co have "t' = t1" "p' = p1" by (auto simp: baseline_params_def)
    with checkout_takes(2) [OF o p co Fail] show ?thesis by simp
  next
    case Blocked
    with b None co assms(4) show ?thesis by (auto simp: baseline_params_def)
  qed
qed

lemma baseline_loop_outstanding:
  "outstanding base w ks \<Longrightarrow> baseline_loop n env params w hooks = (r, w', hooks') \<Longrightarrow> r \<noteq> Blocked \<Longrightarrow> outstanding base w' ks"
proof (induction n arbitrary: w hooks)
  case (Suc n)
  obtain i h1 where d: "dispatch_upstream env params None hooks = (i, h1)" by fastforce
  show ?case
  proof (cases "route_endpoint (e_route env) i")
    case None
    with Suc.prems d show ?thesis by auto
  next
    case (Some ep)
    obtain key p w1 where res: "resolve_pool env params ep w = (key, p, w1)" by (metis prod_cases3)
    obtain rr t p1 where b: "baseline_params (e_ops env) (e_clock env) (e_connect env) (w_tick w1) p = (rr, t, p1)"
      by (metis prod_cases3)
    let ?w = "w1\<lparr>w_pools := (w_pools w1)(key \<mapsto> p1), w_tick := t\<rparr>"
    have "world_wf w" using Suc.prems(1) by (simp add: outstanding_def)
    note rp = resolve_pool_spec(1) [OF res this]
    have o: "rr \<noteq> Blocked \<Longrightarrow> outstanding base ?w ks"
      using baseline_pool_outstanding [OF resolve_pool_outstanding [OF Suc.prems(1) res] rp b] .
    show ?thesis
    proof (cases rr)
      case (Fail e)
      with Suc.prems d Some res b o Suc.IH [of ?w] show ?thesis
        by (auto simp: Let_def split: prod.splits retry_decision.splits)
    qed (use Suc.prems d Some res b o in auto)
  qed
qed simp

lemma open_upstream_outstanding:
  assumes "outstanding base w []"
  shows "open_upstream env params startup hooks d w = Opened hooks' slot m d' w' \<Longrightarrow> outstanding base w' (slot_keys slot)"
    and "open_upstream env params startup hooks d w = NotOpened ok d' w' \<Longrightarrow> outstanding base w' []"
proof -
  let ?a = "\<lparr>a_world = w, a_ds = d, a_hooks = hooks, a_lease = None, a_dirty = False, a_endpoint = None\<rparr>"
  obtain r a where e: "ensure_attached env params [] [] startup None ?a = (r, a)" by fastforce
  obtain b w1 h1 where bl: "baseline_params_routed env params w hooks = (b, w1, h1)" by (metis prod_cases3)
  note att = attach_outstanding [OF _ _ e, of base "[]"]
  note bas = baseline_loop_outstanding [OF assms bl [unfolded baseline_params_routed_def]]
  show "outstanding base w' (slot_keys slot)" if "open_upstream env params startup hooks d w = Opened hooks' slot m d' w'"
    using that e bl att bas assms
    by (auto simp: open_upstream_def slot_keys_def split: if_splits attach_result.splits io.splits prod.splits)
  show "outstanding base w' []" if "open_upstream env params startup hooks d w = NotOpened ok d' w'"
    using that e bl att bas assms
    by (auto simp: open_upstream_def split: if_splits attach_result.splits io.splits prod.splits option.splits)
qed

section \<open>Registration\<close>

lemma register_guard_drop:
  assumes "set (rt_sessions rt) \<subseteq> {..<length (rt_infos rt)}" "si_pid info \<notin> si_pid ` set (live_sessions rt)"
    and "runtime_register info rt = (i, rt')"
  shows "rt_sessions (guard_drop i rt') = rt_sessions rt"
    and "rt_sessions (guard_drop i (store_attached j b rt')) = rt_sessions rt"
proof -
  have rt': "rt_sessions rt' = rt_sessions rt @ [i]" "rt_info rt' i = info"
    "\<And>k. k \<in> set (rt_sessions rt) \<Longrightarrow> rt_info rt' k = rt_info rt k"
    using assms(1,3) by (auto simp: runtime_register_def rt_info_def nth_append)
  have "si_pid (rt_info rt k) \<noteq> si_pid info" if "k \<in> set (rt_sessions rt)" for k
    using assms(2) that unfolding live_sessions_def by (metis image_eqI list.set_map)
  then have "filter (\<lambda>k. si_pid (rt_info rt' k) \<noteq> si_pid info) (rt_sessions rt') = rt_sessions rt"
    using rt' by (simp add: filter_id_conv)
  then show "rt_sessions (guard_drop i rt') = rt_sessions rt"
    and "rt_sessions (guard_drop i (store_attached j b rt')) = rt_sessions rt"
    using rt'(2) by (simp_all add: guard_drop_def runtime_unregister_def) (simp add: store_attached_def)
qed

lemma router_drop_sessions [simp]: "cr_sessions (router_drop rx r) = cr_sessions r"
  by (simp add: router_drop_def)

lemma run_admin_router:
  assumes "run_admin_session cfg pid secret es d r = Some (ok, d', r')" "cr_sessions r (pid, secret) = None"
  shows "cr_sessions r' = cr_sessions r"
  using assms router_register_unregister [of pid secret r]
  by (auto simp: run_admin_session_def map_upd_triv fun_upd_idem split: prod.splits bool.splits admin_flow.splits)

text \<open>What a finished session leaves behind: nothing.\<close>

definition leaves_no_trace :: "(pool_key \<Rightarrow> nat) \<Rightarrow> 's shared \<Rightarrow> 's shared \<Rightarrow> bool" where
  "leaves_no_trace base g g' \<longleftrightarrow>
     outstanding base (g_world g') [] \<and> cr_sessions (g_router g') = cr_sessions (g_router g) \<and>
     rt_sessions (g_runtime g') = rt_sessions (g_runtime g)"

lemma serve_client_trace:
  assumes o: "outstanding base (g_world g) (slot_keys slot)" and fresh: "cr_sessions (g_router g) (cl_pid cl, cl_secret cl) = None"
    and s: "serve_client sv cl se i hooks slot sparams d g = Finished ok d' g'"
  shows "outstanding base (g_world g') []" "cr_sessions (g_router g') = cr_sessions (g_router g)"
    "\<exists>j b. g_runtime g' = guard_drop i (g_runtime g) \<or> g_runtime g' = guard_drop i (store_attached j b (g_runtime g))"
proof -
  obtain sent d1 where a: "ds_send_all (ac_auth (sv_admin sv) sparams (cl_pid cl) (cl_secret cl)) d = (sent, d1)" by fastforce
  let ?p = "pump_new se (ds_set_status Idle d1) slot hooks (slot \<noteq> None) (g_world g)"
  have inv: "pump_inv base ?p" using o by (simp add: permit_inv_def pump_new_def)
  have "outstanding base (g_world g') [] \<and> cr_sessions (g_router g') = cr_sessions (g_router g) \<and>
    (\<exists>j b. g_runtime g' = guard_drop i (g_runtime g) \<or> g_runtime g' = guard_drop i (store_attached j b (g_runtime g)))"
  proof (cases sent)
    case False
    with a s have "g' = g\<lparr>g_world := drop_slot slot (g_world g), g_runtime := guard_drop i (g_runtime g)\<rparr>"
      by (simp add: serve_client_def)
    moreover have "outstanding base (drop_slot slot (g_world g)) []"
      using o rp.giveback [of base "g_world g" _ "[]"] by (cases slot) (simp_all add: drop_slot_def)
    ultimately show ?thesis by auto
  next
    case True
    obtain reason q where q: "pump_run se (cl_events cl) ?p = Ends reason q"
      using a s True by (cases "pump_run se (cl_events cl) ?p") (auto simp: serve_client_def Let_def split: prod.splits)
    have "pump_inv base q" using pump_run_inv(2) [OF inv q] .
    then have "outstanding base (fst (session_end se reason q)) []" by (rule session_end_outstanding)
    then show ?thesis
      using a s True q fresh router_register_unregister [of "cl_pid cl" "cl_secret cl" "g_router g"]
      by (auto simp: serve_client_def router_unregister_def fun_upd_idem split: prod.splits) blast
  qed
  then show "outstanding base (g_world g') []" "cr_sessions (g_router g') = cr_sessions (g_router g)"
    "\<exists>j b. g_runtime g' = guard_drop i (g_runtime g) \<or> g_runtime g' = guard_drop i (store_attached j b (g_runtime g))"
    by blast+
qed

lemma g_now_outstanding [simp]: "outstanding base (g_world (snd (g_now sv g))) ks = outstanding base (g_world g) ks"
  by (simp add: g_now_def) (rule outstanding_pools, simp)

lemma g_now_fields [simp]: "g_router (snd (g_now sv g)) = g_router g" "g_runtime (snd (g_now sv g)) = g_runtime g"
  "w_pools (g_world (snd (g_now sv g))) = w_pools (g_world g)"
  by (simp_all add: g_now_def)

lemma new_hooks_fields:
  "outstanding base (g_world (snd (new_hooks sv g))) ks = outstanding base (g_world g) ks"
  "g_router (snd (new_hooks sv g)) = g_router g" "g_runtime (snd (new_hooks sv g)) = g_runtime g"
  "w_pools (g_world (snd (new_hooks sv g))) = w_pools (g_world g)"
proof -
  have "new_hooks sv g = (hk, g') \<Longrightarrow> g' = g \<or> g' = snd (g_now sv g)" for hk g'
    by (auto simp: new_hooks_def split: option.splits prod.splits)
  then have "snd (new_hooks sv g) = g \<or> snd (new_hooks sv g) = snd (g_now sv g)" by (metis prod.collapse)
  then show "outstanding base (g_world (snd (new_hooks sv g))) ks = outstanding base (g_world g) ks"
    "g_router (snd (new_hooks sv g)) = g_router g" "g_runtime (snd (new_hooks sv g)) = g_runtime g"
    "w_pools (g_world (snd (new_hooks sv g))) = w_pools (g_world g)"
    by auto
qed

lemma run_registered_trace:
  assumes o: "outstanding base (g_world g) []" and fresh: "cr_sessions (g_router g) (cl_pid cl, cl_secret cl) = None"
    and r: "run_registered sv cl params s admin i d g = Finished ok d' g'"
  shows "outstanding base (g_world g') [] \<and> cr_sessions (g_router g') = cr_sessions (g_router g) \<and>
    (\<exists>j b. g_runtime g' = guard_drop i (g_runtime g) \<or> g_runtime g' = guard_drop i (store_attached j b (g_runtime g)) \<or>
       g_runtime g' = guard_drop i (store_attached j b (store_attached i True (g_runtime g))))"
proof (cases admin)
  case True
  with r o run_admin_router [OF _ fresh] show ?thesis
    by (fastforce simp: run_registered_def split: option.splits prod.splits)
next
  case False
  obtain hk g1 where h: "new_hooks sv g = (hk, g1)" by fastforce
  with new_hooks_fields(1) [of base sv g "[]"] new_hooks_fields(2-3) [of sv g] o fresh
  have g1: "outstanding base (g_world g1) []" "g_router g1 = g_router g" "g_runtime g1 = g_runtime g" by simp_all
  note op = open_upstream_outstanding [OF g1(1)]
  show ?thesis
  proof (cases "open_upstream (sv_env sv) params (startup_parameters s) hk d (g_world g1)")
    case (NotOpened ok1 d1 w1)
    with r False h op(2) [OF NotOpened] g1 show ?thesis by (auto simp: run_registered_def)
  next
    case (Opened hk1 slot m d1 w1)
    let ?rt = "if is_transaction (sv_env sv) then g_runtime g1 else store_attached i True (g_runtime g1)"
    let ?g = "g1\<lparr>g_world := w1, g_runtime := ?rt\<rparr>"
    have s: "serve_client sv cl (session_env_of sv params (startup_parameters s)) i hk1 slot m d1 ?g = Finished ok d' g'"
      using r False h Opened by (simp add: run_registered_def Let_def)
    have "outstanding base (g_world ?g) (slot_keys slot)" "cr_sessions (g_router ?g) (cl_pid cl, cl_secret cl) = None"
      using op(1) [OF Opened] g1 fresh by simp_all
    from serve_client_trace [OF this s] g1 show ?thesis by (auto split: if_splits)
  qed (use r False h in \<open>simp add: run_registered_def\<close>)
qed

lemma run_session_ready_trace:
  assumes o: "outstanding base (g_world g) []" and fresh: "cr_sessions (g_router g) (cl_pid cl, cl_secret cl) = None"
    and rt: "set (rt_sessions (g_runtime g)) \<subseteq> {..<length (rt_infos (g_runtime g))}"
      "cl_pid cl \<notin> si_pid ` set (live_sessions (g_runtime g))"
    and r: "run_session_ready sv cl params s d g = Finished ok d' g'"
  shows "leaves_no_trace base g g'"
proof -
  obtain t1 g1 where g1: "g_now sv g = (t1, g1)" by fastforce
  obtain t2 g2 where g2: "g_now sv g1 = (t2, g2)" by fastforce
  obtain i rt2 where reg: "runtime_register (session_info_of sv cl params t2) (g_runtime g2) = (i, rt2)" by fastforce
  have eq: "g_router g2 = g_router g" "g_runtime g2 = g_runtime g" "g_router g1 = g_router g" "g_runtime g1 = g_runtime g"
    "outstanding base (g_world g1) []" "outstanding base (g_world g2) []"
    using g_now_fields [of sv g] g_now_fields [of sv g1] o g_now_outstanding [of base sv g "[]"]
      g_now_outstanding [of base sv g1 "[]"] g1 g2 by simp_all
  have info: "si_pid (session_info_of sv cl params t2) = cl_pid cl" by (simp add: session_info_of_def)
  note gd = register_guard_drop [OF rt(1) _ reg [unfolded eq(2)]]
  show ?thesis
  proof (cases "sp_replication params \<or> sp_user params = []")
    case True
    with r g1 g2 eq show ?thesis
      by (auto simp: run_session_ready_def refuse_def leaves_no_trace_def split: prod.splits if_splits)
  next
    case False
    let ?admin = "si_is_admin (session_info_of sv cl params t2)"
    have "run_registered sv cl params s ?admin i d (g2\<lparr>g_runtime := rt2\<rparr>) = Finished ok d' g'"
      using r False g1 g2 reg by (simp add: run_session_ready_def Let_def)
    from run_registered_trace [OF _ _ this, of base] eq fresh
    have tr: "outstanding base (g_world g') []" "cr_sessions (g_router g') = cr_sessions (g_router g)"
      and rt': "\<exists>j b. g_runtime g' = guard_drop i rt2 \<or> g_runtime g' = guard_drop i (store_attached j b rt2) \<or>
         g_runtime g' = guard_drop i (store_attached j b (store_attached i True rt2))"
      by simp_all
    have pid: "rt_sessions (guard_drop i (store_attached j b rt')) = rt_sessions (guard_drop i rt')" for j b rt'
      by (simp add: guard_drop_def runtime_unregister_def) (simp add: store_attached_def)
    from rt' gd(1) info rt(2) have "rt_sessions (g_runtime g') = rt_sessions (g_runtime g)" by (auto simp: pid)
    with tr show ?thesis by (simp add: leaves_no_trace_def)
  qed
qed

text \<open>
  Property C1. A client connection leaves no trace. However it goes - TLS refused, a cancel request, a
  malformed or refused startup, an admin session, an upstream that cannot be reached, a client that
  disconnects during the handshake, or a full session with any sequence of events - once it is over,
  every pool has as many permits out as before, the cancel router has the same entries, and the session
  registry lists the same sessions. The key pair and pid drawn for it must be unused, as both registries
  are keyed by them.
\<close>

theorem connection_leaves_no_trace:
  assumes "world_wf (g_world g)" "cr_sessions (g_router g) (cl_pid cl, cl_secret cl) = None"
    and "set (rt_sessions (g_runtime g)) \<subseteq> {..<length (rt_infos (g_runtime g))}"
      "cl_pid cl \<notin> si_pid ` set (live_sessions (g_runtime g))"
    and "run_session sv cl d g = Finished ok d' g'"
  shows "(\<forall>k. leased_out k (g_world g') = leased_out k (g_world g)) \<and> world_wf (g_world g') \<and>
    cr_sessions (g_router g') = cr_sessions (g_router g) \<and> rt_sessions (g_runtime g') = rt_sessions (g_runtime g)"
proof -
  have o: "outstanding (\<lambda>k. leased_out k (g_world g)) (g_world g) []" using assms(1) by (simp add: outstanding_def)
  have self: "leaves_no_trace (\<lambda>k. leased_out k (g_world g)) g g" using o by (simp add: leaves_no_trace_def)
  have cancel: "leaves_no_trace (\<lambda>k. leased_out k (g_world g)) g (g\<lparr>g_router := snd (router_cancel pid s (g_router g))\<rparr>)" for pid s
    using o by (simp add: leaves_no_trace_def router_cancel_def split: option.splits)
  note ready = run_session_ready_trace [OF o assms(2-4)]
  have start: "leaves_no_trace (\<lambda>k. leased_out k (g_world g)) g g'" if "run_startup sv cl s d g = Finished ok d' g'" for s
    using that self ready
    by (auto simp: run_startup_def refuse_def Let_def split: if_splits prod.splits bool.splits)
  have "leaves_no_trace (\<lambda>k. leased_out k (g_world g)) g g'"
    using assms(5) self cancel start
    by (auto simp: run_session_def refuse_def split: negotiation.splits first_read.splits frontend_msg.splits prod.splits)
  then show ?thesis by (simp add: leaves_no_trace_def outstanding_def)
qed

section \<open>Refusals\<close>

text \<open>Why a first message is refused: the SQLSTATE of the answer.\<close>

fun refusal_code :: "frontend_msg \<Rightarrow> string option" where
  "refusal_code (FCancelRequest pid s) = None"
| "refusal_code (FStartup s) =
     (if protocol_major s \<noteq> 3 then Some ''08P01''
      else if sp_replication (from_startup s) then Some ''0A000''
      else if sp_user (from_startup s) = [] then Some ''28000''
      else None)"
| "refusal_code _ = Some ''08P01''"

fun negotiated :: "frontend_msg \<Rightarrow> backend_msg list" where
  "negotiated (FStartup s) = (if protocol_major s = 3 \<and> protocol_minor s \<noteq> 0 then [BNegotiateProtocolVersion 0 []] else [])"
| "negotiated _ = []"

lemma refuse_healthy:
  "ds_results d = [] \<Longrightarrow>
     refuse cod c m d g = Finished True (d\<lparr>ds_sent := ds_sent d @ [BErrorResponse (err_into cod (error_info_new ''FATAL'' c m))], ds_closed := True\<rparr>) g"
  by (simp add: refuse_def send_fatal_def)

lemma startup_refused_ready:
  assumes "ds_results d = []" "sp_replication params \<or> sp_user params = []"
  shows "\<exists>msg g'. run_session_ready sv cl params s d g =
      Finished True (d\<lparr>ds_sent := ds_sent d @ [BErrorResponse (err_into (e_codec (sv_env sv))
        (error_info_new ''FATAL'' (if sp_replication params then ''0A000'' else ''28000'') msg))], ds_closed := True\<rparr>) g' \<and>
     g_router g' = g_router g \<and> g_runtime g' = g_runtime g \<and> w_pools (g_world g') = w_pools (g_world g)"
proof -
  obtain t g1 where g1: "g_now sv g = (t, g1)" by fastforce
  have "g_router g1 = g_router g" "g_runtime g1 = g_runtime g" "w_pools (g_world g1) = w_pools (g_world g)"
    using g_now_fields [of sv g] g1 by simp_all
  with assms g1 show ?thesis by (auto simp: run_session_ready_def refuse_healthy)
qed

text \<open>
  Property C29. A connection that cannot be served is told why and touches nothing: a first message that is
  neither Startup nor CancelRequest or a foreign major protocol version (08P01), a replication connection
  (0A000), a missing user (28000) get - after the version negotiation, if a newer minor was asked for -
  exactly one FATAL error and a close; no pool is created or changed, and neither registry knows of it.
\<close>

theorem startup_refused:
  assumes "cl_tls cl = TlsDone" "cl_first cl = FirstMsg m" "refusal_code m = Some c" "ds_results d = []"
  shows "\<exists>msg g'. run_session sv cl d g =
      Finished True (d\<lparr>ds_sent := ds_sent d @ negotiated m @
        [BErrorResponse (err_into (e_codec (sv_env sv)) (error_info_new ''FATAL'' c msg))], ds_closed := True\<rparr>) g' \<and>
     g_router g' = g_router g \<and> g_runtime g' = g_runtime g \<and> w_pools (g_world g') = w_pools (g_world g)"
proof (cases "\<exists>s. m = FStartup s")
  case False
  with assms show ?thesis by (cases m) (auto simp: run_session_def refuse_healthy)
next
  case True
  then obtain s where m: "m = FStartup s" by blast
  have run: "run_session sv cl d g = run_startup sv cl s d g" using assms m by (simp add: run_session_def)
  show ?thesis
  proof (cases "protocol_major s = 3")
    case False
    with assms m show ?thesis by (simp add: run run_startup_def refuse_healthy) blast
  next
    case True
    let ?d = "d\<lparr>ds_sent := ds_sent d @ negotiated m\<rparr>"
    have c: "c = (if sp_replication (from_startup s) then ''0A000'' else ''28000'')"
      and bad: "sp_replication (from_startup s) \<or> sp_user (from_startup s) = []"
      using assms(3) m True by (auto split: if_splits)
    have "run_startup sv cl s d g = run_session_ready sv cl (from_startup s) s ?d g"
      using True assms(4) m by (simp add: run_startup_def Let_def)
    with startup_refused_ready [of ?d "from_startup s" sv cl s g, OF _ bad] assms(4) c show ?thesis by (simp add: run)
  qed
qed

section \<open>Admin sessions\<close>

text \<open>An admin session is served without the pools, whatever it asks.\<close>

lemma admin_session_stays_local:
  assumes "cl_tls cl = TlsDone" "cl_first cl = FirstMsg (FStartup s)" "sv_admin_database sv = Some db"
    and "startup_parameters s ''database'' = Some db" "run_session sv cl d g = Finished ok d' g'"
  shows "w_pools (g_world g') = w_pools (g_world g)"
proof -
  have db: "sp_database (from_startup s) = Some db" using assms(4) by (simp add: from_startup_def)
  have ready: "run_session_ready sv cl (from_startup s) s d g = Finished ok d' g' \<Longrightarrow> w_pools (g_world g') = w_pools (g_world g)" for d
    using assms(3) db
    by (auto simp: run_session_ready_def run_registered_def session_info_of_def g_now_def refuse_def Let_def
        split: prod.splits if_splits option.splits)
  show ?thesis
    using assms(1,2,5) ready
    by (auto simp: run_session_def run_startup_def refuse_def Let_def split: if_splits prod.splits bool.splits)
qed

section \<open>Concrete connections\<close>

definition sample_server :: "(frontend_msg list, unit) server" where
  "sample_server = \<lparr>sv_env = log_env SessionMode, sv_schedule = \<lparr>sch_order = (\<lambda>legs. legs), sch_abort = (\<lambda>leg. NotStarted)\<rparr>,
     sv_cycle_clock = (\<lambda>n. n),
     sv_interceptor = None, sv_admin = sample_admin, sv_admin_database = None, sv_show_msg = msg_kind_frontend\<rparr>"

definition sample_client :: "(string \<rightharpoonup> string) \<Rightarrow> frontend_msg list client" where
  "sample_client params = \<lparr>cl_addr = ''127.0.0.1'', cl_tls = TlsDone,
     cl_first = FirstMsg (FStartup \<lparr>startup_parameters = params, protocol_major = 3, protocol_minor = 2\<rparr>),
     cl_pid = 7, cl_secret = [1, 2], cl_events = [ClientEof], cl_admin_events = []\<rparr>"

definition sample_shared :: "frontend_msg list shared" where
  "sample_shared = \<lparr>g_world = \<lparr>w_pools = Map.empty, w_tick = 0\<rparr>, g_router = router_new, g_runtime = runtime_new\<rparr>"

lemma sample_opens:
  "\<exists>slot m w1. open_upstream (log_env SessionMode) sample_params [''user'' \<mapsto> ''u''] (None :: unit session_hooks option) d \<lparr>w_pools = Map.empty, w_tick = 2\<rparr> =
     Opened None slot m d w1"
  by (simp add: open_upstream_def is_transaction_def log_env_def ensure_attached_def attach_attempts_def sample_route_def
      attach_turn_def dispatch_upstream_def default_endpoint_def route_endpoint_def attach_endpoint_def resolve_pool_def
      get_or_create_def Let_def checkout_def pool_new_def capacity_def pool_config_default_def checkout_loop_Nil
      finish_checkout_def attach_prepared_def prepare_lease_def sync_startup_parameters_def TRACKED_STARTUP_PARAMETERS_def
      replay_statements_def dispatch_on_upstream_connected_def numeral_eq_Suc pool_simps)

lemma sample_server_fields [simp]: "sv_env sample_server = log_env SessionMode" "sv_interceptor sample_server = None"
  "sv_admin_database sample_server = None"
  by (simp_all add: sample_server_def)

lemma sample_served:
  "ds_results d = [] \<Longrightarrow> \<exists>d' g'. serve_client sample_server (sample_client ps) se i None slot m d g = Finished True d' g'"
  by (auto simp: serve_client_def sample_client_def sample_server_def sample_admin_def ds_set_status_def split: prod.splits)

lemma sample_registered:
  assumes "g_world g = \<lparr>w_pools = Map.empty, w_tick = 2\<rparr>" "startup_parameters s = [''user'' \<mapsto> ''u'']" "ds_results d = []"
  shows "\<exists>d' g'. run_registered sample_server (sample_client ps) sample_params s False i d g = Finished True d' g'"
proof -
  obtain slot m w1 where "open_upstream (log_env SessionMode) sample_params [''user'' \<mapsto> ''u''] (None :: unit session_hooks option) d
      \<lparr>w_pools = Map.empty, w_tick = 2\<rparr> = Opened None slot m d w1" using sample_opens by blast
  with assms sample_served [OF assms(3)] show ?thesis by (simp add: run_registered_def new_hooks_def Let_def)
qed

lemma sample_finishes:
  "\<exists>d' g'. run_session sample_server (sample_client [''user'' \<mapsto> ''u'']) sample_downstream sample_shared = Finished True d' g'"
proof -
  let ?s = "\<lparr>startup_parameters = [''user'' \<mapsto> ''u''], protocol_major = 3, protocol_minor = 2\<rparr>"
  let ?cl = "sample_client [''user'' \<mapsto> ''u'']" and ?d = "sample_downstream\<lparr>ds_sent := [BNegotiateProtocolVersion 0 []]\<rparr>"
  have p: "from_startup ?s = sample_params" by (simp add: from_startup_def sample_params_def)
  have run: "run_session sample_server ?cl sample_downstream sample_shared =
      run_session_ready sample_server ?cl sample_params ?s ?d sample_shared"
    using p by (simp add: run_session_def sample_client_def run_startup_def sample_downstream_def)
  have "\<exists>i g. run_session_ready sample_server ?cl sample_params ?s ?d sample_shared =
      run_registered sample_server ?cl sample_params ?s False i ?d g \<and> g_world g = \<lparr>w_pools = Map.empty, w_tick = 2\<rparr>"
    by (simp add: run_session_ready_def g_now_def sample_params_def session_info_of_def sample_shared_def runtime_register_def Let_def)
      (rule exI, rule exI, rule conjI, rule refl, simp)
  then show ?thesis unfolding run using sample_registered [of _ ?s ?d] by (auto simp: sample_downstream_def)
qed

theorem connection_leaves_no_trace_witness:
  "\<exists>d' g'. run_session sample_server (sample_client [''user'' \<mapsto> ''u'']) sample_downstream sample_shared = Finished True d' g' \<and>
     leased_out log_key (g_world g') = 0 \<and> cr_sessions (g_router g') = Map.empty \<and> rt_sessions (g_runtime g') = []"
proof -
  obtain d' g' where r: "run_session sample_server (sample_client [''user'' \<mapsto> ''u'']) sample_downstream sample_shared = Finished True d' g'"
    using sample_finishes by blast
  from connection_leaves_no_trace [OF _ _ _ _ r] show ?thesis
    using r by (auto simp: sample_shared_def world_wf_def leased_out_def router_new_def runtime_new_def live_sessions_def)
qed

theorem startup_refused_witness:
  "\<exists>msg g'. run_session sample_server (sample_client Map.empty) sample_downstream sample_shared =
     Finished True \<lparr>ds_sent = [BNegotiateProtocolVersion 0 [], BErrorResponse [(CHR ''C'', ''28000''), (CHR ''M'', msg)]],
       ds_status = Idle, ds_results = [], ds_closed = True\<rparr> g'"
proof -
  let ?m = "FStartup \<lparr>startup_parameters = Map.empty, protocol_major = 3, protocol_minor = 2\<rparr>"
  have "cl_tls (sample_client Map.empty) = TlsDone" "cl_first (sample_client Map.empty) = FirstMsg ?m"
    "refusal_code ?m = Some ''28000''" "ds_results sample_downstream = []"
    by (simp_all add: sample_client_def from_startup_def sample_downstream_def)
  from startup_refused [OF this, of sample_server sample_shared] show ?thesis
    by (auto simp: sample_downstream_def sample_server_def log_env_def error_info_new_def)
qed

end
