(* ===== verification/Proxy.thy ===== *)
theory Proxy
  imports Intercept
begin

text \<open>
  The proxy itself (src/crates/pgferry/src/proxy.rs): the builder, and the accept loop with its client
  slots and graceful drain. Parsing a socket address is the argument \<open>parse_addr\<close> (the rendered error, or
  the address); an environment variable is what \<open>getenv\<close> yields.
\<close>

section \<open>The builder\<close>

text \<open>The interceptor a proxy runs: the user's, or the built-in failover router over a fresh group.\<close>

datatype 'c service = Custom "'c interceptor" | BuiltinFailover endpoint_group

record 'c proxy_builder =
  pb_listen_addr :: "string option"
  pb_route :: "route_config option"
  pb_pool_config :: "pool_config option"
  pb_max_client_conn :: nat
  pb_interceptor :: "'c service option"
  pb_admin_database :: "string option"
  pb_metrics_addr :: "string option"
  pb_tls_server :: "server_tls_config option"
  pb_shutdown_drain :: "duration option"

record 'c proxy =
  px_config :: proxy_config
  px_interceptor :: "'c service option"

definition builder :: "'c proxy_builder" where
  "builder =
     \<lparr>pb_listen_addr = None, pb_route = None, pb_pool_config = None, pb_max_client_conn = 0, pb_interceptor = None,
      pb_admin_database = None, pb_metrics_addr = None, pb_tls_server = None, pb_shutdown_drain = None\<rparr>"

definition with_listen :: "(string \<Rightarrow> string + string) \<Rightarrow> string \<Rightarrow> 'c proxy_builder \<Rightarrow> config_error + 'c proxy_builder" where
  "with_listen parse_addr addr b =
     (case parse_addr addr of Inl e \<Rightarrow> Inl (ListenAddr addr e) | Inr a \<Rightarrow> Inr (b\<lparr>pb_listen_addr := Some a\<rparr>))"

definition with_service :: "'c interceptor \<Rightarrow> 'c proxy_builder \<Rightarrow> 'c proxy_builder" where
  "with_service i b = b\<lparr>pb_interceptor := Some (Custom i)\<rparr>"

definition with_route :: "route_config \<Rightarrow> 'c proxy_builder \<Rightarrow> 'c proxy_builder" where
  "with_route r b = b\<lparr>pb_route := Some r\<rparr>"

definition plain_endpoint :: "endpoint_id \<Rightarrow> string \<Rightarrow> endpoint_config" where
  "plain_endpoint i conn = \<lparr>ep_id = i, ep_upstream = conn, ep_password = None, ep_tls = None\<rparr>"

definition default_route :: "endpoint_config list \<Rightarrow> route_config" where
  "default_route eps =
     \<lparr>route_name = ''default'', route_endpoints = eps, route_password = None, route_tls = upstream_tls_default\<rparr>"

definition with_upstream :: "string \<Rightarrow> 'c proxy_builder \<Rightarrow> 'c proxy_builder" where
  "with_upstream conn b = b\<lparr>pb_route := Some (default_route [plain_endpoint ''default'' conn])\<rparr>"

definition with_endpoint :: "endpoint_id \<Rightarrow> string \<Rightarrow> 'c proxy_builder \<Rightarrow> 'c proxy_builder" where
  "with_endpoint i conn b =
     (let e = plain_endpoint i conn
      in b\<lparr>pb_route := Some
            (case pb_route b of
               Some r \<Rightarrow>
                 (if length (route_endpoints r) = 1 \<and> ep_id (hd (route_endpoints r)) = ''default''
                  then r\<lparr>route_endpoints := [e]\<rparr>
                  else r\<lparr>route_endpoints := route_endpoints r @ [e]\<rparr>)
             | None \<Rightarrow> default_route [e])\<rparr>)"

definition with_password :: "string \<Rightarrow> 'c proxy_builder \<Rightarrow> 'c proxy_builder" where
  "with_password pw b = b\<lparr>pb_route := map_option (\<lambda>r. r\<lparr>route_password := Some pw\<rparr>) (pb_route b)\<rparr>"

definition with_password_env :: "(string \<Rightarrow> string option) \<Rightarrow> string \<Rightarrow> 'c proxy_builder \<Rightarrow> 'c proxy_builder" where
  "with_password_env getenv var b = (case getenv var of Some pw \<Rightarrow> with_password pw b | None \<Rightarrow> b)"

definition with_pool_config :: "pool_config \<Rightarrow> 'c proxy_builder \<Rightarrow> 'c proxy_builder" where
  "with_pool_config c b = b\<lparr>pb_pool_config := Some c\<rparr>"

definition with_max_client_conn :: "nat \<Rightarrow> 'c proxy_builder \<Rightarrow> 'c proxy_builder" where
  "with_max_client_conn n b = b\<lparr>pb_max_client_conn := n\<rparr>"

definition with_admin_database :: "string \<Rightarrow> 'c proxy_builder \<Rightarrow> 'c proxy_builder" where
  "with_admin_database db b = b\<lparr>pb_admin_database := Some db\<rparr>"

definition with_metrics_addr :: "(string \<Rightarrow> string + string) \<Rightarrow> string \<Rightarrow> 'c proxy_builder \<Rightarrow> config_error + 'c proxy_builder" where
  "with_metrics_addr parse_addr addr b =
     (case parse_addr addr of Inl e \<Rightarrow> Inl (ListenAddr addr e) | Inr a \<Rightarrow> Inr (b\<lparr>pb_metrics_addr := Some a\<rparr>))"

definition with_tls_server :: "string \<Rightarrow> string \<Rightarrow> 'c proxy_builder \<Rightarrow> 'c proxy_builder" where
  "with_tls_server cert key b = b\<lparr>pb_tls_server := Some \<lparr>tls_cert = cert, tls_key = key\<rparr>\<rparr>"

definition with_shutdown_drain :: "duration \<Rightarrow> 'c proxy_builder \<Rightarrow> 'c proxy_builder" where
  "with_shutdown_drain d b = b\<lparr>pb_shutdown_drain := Some d\<rparr>"

definition build :: "'c proxy_builder \<Rightarrow> config_error + 'c proxy" where
  "build b =
     (let interceptor =
            (case (pb_interceptor b, pb_route b) of
               (Some i, _) \<Rightarrow> Some i
             | (None, Some r) \<Rightarrow>
                 (if length (route_endpoints r) > 1 then Some (BuiltinFailover (group_from_endpoints (route_endpoints r))) else None)
             | (None, None) \<Rightarrow> None)
      in case pb_listen_addr b of
           None \<Rightarrow> Inl (Missing ''listen'')
         | Some addr \<Rightarrow>
             (case pb_route b of
                None \<Rightarrow> Inl (Missing ''upstream'')
              | Some r \<Rightarrow>
                  Inr \<lparr>px_config =
                         \<lparr>listen_addr = addr, proxy_route = r,
                          proxy_pool = (case pb_pool_config b of Some c \<Rightarrow> c | None \<Rightarrow> pool_config_default),
                          proxy_max_client_conn = (if pb_max_client_conn b = 0 then 128 else pb_max_client_conn b),
                          proxy_admin_database = pb_admin_database b, proxy_metrics_addr = pb_metrics_addr b,
                          proxy_tls_server = pb_tls_server b,
                          proxy_shutdown_drain = (case pb_shutdown_drain b of Some d \<Rightarrow> d | None \<Rightarrow> from_secs 30)\<rparr>,
                       px_interceptor = interceptor\<rparr>))"

section \<open>Endpoints added one by one\<close>

text \<open>
  What remains of a list of endpoints added in order: a leading endpoint named \<^verbatim>\<open>default\<close> gives way to the
  next one.
\<close>

fun kept_endpoints :: "endpoint_config list \<Rightarrow> endpoint_config list" where
  "kept_endpoints (e # f # es) = (if ep_id e = ''default'' then kept_endpoints (f # es) else e # f # es)"
| "kept_endpoints es = es"

lemma kept_endpoints_snoc:
  "es \<noteq> [] \<Longrightarrow>
     kept_endpoints (es @ [e]) =
       (if length (kept_endpoints es) = 1 \<and> ep_id (hd (kept_endpoints es)) = ''default'' then [e] else kept_endpoints es @ [e])"
  by (induction es rule: kept_endpoints.induct) auto

lemma kept_endpoints_nonempty [simp]: "kept_endpoints es = [] \<longleftrightarrow> es = []"
  by (induction es rule: kept_endpoints.induct) auto

lemma with_endpoint_default:
  "pb_route b = Some (default_route es) \<Longrightarrow>
     pb_route (with_endpoint i c b) =
       Some (default_route (if length es = 1 \<and> ep_id (hd es) = ''default'' then [plain_endpoint i c] else es @ [plain_endpoint i c]))"
  by (simp add: with_endpoint_def default_route_def Let_def)

lemma fold_with_endpoint:
  "eps \<noteq> [] \<Longrightarrow> pb_route (fold (\<lambda>(i, c). with_endpoint i c) eps (builder :: 'c proxy_builder)) =
     Some (default_route (kept_endpoints (map (\<lambda>(i, c). plain_endpoint i c) eps)))"
proof (induction eps rule: rev_induct)
  case (snoc e eps)
  show ?case
  proof (cases "eps = []")
    case True
    then show ?thesis by (simp add: with_endpoint_def builder_def Let_def split: prod.splits)
  next
    case False
    obtain i c where e: "e = (i, c)" by fastforce
    have IH: "pb_route (fold (\<lambda>(i, c). with_endpoint i c) eps (builder :: 'c proxy_builder)) =
      Some (default_route (kept_endpoints (map (\<lambda>(i, c). plain_endpoint i c) eps)))"
      using snoc.IH False by simp
    show ?thesis
      using kept_endpoints_snoc [of "map (\<lambda>(i, c). plain_endpoint i c) eps" "plain_endpoint i c"] False
      by (simp add: e with_endpoint_default [OF IH])
  qed
qed simp

text \<open>
  Lemma. A proxy built from endpoints added one by one (with a listen address and no service) routes
  over exactly those endpoints, in the order they were added, the first being the default target, and runs
  the failover router over all of them as soon as there are two - unless the first ones are named
  \<^verbatim>\<open>default\<close>: each endpoint of that name at the head is silently dropped when another one is added.
\<close>

theorem endpoints_build:
  assumes "eps \<noteq> []"
    and "b = (fold (\<lambda>(i, c). with_endpoint i c) eps builder)\<lparr>pb_listen_addr := Some addr, pb_interceptor := None\<rparr>"
  shows "\<exists>p. build b = Inr p \<and>
     route_endpoints (proxy_route (px_config p)) = kept_endpoints (map (\<lambda>(i, c). plain_endpoint i c) eps) \<and>
     (fst (hd eps) \<noteq> ''default'' \<longrightarrow> route_endpoints (proxy_route (px_config p)) = map (\<lambda>(i, c). plain_endpoint i c) eps) \<and>
     px_interceptor p =
       (if length (kept_endpoints (map (\<lambda>(i, c). plain_endpoint i c) eps)) > 1
        then Some (BuiltinFailover (group_from_endpoints (kept_endpoints (map (\<lambda>(i, c). plain_endpoint i c) eps)))) else None) \<and>
     proxy_max_client_conn (px_config p) > 0"
proof -
  let ?es = "map (\<lambda>(i, c). plain_endpoint i c) eps"
  have r: "pb_route b = Some (default_route (kept_endpoints ?es))" using assms fold_with_endpoint [OF assms(1)] by simp
  have "kept_endpoints ?es = ?es" if "fst (hd eps) \<noteq> ''default''"
  proof (cases eps)
    case (Cons e es)
    with that show ?thesis by (cases es) (auto simp: plain_endpoint_def split: prod.splits)
  qed simp
  with r assms(2) show ?thesis by (simp add: build_def Let_def default_route_def)
qed

theorem endpoints_build_witness:
  "\<exists>p. build ((fold (\<lambda>(i, c). with_endpoint i c) [(''default'', ''host=a''), (''b'', ''host=b''), (''c'', ''host=c'')] (builder :: unit proxy_builder))
        \<lparr>pb_listen_addr := Some ''127.0.0.1:6432'', pb_interceptor := None\<rparr>) = Inr p \<and>
     map ep_id (route_endpoints (proxy_route (px_config p))) = [''b'', ''c'']"
proof -
  let ?eps = "[(''default'', ''host=a''), (''b'', ''host=b''), (''c'', ''host=c'')]"
  have "?eps \<noteq> []" by simp
  from endpoints_build [OF this refl, where addr = "''127.0.0.1:6432''"] show ?thesis
    by (force simp: plain_endpoint_def simp del: fold_simps)
qed

section \<open>The accept loop\<close>

text \<open>
  The loop waits for a client slot, then, holding it, for a connection; shutdown ends it in either
  place. Both waits are unbiased selects, so a connection can still be accepted while the signal is pending:
  only leaving the loop ends accepting. Finished session tasks stay in the \<^verbatim>\<open>JoinSet\<close> until they are joined,
  which only the drain does. When the drain window closes, \<^verbatim>\<open>abort_all\<close> asks the remaining sessions to stop and
  the loop returns without waiting for them: they are \<open>ax_aborting\<close>, and keep their slots, until the runtime has
  cancelled them.

  The steps of the loop's own task (\<open>loop_step\<close>) are kept apart from those of the session tasks
  (\<open>session_step\<close>): a session may never end by itself.
\<close>

datatype accept_phase = Acquiring | Accepting | Draining | Stopped

record acceptor =
  ax_phase :: accept_phase
  ax_free :: nat
  ax_running :: nat
  ax_finished :: nat
  ax_aborting :: nat
  ax_accepted :: nat

definition accept_init :: "nat \<Rightarrow> acceptor" where
  "accept_init max_client_conn =
     \<lparr>ax_phase = Acquiring, ax_free = max_client_conn, ax_running = 0, ax_finished = 0, ax_aborting = 0, ax_accepted = 0\<rparr>"

inductive loop_step :: "acceptor \<Rightarrow> acceptor \<Rightarrow> bool" where
  acquire: "ax_phase a = Acquiring \<Longrightarrow> ax_free a = Suc n \<Longrightarrow> loop_step a (a\<lparr>ax_phase := Accepting, ax_free := n\<rparr>)"
| accepted: "ax_phase a = Accepting \<Longrightarrow>
    loop_step a (a\<lparr>ax_phase := Acquiring, ax_running := Suc (ax_running a), ax_accepted := Suc (ax_accepted a)\<rparr>)"
| accept_failed: "ax_phase a = Accepting \<Longrightarrow> loop_step a (a\<lparr>ax_phase := Acquiring, ax_free := Suc (ax_free a)\<rparr>)"
| shutdown_waiting: "ax_phase a = Acquiring \<Longrightarrow> loop_step a (a\<lparr>ax_phase := Draining\<rparr>)"
| shutdown_accepting: "ax_phase a = Accepting \<Longrightarrow> loop_step a (a\<lparr>ax_phase := Draining, ax_free := Suc (ax_free a)\<rparr>)"
| join: "ax_phase a = Draining \<Longrightarrow> ax_finished a = Suc n \<Longrightarrow> loop_step a (a\<lparr>ax_finished := n\<rparr>)"
| drained: "ax_phase a = Draining \<Longrightarrow> ax_running a = 0 \<Longrightarrow> ax_finished a = 0 \<Longrightarrow> loop_step a (a\<lparr>ax_phase := Stopped\<rparr>)"
| drain_timeout: "ax_phase a = Draining \<Longrightarrow>
    loop_step a (a\<lparr>ax_phase := Stopped, ax_aborting := ax_aborting a + ax_running a, ax_running := 0, ax_finished := 0\<rparr>)"

inductive session_step :: "acceptor \<Rightarrow> acceptor \<Rightarrow> bool" where
  ends: "ax_running a = Suc n \<Longrightarrow>
    session_step a (a\<lparr>ax_running := n, ax_free := Suc (ax_free a), ax_finished := Suc (ax_finished a)\<rparr>)"
| cancelled: "ax_aborting a = Suc n \<Longrightarrow> session_step a (a\<lparr>ax_aborting := n, ax_free := Suc (ax_free a)\<rparr>)"

definition accept_step :: "acceptor \<Rightarrow> acceptor \<Rightarrow> bool" where
  "accept_step a a' \<longleftrightarrow> loop_step a a' \<or> session_step a a'"

inductive_cases loop_stepE: "loop_step a a'"
inductive_cases session_stepE: "session_step a a'"

abbreviation accept_steps :: "acceptor \<Rightarrow> acceptor \<Rightarrow> bool" where
  "accept_steps \<equiv> accept_step\<^sup>*\<^sup>*"

lemma accept_step_cases [consumes 1, case_names loop session]:
  assumes "accept_step a a'"
  obtains "loop_step a a'" | "session_step a a'"
  using assms by (auto simp: accept_step_def)

lemma loop_accepts: "loop_step a a' \<Longrightarrow> accept_step a a'"
  by (simp add: accept_step_def)

definition accept_inv :: "nat \<Rightarrow> acceptor \<Rightarrow> bool" where
  "accept_inv m a \<longleftrightarrow>
     ax_free a + ax_running a + ax_aborting a + (if ax_phase a = Accepting then 1 else 0) = m \<and>
     (ax_phase a \<in> {Acquiring, Accepting} \<longrightarrow> ax_accepted a = ax_running a + ax_finished a) \<and>
     (if ax_phase a = Stopped then ax_running a = 0 else ax_aborting a = 0)"

lemma accept_inv_step:
  assumes "accept_step a a'" "accept_inv m a"
  shows "accept_inv m a'"
  using assms(1)
proof (cases rule: accept_step_cases)
  case loop
  then show ?thesis using assms(2) by (induction rule: loop_step.induct) (auto simp: accept_inv_def)
next
  case session
  then show ?thesis using assms(2) by (induction rule: session_step.induct) (auto simp: accept_inv_def split: if_splits)
qed

interpretation acc: transition_system accept_step "accept_inv m" for m
  by unfold_locales (rule accept_inv_step)

lemma accept_inv_reachable: "accept_steps (accept_init m) a \<Longrightarrow> accept_inv m a"
  by (erule acc.steps_inv) (simp add: accept_inv_def accept_init_def)

text \<open>Once the loop is left it stays left, and accepts no more.\<close>

definition closed_at :: "nat \<Rightarrow> acceptor \<Rightarrow> bool" where
  "closed_at n a \<longleftrightarrow> ax_phase a \<in> {Draining, Stopped} \<and> ax_accepted a = n"

text \<open>
  What is left to do after the loop was left: a session has to end and to be joined, or to be cancelled, and
  the drain to stop.
\<close>

definition drain_work :: "acceptor \<Rightarrow> nat" where
  "drain_work a = 2 * ax_running a + ax_finished a + ax_aborting a + (if ax_phase a = Stopped then 0 else 1)"

interpretation drain: terminating_system accept_step "closed_at n" drain_work for n
proof (unfold_locales, goal_cases)
  case (1 s t)
  then show ?case by (auto simp: closed_at_def accept_step_def elim!: loop_stepE session_stepE)
next
  case (2 s t)
  then show ?case by (auto simp: closed_at_def drain_work_def accept_step_def elim!: loop_stepE session_stepE)
qed

lemma closed_steps:
  "accept_steps a a' \<Longrightarrow> ax_phase a \<in> {Draining, Stopped} \<Longrightarrow>
     ax_accepted a' = ax_accepted a \<and> ax_phase a' \<in> {Draining, Stopped}"
  using drain.steps_inv [of a a' "ax_accepted a"] by (simp add: closed_at_def)

text \<open>
  Property C32. Client slots are conserved. Whatever connections come, fail and end, at most
  \<^verbatim>\<open>max_client_conn\<close> sessions exist, those being cancelled included; the loop is never blocked while fewer do;
  once the loop has been left (the signal alone does not suffice) nothing is accepted any more; and when it has
  returned, every session that has not ended has been told to abort and occupies the only slots that are not free, all
  of which come back once these sessions are cancelled.
\<close>

theorem client_slots_conserved:
  assumes "accept_steps (accept_init m) a"
  shows "ax_running a + ax_aborting a \<le> m \<and>
    (ax_phase a = Acquiring \<and> ax_running a < m \<longrightarrow> (\<exists>a'. loop_step a a' \<and> ax_phase a' = Accepting)) \<and>
    (ax_phase a \<in> {Draining, Stopped} \<longrightarrow> (\<forall>a'. accept_steps a a' \<longrightarrow> ax_accepted a' = ax_accepted a)) \<and>
    (ax_phase a = Stopped \<longrightarrow> ax_running a = 0 \<and> ax_free a + ax_aborting a = m \<and>
       (\<forall>a'. accept_steps a a' \<and> \<not> (\<exists>b. accept_step a' b) \<longrightarrow> ax_free a' = m))"
proof -
  note inv = accept_inv_reachable [OF assms]
  have go: "\<exists>a'. loop_step a a' \<and> ax_phase a' = Accepting" if "ax_phase a = Acquiring" "ax_running a < m"
  proof -
    from inv that have "ax_free a \<noteq> 0" by (auto simp: accept_inv_def)
    then obtain n where "ax_free a = Suc n" by (cases "ax_free a") auto
    from loop_step.acquire [OF that(1) this] show ?thesis by fastforce
  qed
  have ended: "ax_free a' = m" if "ax_phase a = Stopped" "accept_steps a a'" "\<not> (\<exists>b. accept_step a' b)" for a'
  proof -
    have inv': "accept_inv m a'" using acc.steps_inv [OF that(2) inv] .
    have "ax_phase a' \<in> {Draining, Stopped}" using closed_steps [OF that(2)] that(1) by simp
    moreover have "ax_aborting a' = 0"
      using that(3) session_step.cancelled [of a'] by (cases "ax_aborting a'") (auto simp: accept_step_def)
    moreover have "ax_running a' = 0"
      using that(3) session_step.ends [of a'] by (cases "ax_running a'") (auto simp: accept_step_def)
    ultimately show ?thesis using inv' by (auto simp: accept_inv_def)
  qed
  from inv go closed_steps ended show ?thesis by (auto simp: accept_inv_def)
qed

text \<open>
  Until shutdown the join set only grows: every session ever accepted is still in it, running or
  finished, since nothing joins the finished ones.
\<close>

lemma join_set_never_reaped:
  assumes "accept_steps (accept_init m) a" "ax_phase a \<in> {Acquiring, Accepting}"
  shows "ax_running a + ax_finished a = ax_accepted a"
  using accept_inv_reachable [OF assms(1)] assms(2) by (auto simp: accept_inv_def)

definition sample_accepting :: acceptor where
  "sample_accepting = \<lparr>ax_phase = Accepting, ax_free = 0, ax_running = 0, ax_finished = 0, ax_aborting = 0, ax_accepted = 0\<rparr>"

theorem client_slots_conserved_witness:
  "ax_running sample_accepting + ax_aborting sample_accepting \<le> 1 \<and> accept_steps (accept_init 1) sample_accepting"
proof -
  have "loop_step (accept_init 1) sample_accepting"
    using loop_step.acquire [of "accept_init 1" 0] by (simp add: accept_init_def sample_accepting_def)
  then have r: "accept_steps (accept_init 1) sample_accepting" by (simp add: accept_step_def r_into_rtranclp)
  with client_slots_conserved [OF r] show ?thesis by blast
qed

text \<open>
  Property C33. The drain terminates whatever the sessions do. Once the loop has been left, every run is bounded:
  two steps per running session, one per finished one, one to stop. And the loop never depends on a session:
  at every point of the drain its own task can go on, and however long it runs with no session ever
  making a step, where it can go no further it has stopped - the window closes on sessions that do not end.
  When nothing at all can happen any more, no session is left and every client slot is free again.
\<close>

theorem drain_terminates:
  assumes "accept_steps (accept_init m) a" "ax_phase a = Draining"
  shows "(\<forall>n a'. (accept_step ^^ n) a a' \<longrightarrow> n \<le> 2 * ax_running a + ax_finished a + 1) \<and>
    (\<forall>a'. accept_steps a a' \<and> ax_phase a' \<noteq> Stopped \<longrightarrow> (\<exists>b. loop_step a' b)) \<and>
    (\<forall>a'. loop_step\<^sup>*\<^sup>* a a' \<and> \<not> (\<exists>b. loop_step a' b) \<longrightarrow> ax_phase a' = Stopped) \<and>
    (\<forall>a'. accept_steps a a' \<and> \<not> (\<exists>b. accept_step a' b) \<longrightarrow>
       ax_phase a' = Stopped \<and> ax_running a' = 0 \<and> ax_aborting a' = 0 \<and> ax_free a' = m)"
proof -
  have closed: "closed_at (ax_accepted a) a" using assms(2) by (simp add: closed_at_def)
  note inv = accept_inv_reachable [OF assms(1)]
  have bound: "n \<le> 2 * ax_running a + ax_finished a + 1" if "(accept_step ^^ n) a a'" for n a'
    using drain.power_work [OF that closed] inv assms(2) by (simp add: drain_work_def accept_inv_def)
  have go: "\<exists>b. loop_step a' b" if "accept_steps a a'" "ax_phase a' \<noteq> Stopped" for a'
    using closed_steps [OF that(1)] assms(2) that(2) loop_step.drain_timeout [of a'] by auto
  have alone: "accept_steps a a'" if "loop_step\<^sup>*\<^sup>* a a'" for a'
    using that by (rule rtranclp_mono [THEN predicate2D, rotated]) (auto simp: loop_accepts)
  have idle: "ax_phase a' = Stopped \<and> ax_running a' = 0 \<and> ax_aborting a' = 0 \<and> ax_free a' = m"
    if "accept_steps a a'" "\<not> (\<exists>b. accept_step a' b)" for a'
  proof -
    have stopped: "ax_phase a' = Stopped" using go [OF that(1)] that(2) loop_accepts by blast
    have inv': "accept_inv m a'" using acc.steps_inv [OF that(1) inv] .
    have "ax_aborting a' = 0"
      using that(2) session_step.cancelled [of a'] by (cases "ax_aborting a'") (auto simp: accept_step_def)
    with stopped inv' show ?thesis by (simp add: accept_inv_def)
  qed
  from bound go alone idle show ?thesis by blast
qed

definition sample_draining :: acceptor where
  "sample_draining = \<lparr>ax_phase = Draining, ax_free = 1, ax_running = 1, ax_finished = 0, ax_aborting = 0, ax_accepted = 1\<rparr>"

lemma sample_draining_reachable: "accept_steps (accept_init 2) sample_draining"
proof -
  let ?a = "\<lparr>ax_phase = Accepting, ax_free = 1, ax_running = 0, ax_finished = 0, ax_aborting = 0, ax_accepted = 0\<rparr>"
  let ?b = "\<lparr>ax_phase = Acquiring, ax_free = 1, ax_running = 1, ax_finished = 0, ax_aborting = 0, ax_accepted = 1\<rparr>"
  have "accept_step (accept_init 2) ?a" "accept_step ?a ?b" "accept_step ?b sample_draining"
    using loop_step.acquire [of "accept_init 2" 1] loop_step.accepted [of ?a] loop_step.shutdown_waiting [of ?b]
    by (simp_all add: loop_accepts accept_init_def sample_draining_def)
  then show ?thesis by (meson rtranclp.rtrancl_refl rtranclp.rtrancl_into_rtrancl)
qed

theorem drain_terminates_witness:
  "accept_steps (accept_init 2) sample_draining \<and> \<not> (accept_step ^^ 4) sample_draining sample_draining \<and>
     (\<exists>b. loop_step sample_draining b)"
proof -
  have d: "ax_phase sample_draining = Draining" "ax_running sample_draining = 1" "ax_finished sample_draining = 0"
    by (simp_all add: sample_draining_def)
  note t = drain_terminates [OF sample_draining_reachable d(1)]
  from conjunct1 [OF t] have "\<forall>n a'. (accept_step ^^ n) sample_draining a' \<longrightarrow> n \<le> 3" by (simp add: d)
  from this [rule_format, of 4 sample_draining] have "\<not> (accept_step ^^ 4) sample_draining sample_draining" by auto
  moreover from t d have "\<exists>b. loop_step sample_draining b" by auto
  ultimately show ?thesis using sample_draining_reachable by blast
qed

end
