(* ===== verification/Tls.thy ===== *)
theory Tls
  imports Config
begin

text \<open>
  Transport security: the acceptor for clients (\<^verbatim>\<open>build_tls_acceptor\<close> of src/crates/pgferry/src/proxy.rs) and the
  connector for upstream servers (\<^verbatim>\<open>build_upstream_connector\<close> and \<^verbatim>\<open>NoVerify\<close> of
  src/crates/pgferry/src/session.rs). Opening a file, reading the sections of a PEM file, adding a trust
  anchor, assembling a server configuration and checking a chain against trust anchors belong to the
  operating system and to rustls; they are the parameter \<open>tls_ops\<close>. A file has the same contents each time a
  function opens it.
\<close>

datatype io_error = OsError string | OtherError string

record ('d, 'k, 'r, 'v, 'a) tls_ops =
  to_open :: "string \<Rightarrow> io_error + string"
  to_certs :: "string \<Rightarrow> (string + 'd) list"
  to_pkcs8_keys :: "string \<Rightarrow> (string + 'k) list"
  to_rsa_keys :: "string \<Rightarrow> (string + 'k) list"
  to_single_cert :: "'d list \<Rightarrow> 'k \<Rightarrow> string + 'a"
  to_empty_roots :: 'r
  to_add_root :: "'d \<Rightarrow> 'r \<Rightarrow> 'r option"
  to_verify :: "'r \<Rightarrow> 'v \<Rightarrow> bool"

text \<open>\<^verbatim>\<open>collect::<Result<Vec<_>, _>>()\<close>: the first error, or all the values.\<close>

fun collect_results :: "('e + 'b) list \<Rightarrow> 'e + 'b list" where
  "collect_results [] = Inr []"
| "collect_results (Inl e # xs) = Inl e"
| "collect_results (Inr x # xs) = map_sum id (Cons x) (collect_results xs)"

lemma collect_results_map [simp]: "collect_results (map Inr ys) = Inr ys"
  by (induction ys) simp_all

lemma collect_results_Inr: "collect_results xs = Inr ys \<longleftrightarrow> xs = map Inr ys"
proof
  show "collect_results xs = Inr ys \<Longrightarrow> xs = map Inr ys"
  proof (induction xs arbitrary: ys rule: collect_results.induct)
    case (3 x xs)
    then show ?case by (cases "collect_results xs") auto
  qed auto
qed simp

lemma collect_results_Inl: "(\<exists>e. collect_results xs = Inl e) \<longleftrightarrow> (\<exists>e. Inl e \<in> set xs)"
proof (induction xs rule: collect_results.induct)
  case (3 x xs)
  then show ?case by (cases "collect_results xs") auto
qed auto

section \<open>Towards clients\<close>

definition load_key :: "('d, 'k, 'r, 'v, 'a) tls_ops \<Rightarrow> string \<Rightarrow> io_error + 'k" where
  "load_key ops path =
     (case to_open ops path of
        Inl e \<Rightarrow> Inl e
      | Inr data \<Rightarrow>
          (case collect_results (to_pkcs8_keys ops data) of
             Inl e \<Rightarrow> Inl (OtherError (''pkcs8 key: '' @ e))
           | Inr (k # ks) \<Rightarrow> Inr k
           | Inr [] \<Rightarrow>
               (case collect_results (to_rsa_keys ops data) of
                  Inl e \<Rightarrow> Inl (OtherError (''rsa key: '' @ e))
                | Inr keys \<Rightarrow>
                    (case vec_pop keys of
                       Some (k, _) \<Rightarrow> Inr k
                     | None \<Rightarrow> Inl (OtherError ''no private key found in key file'')))))"

definition build_tls_acceptor :: "('d, 'k, 'r, 'v, 'a) tls_ops \<Rightarrow> server_tls_config \<Rightarrow> io_error + 'a" where
  "build_tls_acceptor ops cfg =
     (case to_open ops (tls_cert cfg) of
        Inl e \<Rightarrow> Inl e
      | Inr data \<Rightarrow>
          (case collect_results (to_certs ops data) of
             Inl e \<Rightarrow> Inl (OtherError (''reading '' @ debug_str (tls_cert cfg) @ '': '' @ e))
           | Inr certs \<Rightarrow>
               (case load_key ops (tls_key cfg) of
                  Inl e \<Rightarrow> Inl e
                | Inr key \<Rightarrow>
                    (case to_single_cert ops certs key of
                       Inl e \<Rightarrow> Inl (OtherError (''tls config: '' @ e))
                     | Inr a \<Rightarrow> Inr a))))"

section \<open>Towards upstream servers\<close>

datatype 'r verifier = NoVerify | RootCerts 'r

record 'r tls_connector =
  tc_verifier :: "'r verifier"
  tc_alpn :: "string list"

text \<open>\<^verbatim>\<open>for cert in certs { roots.add(cert).ok()?; }\<close>\<close>

fun add_roots :: "('d, 'k, 'r, 'v, 'a) tls_ops \<Rightarrow> 'd list \<Rightarrow> 'r \<Rightarrow> 'r option" where
  "add_roots ops [] roots = Some roots"
| "add_roots ops (c # cs) roots = (case to_add_root ops c roots of None \<Rightarrow> None | Some r \<Rightarrow> add_roots ops cs r)"

definition build_upstream_connector :: "('d, 'k, 'r, 'v, 'a) tls_ops \<Rightarrow> upstream_tls_config \<Rightarrow> 'r tls_connector option" where
  "build_upstream_connector ops tls =
     (if tls_insecure tls then Some \<lparr>tc_verifier = NoVerify, tc_alpn = [''postgresql'']\<rparr>
      else (case tls_ca tls of
              None \<Rightarrow> None
            | Some ca_path \<Rightarrow>
                (case to_open ops ca_path of
                   Inl _ \<Rightarrow> None
                 | Inr data \<Rightarrow>
                     (case collect_results (to_certs ops data) of
                        Inl _ \<Rightarrow> None
                      | Inr certs \<Rightarrow>
                          (case add_roots ops certs (to_empty_roots ops) of
                             None \<Rightarrow> None
                           | Some roots \<Rightarrow> Some \<lparr>tc_verifier = RootCerts roots, tc_alpn = [''postgresql'']\<rparr>)))))"

text \<open>
  The verifier's callbacks: \<^verbatim>\<open>NoVerify\<close> asserts every certificate and every handshake signature, and offers
  these signature schemes.
\<close>

datatype signature_scheme =
    RSA_PKCS1_SHA256 | RSA_PKCS1_SHA384 | RSA_PKCS1_SHA512
  | ECDSA_NISTP256_SHA256 | ECDSA_NISTP384_SHA384 | ED25519
  | RSA_PSS_SHA256 | RSA_PSS_SHA384 | RSA_PSS_SHA512

fun verify_server_cert :: "('d, 'k, 'r, 'v, 'a) tls_ops \<Rightarrow> 'r verifier \<Rightarrow> 'v \<Rightarrow> bool" where
  "verify_server_cert ops NoVerify presented = True"
| "verify_server_cert ops (RootCerts roots) presented = to_verify ops roots presented"

definition no_verify_schemes :: "signature_scheme list" where
  "no_verify_schemes =
     [RSA_PKCS1_SHA256, RSA_PKCS1_SHA384, RSA_PKCS1_SHA512, ECDSA_NISTP256_SHA256, ECDSA_NISTP384_SHA384, ED25519,
      RSA_PSS_SHA256, RSA_PSS_SHA384, RSA_PSS_SHA512]"

section \<open>What is trusted\<close>

text \<open>The trust anchors a CA file yields, if every part of it can be used.\<close>

definition ca_anchors :: "('d, 'k, 'r, 'v, 'a) tls_ops \<Rightarrow> string \<Rightarrow> 'r option" where
  "ca_anchors ops path =
     (case to_open ops path of
        Inl _ \<Rightarrow> None
      | Inr data \<Rightarrow>
          (case collect_results (to_certs ops data) of
             Inl _ \<Rightarrow> None
           | Inr certs \<Rightarrow> add_roots ops certs (to_empty_roots ops)))"

lemma ca_anchors_None:
  "ca_anchors ops path = None \<longleftrightarrow>
     (\<exists>e. to_open ops path = Inl e) \<or>
     (\<exists>data. to_open ops path = Inr data \<and>
        ((\<exists>e. Inl e \<in> set (to_certs ops data)) \<or>
         (\<exists>certs. to_certs ops data = map Inr certs \<and> add_roots ops certs (to_empty_roots ops) = None)))"
proof (cases "to_open ops path")
  case (Inr data)
  show ?thesis
  proof (cases "collect_results (to_certs ops data)")
    case (Inl e)
    then have "\<exists>e. Inl e \<in> set (to_certs ops data)" by (simp flip: collect_results_Inl)
    with Inl Inr show ?thesis by (simp add: ca_anchors_def)
  next
    case (Inr certs)
    then have c: "to_certs ops data = map Inr certs" by (simp add: collect_results_Inr)
    have ex: "(\<exists>cs. to_certs ops data = map Inr cs \<and> P cs) \<longleftrightarrow> P certs" for P
      unfolding c using collect_results_map by (metis Inr_inject)
    have "Inl e \<notin> set (to_certs ops data)" for e by (auto simp: c)
    with Inr \<open>to_open ops path = Inr data\<close> show ?thesis by (simp add: ca_anchors_def ex)
  qed
qed (simp add: ca_anchors_def)

lemma build_upstream_connector_secure:
  assumes "\<not> tls_insecure tls" "tls_ca tls = Some path"
  shows "build_upstream_connector ops tls =
    map_option (\<lambda>roots. \<lparr>tc_verifier = RootCerts roots, tc_alpn = [''postgresql'']\<rparr>) (ca_anchors ops path)"
  using assms by (simp add: build_upstream_connector_def ca_anchors_def split: sum.splits option.splits)

end
