(* ===== verification/Server.thy ===== *)
theory Server
  imports Proxy Tls
begin

text \<open>
  A running proxy (\<^verbatim>\<open>Proxy::serve\<close>, \<^verbatim>\<open>Proxy::run\<close> and \<^verbatim>\<open>ProxyServer\<close> of src/crates/pgferry/src/proxy.rs): binding the
  listeners, the background tasks, and what the owner of the server handle can do with it. Binding a
  socket and asking for its address are the operating system's and are the parameter \<open>net_ops\<close>.

  A task whose join handle is dropped goes on by itself; only aborting it, or its own end, stops it.
\<close>

section \<open>Starting\<close>

record net_ops =
  no_bind :: "string \<Rightarrow> io_error + string"
  no_local_addr :: "string \<Rightarrow> io_error + string"

record tasks =
  bg_accept :: bool
  bg_sweeper :: bool
  bg_metrics :: bool

definition no_tasks :: tasks where
  "no_tasks = \<lparr>bg_accept = False, bg_sweeper = False, bg_metrics = False\<rparr>"

record 'a proxy_server =
  ps_local_addr :: string
  ps_metrics_addr :: "string option"
  ps_tls_acceptor :: "'a option"
  ps_max_client_conn :: nat

text \<open>
  \<^verbatim>\<open>Proxy::serve\<close>: its result, and the tasks it leaves running. A failure to bind the metrics address comes
  after the sweeper was spawned.
\<close>

definition serve ::
    "net_ops \<Rightarrow> ('d, 'k, 'r, 'v, 'a) tls_ops \<Rightarrow> 'c proxy \<Rightarrow> (io_error + 'a proxy_server) \<times> tasks" where
  "serve net tls p =
     (let cfg = px_config p
      in case no_bind net (listen_addr cfg) of
           Inl e \<Rightarrow> (Inl e, no_tasks)
         | Inr listener \<Rightarrow>
             (case no_local_addr net listener of
                Inl e \<Rightarrow> (Inl e, no_tasks)
              | Inr local \<Rightarrow>
                  (case (case proxy_tls_server cfg of
                           Some t \<Rightarrow> map_sum id Some (build_tls_acceptor tls t)
                         | None \<Rightarrow> Inr None) of
                     Inl e \<Rightarrow> (Inl e, no_tasks)
                   | Inr acceptor \<Rightarrow>
                       (let bg = no_tasks\<lparr>bg_sweeper := True\<rparr>
                        in case (case proxy_metrics_addr cfg of
                                   Some addr \<Rightarrow> map_sum id Some (no_bind net addr)
                                 | None \<Rightarrow> Inr None) of
                             Inl e \<Rightarrow> (Inl e, bg)
                           | Inr metrics \<Rightarrow>
                               (Inr \<lparr>ps_local_addr = local,
                                     ps_metrics_addr = (case metrics of
                                        None \<Rightarrow> None
                                      | Some l \<Rightarrow> (case no_local_addr net l of Inr a \<Rightarrow> Some a | Inl _ \<Rightarrow> None)),
                                     ps_tls_acceptor = acceptor, ps_max_client_conn = proxy_max_client_conn cfg\<rparr>,
                                bg\<lparr>bg_accept := True, bg_metrics := (metrics \<noteq> None)\<rparr>)))))"

section \<open>Running\<close>

text \<open>
  The supervisor is the task behind the handle: it waits for the accept loop and then aborts the sweeper and the
  metrics task. Aborting a task only asks for its end; it is gone when the runtime has cancelled it. The handle is
  held by the program, is being awaited by \<^verbatim>\<open>wait\<close> or \<^verbatim>\<open>shutdown_graceful\<close>, has returned from that, or is gone.
  \<open>sv_signal\<close> holds once a shutdown was sent or its sender dropped, which wakes the accept loop alike.
\<close>

datatype task_state = Working | AbortAsked | Gone

fun ask_abort :: "task_state \<Rightarrow> task_state" where
  "ask_abort Working = AbortAsked"
| "ask_abort t = t"

datatype supervisor = Watching | Finished | Aborted

datatype server_handle = Held | Awaiting | Returned | HandleGone

record server_state =
  sv_accept :: acceptor
  sv_sweeper :: task_state
  sv_metrics :: task_state
  sv_supervisor :: supervisor
  sv_handle :: server_handle
  sv_signal :: bool

definition server_init :: "'a proxy_server \<Rightarrow> tasks \<Rightarrow> server_state" where
  "server_init ps bg =
     \<lparr>sv_accept = accept_init (ps_max_client_conn ps), sv_sweeper = (if bg_sweeper bg then Working else Gone),
      sv_metrics = (if bg_metrics bg then Working else Gone), sv_supervisor = Watching, sv_handle = Held, sv_signal = False\<rparr>"

text \<open>The four things to do with the handle.\<close>

definition call_shutdown :: "server_state \<Rightarrow> server_state" where
  "call_shutdown s =
     s\<lparr>sv_signal := True, sv_supervisor := (if sv_supervisor s = Finished then Finished else Aborted), sv_handle := HandleGone\<rparr>"

definition call_shutdown_graceful :: "server_state \<Rightarrow> server_state" where
  "call_shutdown_graceful s = s\<lparr>sv_signal := True, sv_handle := Awaiting\<rparr>"

definition call_wait :: "server_state \<Rightarrow> server_state" where
  "call_wait s = s\<lparr>sv_handle := Awaiting\<rparr>"

definition drop_handle :: "server_state \<Rightarrow> server_state" where
  "drop_handle s = s\<lparr>sv_signal := True, sv_handle := HandleGone\<rparr>"

definition leaves_loop :: "acceptor \<Rightarrow> acceptor \<Rightarrow> bool" where
  "leaves_loop a a' \<longleftrightarrow> ax_phase a \<in> {Acquiring, Accepting} \<and> ax_phase a' = Draining"

text \<open>
  Steps of the proxy's own tasks - the accept loop, the supervisor, the awaited call - and everything else: sessions,
  the runtime cancelling aborted tasks, a failing metrics endpoint, and the owner of the handle.
\<close>

inductive proxy_step :: "server_state \<Rightarrow> server_state \<Rightarrow> bool" where
  loop: "loop_step (sv_accept s) a \<Longrightarrow> leaves_loop (sv_accept s) a \<longrightarrow> sv_signal s \<Longrightarrow> proxy_step s (s\<lparr>sv_accept := a\<rparr>)"
| supervise: "sv_supervisor s = Watching \<Longrightarrow> ax_phase (sv_accept s) = Stopped \<Longrightarrow>
    proxy_step s (s\<lparr>sv_supervisor := Finished, sv_sweeper := ask_abort (sv_sweeper s), sv_metrics := ask_abort (sv_metrics s)\<rparr>)"
| returned: "sv_handle s = Awaiting \<Longrightarrow> sv_supervisor s = Finished \<Longrightarrow>
    proxy_step s (s\<lparr>sv_handle := Returned, sv_signal := True\<rparr>)"

inductive outside_step :: "server_state \<Rightarrow> server_state \<Rightarrow> bool" where
  session: "session_step (sv_accept s) a \<Longrightarrow> outside_step s (s\<lparr>sv_accept := a\<rparr>)"
| sweeper_gone: "sv_sweeper s = AbortAsked \<Longrightarrow> outside_step s (s\<lparr>sv_sweeper := Gone\<rparr>)"
| metrics_gone: "sv_metrics s = AbortAsked \<Longrightarrow> outside_step s (s\<lparr>sv_metrics := Gone\<rparr>)"
| metrics_fails: "sv_metrics s = Working \<Longrightarrow> outside_step s (s\<lparr>sv_metrics := Gone\<rparr>)"
| shutdown: "sv_handle s = Held \<Longrightarrow> outside_step s (call_shutdown s)"
| graceful: "sv_handle s = Held \<Longrightarrow> outside_step s (call_shutdown_graceful s)"
| wait: "sv_handle s = Held \<Longrightarrow> outside_step s (call_wait s)"
| dropped: "sv_handle s = Held \<Longrightarrow> outside_step s (drop_handle s)"

definition server_step :: "server_state \<Rightarrow> server_state \<Rightarrow> bool" where
  "server_step s s' \<longleftrightarrow> proxy_step s s' \<or> outside_step s s'"

inductive_cases proxy_stepE: "proxy_step s s'"
inductive_cases outside_stepE: "outside_step s s'"

lemmas server_step_elims = proxy_stepE outside_stepE loop_stepE session_stepE

abbreviation server_steps :: "server_state \<Rightarrow> server_state \<Rightarrow> bool" where
  "server_steps \<equiv> server_step\<^sup>*\<^sup>*"

section \<open>Invariants\<close>

definition server_inv :: "nat \<Rightarrow> server_state \<Rightarrow> bool" where
  "server_inv m s \<longleftrightarrow>
     accept_inv m (sv_accept s) \<and>
     (sv_supervisor s = Finished \<longrightarrow> ax_phase (sv_accept s) = Stopped \<and> sv_sweeper s \<noteq> Working \<and> sv_metrics s \<noteq> Working) \<and>
     (sv_supervisor s \<noteq> Finished \<longrightarrow> sv_sweeper s = Working) \<and>
     (ax_phase (sv_accept s) \<in> {Draining, Stopped} \<longrightarrow> sv_signal s) \<and>
     (sv_handle s = Returned \<longrightarrow> sv_supervisor s = Finished) \<and>
     (sv_supervisor s = Aborted \<longrightarrow> sv_handle s = HandleGone) \<and>
     (sv_handle s = HandleGone \<longrightarrow> sv_signal s)"

lemma ask_abort_not_Working [simp]: "ask_abort t \<noteq> Working"
  by (cases t) simp_all

lemma loop_step_phases:
  assumes "loop_step a a'"
  shows "ax_phase a \<noteq> Stopped"
    and "ax_phase a' \<in> {Draining, Stopped} \<Longrightarrow> \<not> leaves_loop a a' \<Longrightarrow> ax_phase a \<in> {Draining, Stopped}"
  using assms by (auto simp: leaves_loop_def elim!: loop_stepE)

lemma session_step_phase: "session_step a a' \<Longrightarrow> ax_phase a' = ax_phase a"
  by (auto elim!: session_stepE)

lemma server_inv_proxy: "proxy_step s t \<Longrightarrow> server_inv m s \<Longrightarrow> server_inv m t"
proof (induction rule: proxy_step.induct)
  case (loop s a)
  have "accept_inv m a" using loop(3) accept_inv_step [OF loop_accepts [OF loop(1)]] by (auto simp: server_inv_def)
  moreover have "ax_phase a \<in> {Draining, Stopped} \<longrightarrow> sv_signal s"
    using loop(2,3) loop_step_phases(2) [OF loop(1)] by (auto simp: server_inv_def)
  ultimately show ?case using loop(3) loop_step_phases(1) [OF loop(1)] by (auto simp: server_inv_def)
qed (auto simp: server_inv_def)

lemma server_inv_outside: "outside_step s t \<Longrightarrow> server_inv m s \<Longrightarrow> server_inv m t"
proof (induction rule: outside_step.induct)
  case (session s a)
  have "accept_inv m a" using session accept_inv_step [of "sv_accept s" a m] by (auto simp: server_inv_def accept_step_def)
  with session(2) session_step_phase [OF session(1)] show ?case by (simp add: server_inv_def)
qed (auto simp: server_inv_def call_shutdown_def call_shutdown_graceful_def call_wait_def drop_handle_def)

interpretation srv: transition_system server_step "server_inv m" for m
  by unfold_locales (auto simp: server_step_def dest: server_inv_proxy server_inv_outside)

text \<open>A server being waited for that nobody has told to shut down.\<close>

definition undisturbed :: "server_state \<Rightarrow> bool" where
  "undisturbed s \<longleftrightarrow> \<not> sv_signal s \<and> sv_handle s = Awaiting \<and> sv_supervisor s = Watching \<and>
     ax_phase (sv_accept s) \<in> {Acquiring, Accepting}"

interpretation und: transition_system server_step undisturbed
proof (unfold_locales, goal_cases)
  case (1 s t)
  then show ?case by (auto simp: server_step_def undisturbed_def leaves_loop_def elim!: server_step_elims)
qed

text \<open>A server whose supervisor was aborted: nobody is left to stop the sweeper.\<close>

definition orphaned :: "server_state \<Rightarrow> bool" where
  "orphaned s \<longleftrightarrow> sv_supervisor s = Aborted \<and> sv_handle s = HandleGone \<and> sv_sweeper s = Working"

interpretation orph: transition_system server_step orphaned
  by unfold_locales (auto simp: server_step_def orphaned_def elim!: proxy_stepE outside_stepE)

text \<open>A graceful shutdown under way: the signal is sent and somebody awaits the end, or has returned from that.\<close>

definition closing :: "server_state \<Rightarrow> bool" where
  "closing s \<longleftrightarrow> sv_signal s \<and> sv_handle s \<in> {Awaiting, Returned}"

interpretation cls: transition_system server_step closing
  by unfold_locales (auto simp: server_step_def closing_def elim!: proxy_stepE outside_stepE)

text \<open>Once the loop has been left, all that is still to happen.\<close>

fun task_work :: "task_state \<Rightarrow> nat" where
  "task_work Working = 2"
| "task_work AbortAsked = 1"
| "task_work Gone = 0"

definition server_work :: "server_state \<Rightarrow> nat" where
  "server_work s = drain_work (sv_accept s) + task_work (sv_sweeper s) + task_work (sv_metrics s) +
     (if sv_supervisor s = Watching then 1 else 0) + (if sv_handle s = Awaiting then 1 else 0)"

definition winding_down :: "server_state \<Rightarrow> bool" where
  "winding_down s \<longleftrightarrow> closing s \<and> ax_phase (sv_accept s) \<in> {Draining, Stopped}"

lemma task_work_abort: "task_work (ask_abort t) \<le> task_work t"
  by (cases t) simp_all

lemma drain_work_step:
  "ax_phase a \<in> {Draining, Stopped} \<Longrightarrow> accept_step a a' \<Longrightarrow> drain_work a' < drain_work a \<and> ax_phase a' \<in> {Draining, Stopped}"
  using drain.step_work [of "ax_accepted a" a a'] drain.step_inv [of a a' "ax_accepted a"] by (simp add: closed_at_def)

lemma accept_phase_step:
  "loop_step a a' \<Longrightarrow> ax_phase a \<in> {Draining, Stopped} \<Longrightarrow> ax_phase a' \<in> {Draining, Stopped}"
  "session_step a a' \<Longrightarrow> ax_phase a \<in> {Draining, Stopped} \<Longrightarrow> ax_phase a' \<in> {Draining, Stopped}"
  using drain_work_step [of a a'] by (auto simp: accept_step_def)

interpretation wind: terminating_system server_step winding_down server_work
proof (unfold_locales, goal_cases)
  case (1 s t)
  then have "closing t" using cls.step_inv by (auto simp: winding_down_def)
  moreover have "ax_phase (sv_accept t) \<in> {Draining, Stopped}"
    using 1 by (auto simp: winding_down_def closing_def server_step_def elim!: proxy_stepE outside_stepE dest!: accept_phase_step)
  ultimately show ?case by (simp add: winding_down_def)
next
  case (2 s t)
  then have ph: "ax_phase (sv_accept s) \<in> {Draining, Stopped}" and h: "sv_handle s \<noteq> Held"
    by (auto simp: winding_down_def closing_def)
  from 2(2) show ?case unfolding server_step_def
  proof
    assume "proxy_step s t"
    then show ?thesis using drain_work_step [OF ph] task_work_abort [of "sv_sweeper s"] task_work_abort [of "sv_metrics s"]
      by (auto simp: server_work_def accept_step_def elim!: proxy_stepE)
  next
    assume "outside_step s t"
    then show ?thesis using drain_work_step [OF ph] h by (auto simp: server_work_def accept_step_def elim!: outside_stepE)
  qed
qed

section \<open>Shutting down\<close>

lemma map_sum_Inr: "map_sum id f x = Inr y \<longleftrightarrow> (\<exists>z. x = Inr z \<and> y = f z)"
  by (cases x) auto

lemma serve_Inr:
  assumes "serve net tls p = (Inr ps, bg)"
  shows "bg_sweeper bg" "bg_accept bg" "bg_metrics bg = (proxy_metrics_addr (px_config p) \<noteq> None)"
    "ps_max_client_conn ps = proxy_max_client_conn (px_config p)"
  using assms by (auto simp: serve_def Let_def map_sum_Inr split: sum.splits option.splits)

lemma server_inv_init: "bg_sweeper bg \<Longrightarrow> server_inv (ps_max_client_conn ps) (server_init ps bg)"
  by (simp add: server_inv_def server_init_def accept_inv_def accept_init_def)

lemma server_inv_reachable:
  assumes "serve net tls p = (Inr ps, bg)" "server_steps (server_init ps bg) s"
  shows "server_inv (ps_max_client_conn ps) s"
  using srv.steps_inv [OF assms(2)] server_inv_init [OF serve_Inr(1) [OF assms(1)]] by blast

text \<open>Nothing outside is needed for a graceful shutdown to go on, and the next step leaves the accept loop.\<close>

lemma graceful_progress:
  assumes "server_inv m s" "closing s" "sv_handle s \<noteq> Returned"
  shows "\<exists>u. proxy_step s u \<and> (ax_phase (sv_accept s) \<in> {Acquiring, Accepting} \<longrightarrow> ax_phase (sv_accept u) = Draining)"
proof -
  have sig: "sv_signal s" and await: "sv_handle s = Awaiting" using assms(2,3) by (auto simp: closing_def)
  have leave: ?thesis if "loop_step (sv_accept s) a" "ax_phase a = Draining" for a
    using proxy_step.loop [OF that(1)] sig that(2) by fastforce
  show ?thesis
  proof (cases "ax_phase (sv_accept s)")
    case Acquiring
    from leave [OF loop_step.shutdown_waiting [OF this]] show ?thesis by simp
  next
    case Accepting
    from leave [OF loop_step.shutdown_accepting [OF this]] show ?thesis by simp
  next
    case Draining
    from proxy_step.loop [OF loop_step.drain_timeout [OF this]] Draining show ?thesis by (auto simp: leaves_loop_def)
  next
    case Stopped
    with assms(1) await consider "sv_supervisor s = Watching" | "sv_supervisor s = Finished"
      by (cases "sv_supervisor s") (auto simp: server_inv_def)
    then show ?thesis
      using Stopped proxy_step.supervise [of s] proxy_step.returned [OF await] by cases auto
  qed
qed

lemma after_graceful:
  assumes "serve net tls p = (Inr ps, bg)" "server_steps (server_init ps bg) s" "sv_handle s = Held"
    and "server_steps (call_shutdown_graceful s) s'"
  shows "server_inv (ps_max_client_conn ps) s'" "closing s'"
proof -
  have "server_step s (call_shutdown_graceful s)" using outside_step.graceful [OF assms(3)] by (simp add: server_step_def)
  with server_inv_reachable [OF assms(1,2)] show "server_inv (ps_max_client_conn ps) s'"
    using srv.steps_inv [OF assms(4)] srv.step_inv by blast
  have "closing (call_shutdown_graceful s)" by (simp add: closing_def call_shutdown_graceful_def)
  with assms(4) show "closing s'" by (rule cls.steps_inv)
qed

text \<open>
  Property C34. \<^verbatim>\<open>shutdown_graceful\<close> completes. At every point after the call, whatever clients, sessions and the
  runtime do, the proxy's own tasks can take a step until the call has returned - as long as the accept
  loop runs, the step that leaves it - so the call waits for no session; and once the loop has been left, every
  run is bounded. Whenever the call (or \<^verbatim>\<open>wait\<close>) has returned, the loop has stopped, each session has ended or has been
  told to abort and the latter hold the only slots that are not free, and the sweeper and the metrics task have
  ended or been told to.
\<close>

theorem graceful_shutdown_completes:
  assumes "serve net tls p = (Inr ps, bg)" "server_steps (server_init ps bg) s"
  shows "(sv_handle s = Held \<longrightarrow> (\<forall>s'. server_steps (call_shutdown_graceful s) s' \<longrightarrow>
        (sv_handle s' \<noteq> Returned \<longrightarrow>
          (\<exists>u. proxy_step s' u \<and> (ax_phase (sv_accept s') \<in> {Acquiring, Accepting} \<longrightarrow> ax_phase (sv_accept u) = Draining))) \<and>
        (ax_phase (sv_accept s') \<in> {Draining, Stopped} \<longrightarrow> (\<forall>n u. (server_step ^^ n) s' u \<longrightarrow>
          n \<le> 2 * ax_running (sv_accept s') + ax_finished (sv_accept s') + ax_aborting (sv_accept s') + 7)))) \<and>
    (sv_handle s = Returned \<longrightarrow>
       ax_phase (sv_accept s) = Stopped \<and> ax_running (sv_accept s) = 0 \<and>
       ax_free (sv_accept s) + ax_aborting (sv_accept s) = proxy_max_client_conn (px_config p) \<and>
       sv_sweeper s \<noteq> Working \<and> sv_metrics s \<noteq> Working)"
proof (intro conjI impI allI)
  fix s'
  assume held: "sv_handle s = Held" and run: "server_steps (call_shutdown_graceful s) s'"
  note inv' = after_graceful(1) [OF assms held run] and cls = after_graceful(2) [OF assms held run]
  show "\<exists>u. proxy_step s' u \<and> (ax_phase (sv_accept s') \<in> {Acquiring, Accepting} \<longrightarrow> ax_phase (sv_accept u) = Draining)"
    if "sv_handle s' \<noteq> Returned" using graceful_progress [OF inv' cls that] .
  fix n u
  assume "ax_phase (sv_accept s') \<in> {Draining, Stopped}" "(server_step ^^ n) s' u"
  then have "n \<le> server_work s'" using wind.power_work [of n s' u] cls by (simp add: winding_down_def)
  moreover have "task_work t \<le> 2" for t by (cases t) simp_all
  then have "server_work s' \<le> 2 * ax_running (sv_accept s') + ax_finished (sv_accept s') + ax_aborting (sv_accept s') + 7"
    using add_mono [of "task_work (sv_sweeper s')" 2 "task_work (sv_metrics s')" 2] by (simp add: server_work_def drain_work_def)
  ultimately show "n \<le> 2 * ax_running (sv_accept s') + ax_finished (sv_accept s') + ax_aborting (sv_accept s') + 7" by simp
next
  note inv = server_inv_reachable [OF assms]
  assume "sv_handle s = Returned"
  with inv serve_Inr(4) [OF assms(1)]
  show "ax_phase (sv_accept s) = Stopped" "ax_running (sv_accept s) = 0"
    "ax_free (sv_accept s) + ax_aborting (sv_accept s) = proxy_max_client_conn (px_config p)" "sv_sweeper s \<noteq> Working" "sv_metrics s \<noteq> Working"
    by (auto simp: server_inv_def accept_inv_def)
qed

text \<open>
  Lemma. \<^verbatim>\<open>shutdown\<close> is not what it says. Called on a server whose loop has not stopped, it aborts no
  session - as many run afterwards as before - and what it does abort is the supervisor, so whatever
  happens next the sweeper is never stopped; on a server that nobody calls, \<^verbatim>\<open>run\<close> never returns.
\<close>

theorem abrupt_shutdown_orphans:
  assumes "serve net tls p = (Inr ps, bg)" "server_steps (server_init ps bg) s" "sv_handle s = Held"
    and "ax_phase (sv_accept s) \<noteq> Stopped"
  shows "ax_running (sv_accept (call_shutdown s)) = ax_running (sv_accept s) \<and>
    (\<forall>s'. server_steps (call_shutdown s) s' \<longrightarrow> sv_sweeper s' = Working) \<and>
    (\<forall>s'. server_steps (call_wait (server_init ps bg)) s' \<longrightarrow> sv_handle s' \<noteq> Returned)"
proof -
  have "server_inv (ps_max_client_conn ps) s" using assms(1,2) by (rule server_inv_reachable)
  with assms(4) have "orphaned (call_shutdown s)" by (auto simp: orphaned_def call_shutdown_def server_inv_def)
  then have "\<forall>s'. server_steps (call_shutdown s) s' \<longrightarrow> sv_sweeper s' = Working"
    using orph.steps_inv by (auto simp: orphaned_def)
  moreover have "undisturbed (call_wait (server_init ps bg))"
    by (simp add: undisturbed_def call_wait_def server_init_def accept_init_def)
  then have "\<forall>s'. server_steps (call_wait (server_init ps bg)) s' \<longrightarrow> sv_handle s' \<noteq> Returned"
    using und.steps_inv by (auto simp: undisturbed_def)
  ultimately show ?thesis by (simp add: call_shutdown_def)
qed

text \<open>
  A metrics address that cannot be bound makes \<^verbatim>\<open>serve\<close> fail after it has spawned the sweeper, which then runs
  without a server.
\<close>

lemma failed_serve_leaves_sweeper:
  assumes "serve net tls p = (Inl e, bg)"
  shows "\<not> bg_accept bg \<and> \<not> bg_metrics bg \<and>
    (bg_sweeper bg \<longleftrightarrow>
      (\<exists>l a. no_bind net (listen_addr (px_config p)) = Inr l \<and> no_local_addr net l = Inr a) \<and>
      (\<forall>t. proxy_tls_server (px_config p) = Some t \<longrightarrow> (\<exists>acc. build_tls_acceptor tls t = Inr acc)))"
  using assms by (auto simp: serve_def no_tasks_def Let_def map_sum_Inr split: sum.splits option.splits)

section \<open>Witnesses\<close>

definition sample_net :: net_ops where
  "sample_net = \<lparr>no_bind = (\<lambda>a. Inr a), no_local_addr = (\<lambda>l. Inr l)\<rparr>"

definition sample_tls :: "(unit, unit, unit, unit, unit) tls_ops" where
  "sample_tls =
     \<lparr>to_open = (\<lambda>path. Inl (OsError ''not found'')), to_certs = (\<lambda>d. []), to_pkcs8_keys = (\<lambda>d. []), to_rsa_keys = (\<lambda>d. []),
      to_single_cert = (\<lambda>cs k. Inr ()), to_empty_roots = (), to_add_root = (\<lambda>c r. Some r), to_verify = (\<lambda>r v. True)\<rparr>"

definition sample_proxy :: "unit proxy" where
  "sample_proxy =
     \<lparr>px_config = \<lparr>listen_addr = ''127.0.0.1:6432'', proxy_route = default_route [plain_endpoint ''default'' ''host=db''],
        proxy_pool = pool_config_default, proxy_max_client_conn = 8, proxy_admin_database = None, proxy_metrics_addr = None,
        proxy_tls_server = None, proxy_shutdown_drain = from_secs 30\<rparr>,
      px_interceptor = None\<rparr>"

definition sample_running :: "unit proxy_server \<times> tasks" where
  "sample_running =
     (\<lparr>ps_local_addr = ''127.0.0.1:6432'', ps_metrics_addr = None, ps_tls_acceptor = None, ps_max_client_conn = 8\<rparr>,
      \<lparr>bg_accept = True, bg_sweeper = True, bg_metrics = False\<rparr>)"

lemma sample_serve: "serve sample_net sample_tls sample_proxy = (Inr (fst sample_running), snd sample_running)"
  by (simp add: serve_def sample_net_def sample_proxy_def sample_running_def no_tasks_def Let_def)

theorem graceful_shutdown_completes_witness:
  "\<exists>u. proxy_step (call_shutdown_graceful (server_init (fst sample_running) (snd sample_running))) u \<and> ax_phase (sv_accept u) = Draining"
proof -
  let ?s = "server_init (fst sample_running) (snd sample_running)"
  have "sv_handle ?s = Held" "sv_handle (call_shutdown_graceful ?s) \<noteq> Returned"
    "ax_phase (sv_accept (call_shutdown_graceful ?s)) = Acquiring"
    by (simp_all add: server_init_def call_shutdown_graceful_def accept_init_def)
  with graceful_shutdown_completes [OF sample_serve rtranclp.rtrancl_refl] show ?thesis by (metis insertI1 rtranclp.rtrancl_refl)
qed

theorem abrupt_shutdown_orphans_witness:
  "\<forall>s'. server_steps (call_shutdown (server_init (fst sample_running) (snd sample_running))) s' \<longrightarrow> sv_sweeper s' = Working"
  using abrupt_shutdown_orphans [OF sample_serve rtranclp.rtrancl_refl] by (simp add: server_init_def accept_init_def)

end
