(* ===== verification/Cli.thy ===== *)
theory Cli
  imports Server
begin

text \<open>
  The pgferry binary (src/crates/pgferry-bin/src/main.rs): reading the configuration file, combining it with the
  command line into a proxy through the builder of theory \<open>Proxy\<close>, serving it, and the graceful shutdown on
  a signal. Parsed command line arguments are the record \<open>args\<close>; reading a file, the toml crate's parser
  and the environment are parameters.
\<close>

record args =
  arg_config :: "string option"
  arg_listen :: "string option"
  arg_upstream :: "string option"
  arg_password :: "string option"

record file_server_tls =
  fst_cert :: string
  fst_key :: string

record file_endpoint =
  fe_id :: string
  fe_upstream :: string
  fe_password :: "string option"

record file_route =
  fr_name :: "string option"
  fr_upstream :: "string option"
  fr_endpoints :: "file_endpoint list"
  fr_password :: "string option"
  fr_password_env :: "string option"
  fr_tls_ca :: "string option"
  fr_tls_insecure :: "bool option"

record file_pool =
  fp_mode :: "string option"
  fp_max_size :: "nat option"
  fp_idle_timeout_secs :: "nat option"
  fp_max_lifetime_secs :: "nat option"
  fp_stale_after_secs :: "nat option"
  fp_sweep_interval_secs :: "nat option"

record file_config =
  fc_listen :: string
  fc_max_client_conn :: "nat option"
  fc_admin_database :: "string option"
  fc_metrics_addr :: "string option"
  fc_shutdown_drain_secs :: "nat option"
  fc_server_tls :: "file_server_tls option"
  fc_route :: file_route
  fc_pool :: file_pool

definition file_pool_default :: file_pool where
  "file_pool_default =
     \<lparr>fp_mode = None, fp_max_size = None, fp_idle_timeout_secs = None, fp_max_lifetime_secs = None,
      fp_stale_after_secs = None, fp_sweep_interval_secs = None\<rparr>"

definition or_keep :: "'a option \<Rightarrow> ('a \<Rightarrow> 'b) \<Rightarrow> 'b \<Rightarrow> 'b" where
  "or_keep v f old = (case v of Some x \<Rightarrow> f x | None \<Rightarrow> old)"

definition into_config :: "file_pool \<Rightarrow> pool_config" where
  "into_config f =
     (let c = pool_config_default
      in \<lparr>pool_mode = or_keep (fp_mode f)
            (\<lambda>v. if v = ''session'' then SessionMode else if v = ''transaction'' then TransactionMode else SessionMode) (pool_mode c),
          max_size = or_keep (fp_max_size f) (\<lambda>v. v) (max_size c),
          idle_timeout = or_keep (fp_idle_timeout_secs f) from_secs (idle_timeout c),
          max_lifetime = or_keep (fp_max_lifetime_secs f) from_secs (max_lifetime c),
          stale_after = or_keep (fp_stale_after_secs f) from_secs (stale_after c),
          sweep_interval = or_keep (fp_sweep_interval_secs f) from_secs (sweep_interval c)\<rparr>)"

definition resolve_password :: "(string \<Rightarrow> string option) \<Rightarrow> file_route \<Rightarrow> string option \<Rightarrow> string option" where
  "resolve_password getenv route cli_password =
     (case cli_password of
        Some pw \<Rightarrow> Some pw
      | None \<Rightarrow>
          (case fr_password route of
             Some pw \<Rightarrow> Some pw
           | None \<Rightarrow> (case fr_password_env route of Some var \<Rightarrow> getenv var | None \<Rightarrow> None)))"

definition bind_option :: "'a option \<Rightarrow> ('a \<Rightarrow> 'b option) \<Rightarrow> 'b option" where
  "bind_option v f = (case v of Some x \<Rightarrow> f x | None \<Rightarrow> None)"

definition or_else :: "'a option \<Rightarrow> 'a option \<Rightarrow> 'a option" where
  "or_else a b = (case a of Some x \<Rightarrow> Some x | None \<Rightarrow> b)"

definition main_endpoints :: "string \<Rightarrow> file_route option \<Rightarrow> endpoint_config list" where
  "main_endpoints upstream route =
     (let eps = (case route of
                   None \<Rightarrow> []
                 | Some r \<Rightarrow> map (\<lambda>e. \<lparr>ep_id = fe_id e, ep_upstream = fe_upstream e, ep_password = fe_password e, ep_tls = None\<rparr>)
                              (fr_endpoints r))
      in if eps = [] then eps @ [plain_endpoint ''default'' upstream] else eps)"

definition main_route :: "(string \<Rightarrow> string option) \<Rightarrow> args \<Rightarrow> file_config option \<Rightarrow> route_config" where
  "main_route getenv args file =
     (let r = map_option fc_route file;
          upstream = or_keep (or_else (arg_upstream args) (bind_option r fr_upstream)) (\<lambda>u. u) []
      in \<lparr>route_name = or_keep (bind_option r fr_name) (\<lambda>n. n) ''default'',
          route_endpoints = main_endpoints upstream r,
          route_password = bind_option r (\<lambda>r. resolve_password getenv r (arg_password args)),
          route_tls = \<lparr>tls_ca = bind_option r fr_tls_ca,
            tls_insecure = or_keep (bind_option r fr_tls_insecure) (\<lambda>b. b) False\<rparr>\<rparr>)"

text \<open>The builder calls for the settings that only the file has.\<close>

definition main_options ::
    "(string \<Rightarrow> string + string) \<Rightarrow> file_config option \<Rightarrow> 'c proxy_builder \<Rightarrow> config_error + 'c proxy_builder" where
  "main_options parse_addr file b =
     (let b = (case bind_option file fc_admin_database of Some db \<Rightarrow> with_admin_database db b | None \<Rightarrow> b)
      in case (case bind_option file fc_metrics_addr of Some a \<Rightarrow> with_metrics_addr parse_addr a b | None \<Rightarrow> Inr b) of
           Inl e \<Rightarrow> Inl e
         | Inr b \<Rightarrow>
             (let b = (case bind_option file fc_server_tls of Some t \<Rightarrow> with_tls_server (fst_cert t) (fst_key t) b | None \<Rightarrow> b)
              in Inr (case bind_option file fc_shutdown_drain_secs of Some s \<Rightarrow> with_shutdown_drain (from_secs s) b | None \<Rightarrow> b)))"

text \<open>\<^verbatim>\<open>main\<close> up to the built proxy: the error it exits with, or the proxy it serves.\<close>

datatype main_error =
    CannotRead io_error
  | CannotParse string
  | NoListen
  | BadConfig config_error
  | ServeFailed io_error

definition main_proxy ::
    "(string \<Rightarrow> string + string) \<Rightarrow> (string \<Rightarrow> string option) \<Rightarrow> args \<Rightarrow> file_config option \<Rightarrow> main_error + 'c proxy" where
  "main_proxy parse_addr getenv args file =
     (let max_client_conn = or_keep (bind_option file fc_max_client_conn) (\<lambda>n. n) 128;
          pool = or_keep (map_option fc_pool file) (\<lambda>p. p) file_pool_default
      in case or_else (arg_listen args) (map_option fc_listen file) of
           None \<Rightarrow> Inl NoListen
         | Some listen \<Rightarrow>
             (case with_listen parse_addr listen builder of
                Inl e \<Rightarrow> Inl (BadConfig e)
              | Inr b \<Rightarrow>
                  (case main_options parse_addr file
                          (with_max_client_conn max_client_conn
                            (with_pool_config (into_config pool) (with_route (main_route getenv args file) b))) of
                     Inl e \<Rightarrow> Inl (BadConfig e)
                   | Inr b \<Rightarrow> (case build b of Inl e \<Rightarrow> Inl (BadConfig e) | Inr p \<Rightarrow> Inr p))))"

text \<open>The configuration file, when the command line names one.\<close>

definition main_file ::
    "(string \<Rightarrow> io_error + string) \<Rightarrow> (string \<Rightarrow> string + file_config) \<Rightarrow> args \<Rightarrow> main_error + file_config option" where
  "main_file read_to_string from_str args =
     (case arg_config args of
        None \<Rightarrow> Inr None
      | Some path \<Rightarrow>
          (case read_to_string path of
             Inl e \<Rightarrow> Inl (CannotRead e)
           | Inr text \<Rightarrow> (case from_str text of Inl e \<Rightarrow> Inl (CannotParse e) | Inr f \<Rightarrow> Inr (Some f))))"

text \<open>\<^verbatim>\<open>main\<close> up to the running server, and the tasks that run then.\<close>

definition main_serve ::
    "(string \<Rightarrow> io_error + string) \<Rightarrow> (string \<Rightarrow> string + file_config) \<Rightarrow> (string \<Rightarrow> string + string) \<Rightarrow>
       (string \<Rightarrow> string option) \<Rightarrow> net_ops \<Rightarrow> ('d, 'k, 'r, 'v, 'a) tls_ops \<Rightarrow> args \<Rightarrow>
       (main_error + 'a proxy_server) \<times> tasks" where
  "main_serve read_to_string from_str parse_addr getenv net tls args =
     (case main_file read_to_string from_str args of
        Inl e \<Rightarrow> (Inl e, no_tasks)
      | Inr file \<Rightarrow>
          (case main_proxy parse_addr getenv args file of
             Inl e \<Rightarrow> (Inl e, no_tasks)
           | Inr p \<Rightarrow>
               (case serve net tls (p :: unit proxy) of
                  (Inl e, bg) \<Rightarrow> (Inl (ServeFailed e), bg)
                | (Inr server, bg) \<Rightarrow> (Inr server, bg))))"

text \<open>
  The rest of \<^verbatim>\<open>main\<close>: when the handler for SIGTERM cannot be installed the server is dropped, otherwise the
  first signal shuts it down gracefully.
\<close>

definition main_signal :: "bool \<Rightarrow> server_state \<Rightarrow> server_state" where
  "main_signal installed s = (if installed then call_shutdown_graceful s else drop_handle s)"

section \<open>What the binary runs\<close>

lemma main_endpoints_nonempty: "main_endpoints u r \<noteq> []"
  by (simp add: main_endpoints_def Let_def)

lemma main_options_keeps:
  assumes "main_options parse_addr file b = Inr b'"
  shows "pb_listen_addr b' = pb_listen_addr b" "pb_route b' = pb_route b" "pb_pool_config b' = pb_pool_config b"
    "pb_interceptor b' = pb_interceptor b" "pb_max_client_conn b' = pb_max_client_conn b"
  using assms
  by (auto simp: main_options_def with_admin_database_def with_metrics_addr_def with_tls_server_def with_shutdown_drain_def Let_def
      split: option.splits sum.splits)

lemma build_Inr:
  assumes "build b = Inr p"
  shows "pb_listen_addr b = Some (listen_addr (px_config p))" "pb_route b = Some (proxy_route (px_config p))"
    "pb_pool_config b = Some c \<Longrightarrow> proxy_pool (px_config p) = c"
    "pb_interceptor b = None \<Longrightarrow> px_interceptor p \<noteq> None \<longleftrightarrow> length (route_endpoints (proxy_route (px_config p))) > 1"
  using assms by (auto simp: build_def Let_def split: option.splits if_splits)

lemma main_proxy_builds:
  assumes "main_proxy parse_addr getenv args file = Inr p"
  shows "proxy_route (px_config p) = main_route getenv args file"
    and "proxy_pool (px_config p) = into_config (or_keep (map_option fc_pool file) (\<lambda>p. p) file_pool_default)"
    and "\<exists>l. or_else (arg_listen args) (map_option fc_listen file) = Some l \<and> parse_addr l = Inr (listen_addr (px_config p))"
    and "px_interceptor p \<noteq> None \<longleftrightarrow> length (route_endpoints (main_route getenv args file)) > 1"
proof -
  obtain l b b' where l: "or_else (arg_listen args) (map_option fc_listen file) = Some l"
    and b: "with_listen parse_addr l builder = Inr b"
    and b': "main_options parse_addr file
       (with_max_client_conn (or_keep (bind_option file fc_max_client_conn) (\<lambda>n. n) 128)
         (with_pool_config (into_config (or_keep (map_option fc_pool file) (\<lambda>p. p) file_pool_default))
           (with_route (main_route getenv args file) b))) = Inr b'"
    and p: "build b' = Inr p"
    using assms unfolding main_proxy_def Let_def by (auto split: option.splits sum.splits)
  note keep = main_options_keeps [OF b', unfolded with_max_client_conn_def with_pool_config_def with_route_def, simplified]
  obtain a where a: "parse_addr l = Inr a" "pb_listen_addr b = Some a" "pb_interceptor b = None"
    using b by (auto simp: with_listen_def builder_def split: sum.splits)
  show route: "proxy_route (px_config p) = main_route getenv args file" using build_Inr(2) [OF p] keep(2) by simp
  show "proxy_pool (px_config p) = into_config (or_keep (map_option fc_pool file) (\<lambda>p. p) file_pool_default)"
    using build_Inr(3) [OF p keep(3)] by simp
  show "\<exists>l. or_else (arg_listen args) (map_option fc_listen file) = Some l \<and> parse_addr l = Inr (listen_addr (px_config p))"
    using l a build_Inr(1) [OF p] keep(1) by simp
  show "px_interceptor p \<noteq> None \<longleftrightarrow> length (route_endpoints (main_route getenv args file)) > 1"
    using build_Inr(4) [OF p] keep(4) a(3) route by simp
qed

text \<open>
  Lemma. What the binary runs with. It starts only with a listen address, the command line's before
  the file's; the route has at least one endpoint, the file's if it names any (the command line's
  upstream is then unused) and else one endpoint with the command line's upstream before the file's; the
  failover router runs exactly when there are several; and the upstream password is, in this order, the
  command line's, the file's, the environment variable's - but without a file there is none, whatever
  the command line says.
\<close>

theorem main_precedence:
  assumes "main_proxy parse_addr getenv args file = Inr p"
  shows "(\<exists>l. or_else (arg_listen args) (map_option fc_listen file) = Some l \<and> parse_addr l = Inr (listen_addr (px_config p))) \<and>
    (let r = proxy_route (px_config p); eps = route_endpoints r in
       eps \<noteq> [] \<and>
       (\<forall>f. file = Some f \<and> fr_endpoints (fc_route f) \<noteq> [] \<longrightarrow> map ep_id eps = map fe_id (fr_endpoints (fc_route f))) \<and>
       ((file = None \<or> fr_endpoints (fc_route (the file)) = []) \<longrightarrow>
          eps = [plain_endpoint ''default'' (case (arg_upstream args, file) of
            (Some u, _) \<Rightarrow> u | (None, Some f) \<Rightarrow> (case fr_upstream (fc_route f) of Some u \<Rightarrow> u | None \<Rightarrow> []) | (None, None) \<Rightarrow> [])]) \<and>
       (px_interceptor p \<noteq> None \<longleftrightarrow> length eps > 1) \<and>
       (case file of
          None \<Rightarrow> route_password r = None
        | Some f \<Rightarrow> route_password r =
            or_else (arg_password args) (or_else (fr_password (fc_route f)) (bind_option (fr_password_env (fc_route f)) getenv))))"
proof -
  note mp = main_proxy_builds [OF assms]
  have i: "px_interceptor p \<noteq> None \<longleftrightarrow> length (route_endpoints (proxy_route (px_config p))) > 1"
    unfolding mp(1) by (rule mp(4))
  have pw: "case file of
      None \<Rightarrow> route_password (proxy_route (px_config p)) = None
    | Some f \<Rightarrow> route_password (proxy_route (px_config p)) =
        or_else (arg_password args) (or_else (fr_password (fc_route f)) (bind_option (fr_password_env (fc_route f)) getenv))"
    unfolding mp(1)
    by (simp add: main_route_def Let_def bind_option_def resolve_password_def or_else_def split: option.splits)
  have "route_endpoints (proxy_route (px_config p)) \<noteq> []"
    unfolding mp(1) by (simp add: main_route_def main_endpoints_nonempty Let_def)
  moreover have "map ep_id (route_endpoints (proxy_route (px_config p))) = map fe_id (fr_endpoints (fc_route f))"
    if "file = Some f" "fr_endpoints (fc_route f) \<noteq> []" for f
    unfolding mp(1) using that by (simp add: main_route_def main_endpoints_def Let_def)
  moreover have "route_endpoints (proxy_route (px_config p)) = [plain_endpoint ''default'' (case (arg_upstream args, file) of
      (Some u, _) \<Rightarrow> u | (None, Some f) \<Rightarrow> (case fr_upstream (fc_route f) of Some u \<Rightarrow> u | None \<Rightarrow> []) | (None, None) \<Rightarrow> [])]"
    if "file = None \<or> fr_endpoints (fc_route (the file)) = []"
    unfolding mp(1) using that
    by (auto simp: main_route_def main_endpoints_def Let_def or_else_def bind_option_def or_keep_def split: option.splits)
  ultimately show ?thesis using mp(3) i pw by (simp add: Let_def)
qed

definition sample_main :: "main_error + unit proxy" where
  "sample_main = main_proxy (\<lambda>a. Inr a) (\<lambda>v. None)
     \<lparr>arg_config = None, arg_listen = Some ''127.0.0.1:6432'', arg_upstream = Some ''host=db'', arg_password = Some ''secret''\<rparr> None"

theorem main_precedence_witness:
  "\<exists>p. sample_main = Inr p \<and> route_password (proxy_route (px_config p)) = None \<and>
     map ep_upstream (route_endpoints (proxy_route (px_config p))) = [''host=db'']"
proof -
  obtain p where p: "sample_main = Inr p"
    by (simp add: sample_main_def main_proxy_def or_else_def bind_option_def with_listen_def main_options_def build_def Let_def
        with_max_client_conn_def with_pool_config_def with_route_def)
  from main_precedence [OF p [unfolded sample_main_def]]
  have "route_password (proxy_route (px_config p)) = None" "route_endpoints (proxy_route (px_config p)) = [plain_endpoint ''default'' ''host=db'']"
    by (simp_all add: Let_def)
  with p show ?thesis by (intro exI [of _ p]) (simp add: plain_endpoint_def)
qed

text \<open>
  Settings left out of the file's pool section keep the library's defaults, and an unknown mode falls
  back to session pooling.
\<close>

lemma into_config_default: "into_config file_pool_default = pool_config_default"
  by (simp add: into_config_def file_pool_default_def or_keep_def Let_def)

lemma into_config_mode:
  "pool_mode (into_config f) = TransactionMode \<longleftrightarrow> fp_mode f = Some ''transaction''"
  by (simp add: into_config_def or_keep_def pool_config_default_def Let_def split: option.splits)

text \<open>
  Lemma. The whole life of the binary: when it serves, the configuration was read and gave a proxy, and after a signal
  that arrives at any later moment the proxy's own tasks can go on until \<^verbatim>\<open>main\<close> returns.
\<close>

lemma main_signal_stops:
  assumes "main_serve read_to_string from_str parse_addr getenv net tls args = (Inr ps, bg)"
    and "server_steps (server_init ps bg) s" "sv_handle s = Held"
  shows "server_steps (main_signal True s) s' \<Longrightarrow> sv_handle s' \<noteq> Returned \<Longrightarrow> \<exists>u. proxy_step s' u"
    and "\<exists>file. main_file read_to_string from_str args = Inr file \<and>
      (\<exists>l. or_else (arg_listen args) (map_option fc_listen file) = Some l)"
proof -
  from assms(1) obtain fc p where f: "main_file read_to_string from_str args = Inr fc"
    and p: "main_proxy parse_addr getenv args fc = Inr (p :: unit proxy)" and s: "serve net tls p = (Inr ps, bg)"
    by (auto simp: main_serve_def split: sum.splits prod.splits)
  show "\<exists>u. proxy_step s' u" if "server_steps (main_signal True s) s'" "sv_handle s' \<noteq> Returned"
    using after_graceful [OF s assms(2,3)] graceful_progress that by (fastforce simp: main_signal_def)
  show "\<exists>file. main_file read_to_string from_str args = Inr file \<and>
      (\<exists>l. or_else (arg_listen args) (map_option fc_listen file) = Some l)"
    using f main_proxy_builds(3) [OF p] by auto
qed

end
