(* ===== verification/Builtin.thy ===== *)
theory Builtin
  imports Intercept
begin

text \<open>
  The helpers a gateway can call from its hooks (src/crates/pgferry/src/intercept/builtin.rs): deny list,
  rewrite rule and audit log. Regular expressions are the regex crate's: compiling, matching and
  replacing are the parameter \<open>regex_ops\<close>. Building a helper from an invalid pattern panics.
\<close>

record 'r regex_ops =
  rx_new :: "string \<Rightarrow> 'r option"
  rx_is_match :: "'r \<Rightarrow> string \<Rightarrow> bool"
  rx_replace_all :: "'r \<Rightarrow> string \<Rightarrow> string \<Rightarrow> string"

section \<open>Deny list\<close>

record 'r deny_list =
  dl_patterns :: "'r list"
  dl_code :: string
  dl_message :: string

definition deny_new :: "'r regex_ops \<Rightarrow> string list \<Rightarrow> 'r deny_list outcome" where
  "deny_new ops patterns =
     (case those (map (\<lambda>p. rx_new ops (''(?is)^'' @ p)) patterns) of
        None \<Rightarrow> Panic
      | Some rs \<Rightarrow> Ret \<lparr>dl_patterns = rs, dl_code = ''42501'', dl_message = ''insufficient privilege (pgferry deny-list)''\<rparr>)"

definition deny_with_message :: "string \<Rightarrow> string \<Rightarrow> 'r deny_list \<Rightarrow> 'r deny_list" where
  "deny_with_message c m d = d\<lparr>dl_code := c, dl_message := m\<rparr>"

definition deny_check :: "'r regex_ops \<Rightarrow> 'r deny_list \<Rightarrow> string \<Rightarrow> error_info option" where
  "deny_check ops d sql =
     (if list_ex (\<lambda>p. rx_is_match ops p sql) (dl_patterns d)
      then Some (error_info_new ''ERROR'' (dl_code d) (dl_message d)) else None)"

section \<open>Rewrite\<close>

record 'r rewrite_rule =
  rw_pattern :: 'r
  rw_replacement :: string

definition rewrite_new :: "'r regex_ops \<Rightarrow> string \<Rightarrow> string \<Rightarrow> 'r rewrite_rule outcome" where
  "rewrite_new ops pattern replacement =
     (case rx_new ops pattern of
        None \<Rightarrow> Panic
      | Some r \<Rightarrow> Ret \<lparr>rw_pattern = r, rw_replacement = replacement\<rparr>)"

definition rewrite_sql :: "'r regex_ops \<Rightarrow> 'r rewrite_rule \<Rightarrow> string \<Rightarrow> string option" where
  "rewrite_sql ops rw sql =
     (if rx_is_match ops (rw_pattern rw) sql
      then Some (rx_replace_all ops (rw_pattern rw) sql (rw_replacement rw)) else None)"

section \<open>Audit\<close>

record audit =
  au_cycles :: u64
  au_errors :: u64
  au_rows :: u64
  au_latency_total_us :: u64
  au_recent :: "cycle_report list"

definition audit_new :: audit where
  "audit_new = \<lparr>au_cycles = 0, au_errors = 0, au_rows = 0, au_latency_total_us = 0, au_recent = []\<rparr>"

definition as_micros :: "duration \<Rightarrow> nat" where
  "as_micros d = d div 1000"

definition audit_record :: "cycle_report \<Rightarrow> audit \<Rightarrow> audit" where
  "audit_record report a =
     (let a = a\<lparr>au_cycles := au_cycles a + 1\<rparr>;
          a = (if rep_error report \<noteq> None then a\<lparr>au_errors := au_errors a + 1\<rparr> else a);
          a = a\<lparr>au_rows := au_rows a + rep_rows report\<rparr>;
          a = a\<lparr>au_latency_total_us := au_latency_total_us a + of_nat (as_micros (rep_latency report))\<rparr>;
          recent = au_recent a @ [report];
          len = length recent
      in a\<lparr>au_recent := (if len > 128 then drop (len - 128) recent else recent)\<rparr>)"

section \<open>Laws\<close>

lemma audit_record_fields:
  "au_cycles (audit_record r a) = au_cycles a + 1"
  "au_errors (audit_record r a) = au_errors a + (if rep_error r \<noteq> None then 1 else 0)"
  "au_rows (audit_record r a) = au_rows a + rep_rows r"
  "au_latency_total_us (audit_record r a) = au_latency_total_us a + of_nat (as_micros (rep_latency r))"
  "au_recent (audit_record r a) = drop (Suc (length (au_recent a)) - 128) (au_recent a @ [r])"
  by (simp_all add: audit_record_def Let_def)

lemma those_map_Some: "those (map f xs) = Some ys \<longleftrightarrow> map f xs = map Some ys"
  by (induction xs arbitrary: ys) (auto split: option.splits simp: Cons_eq_map_conv)

lemma those_map_None: "those (map f xs) = None \<longleftrightarrow> (\<exists>x\<in>set xs. f x = None)"
  by (induction xs) (auto split: option.splits)

lemma deny_check_new:
  assumes "deny_new ops patterns = Ret d"
  shows "deny_check ops d sql =
     (if \<exists>p\<in>set patterns. \<exists>r. rx_new ops (''(?is)^'' @ p) = Some r \<and> rx_is_match ops r sql
      then Some (error_info_new ''ERROR'' ''42501'' ''insufficient privilege (pgferry deny-list)'') else None)"
proof -
  let ?f = "\<lambda>p. rx_new ops (''(?is)^'' @ p)"
  obtain rs where rs: "map ?f patterns = map Some rs" and d: "dl_patterns d = rs" "dl_code d = ''42501''"
    "dl_message d = ''insufficient privilege (pgferry deny-list)''"
    using assms unfolding deny_new_def by (auto split: option.splits simp: those_map_Some)
  have "list_ex (\<lambda>p. rx_is_match ops p sql) rs \<longleftrightarrow> (\<exists>r. Some r \<in> set (map Some rs) \<and> rx_is_match ops r sql)"
    by (auto simp: list_ex_iff)
  also have "\<dots> \<longleftrightarrow> (\<exists>p\<in>set patterns. \<exists>r. ?f p = Some r \<and> rx_is_match ops r sql)"
    unfolding rs [symmetric] by force
  finally show ?thesis using d by (simp add: deny_check_def)
qed

text \<open>
  Lemma. The audit log after any number of cycles: the counters are the exact totals over the whole
  history (modulo their 64 bits), failed cycles counted once, and the log holds the last 128 reports in
  order - all of them while there are no more than that.
\<close>

theorem audit_totals:
  fixes reports
  defines "a \<equiv> fold audit_record reports audit_new"
  shows "au_cycles a = of_nat (length reports) \<and>
    au_errors a = of_nat (length (filter (\<lambda>r. rep_error r \<noteq> None) reports)) \<and>
    au_rows a = sum_list (map rep_rows reports) \<and>
    au_latency_total_us a = of_nat (sum_list (map (\<lambda>r. as_micros (rep_latency r)) reports)) \<and>
    au_recent a = drop (length reports - 128) reports"
  unfolding a_def
proof (induction reports rule: rev_induct)
  case Nil
  then show ?case by (simp add: audit_new_def)
next
  case (snoc r rs)
  have "length rs - (length rs - 128 + 127) + (length rs - 128) = length rs - 127" by linarith
  with snoc show ?case by (simp add: audit_record_fields)
qed

text \<open>
  Lemma. A deny list refuses exactly the statements that one of its patterns, anchored at the start
  and compiled case-insensitively, matches; the refusal is SQLSTATE 42501; and building the list panics
  exactly when a pattern does not compile.
\<close>

theorem deny_list_spec:
  "(deny_new ops patterns = Panic \<longleftrightarrow> (\<exists>p\<in>set patterns. rx_new ops (''(?is)^'' @ p) = None)) \<and>
   (\<forall>d. deny_new ops patterns = Ret d \<longrightarrow>
      (\<forall>sql. deny_check ops d sql =
         (if \<exists>p\<in>set patterns. \<exists>r. rx_new ops (''(?is)^'' @ p) = Some r \<and> rx_is_match ops r sql
          then Some (error_info_new ''ERROR'' ''42501'' ''insufficient privilege (pgferry deny-list)'') else None)))"
proof (intro conjI allI impI)
  show "deny_new ops patterns = Panic \<longleftrightarrow> (\<exists>p\<in>set patterns. rx_new ops (''(?is)^'' @ p) = None)"
    unfolding deny_new_def by (auto split: option.splits simp: those_map_None those_map_Some simp flip: those_map_None)
qed (rule deny_check_new)

definition prefix_regex :: "string regex_ops" where
  "prefix_regex =
     \<lparr>rx_new = (\<lambda>p. strip_prefix ''(?is)^'' p),
      rx_is_match = (\<lambda>p s. strip_prefix p s \<noteq> None),
      rx_replace_all = (\<lambda>p s r. case strip_prefix p s of None \<Rightarrow> s | Some t \<Rightarrow> r @ t)\<rparr>"

theorem deny_list_spec_witness:
  "\<exists>d. deny_new prefix_regex [''drop''] = Ret d \<and>
     deny_check prefix_regex d ''drop table t'' =
       Some (error_info_new ''ERROR'' ''42501'' ''insufficient privilege (pgferry deny-list)'') \<and>
     deny_check prefix_regex d ''select 1'' = None"
proof -
  obtain d where d: "deny_new prefix_regex [''drop''] = Ret d" by (simp add: deny_new_def prefix_regex_def)
  with deny_list_spec [of prefix_regex "[''drop'']"]
  have "deny_check prefix_regex d sql =
     (if strip_prefix ''drop'' sql \<noteq> None
      then Some (error_info_new ''ERROR'' ''42501'' ''insufficient privilege (pgferry deny-list)'') else None)" for sql
    by (simp add: prefix_regex_def)
  then show ?thesis using d by simp
qed

end
