(* ===== verification/Scatter_Laws.thy ===== *)
theory Scatter_Laws
  imports Ledger "HOL-Library.Multiset"
begin

text \<open>
  What a scatter request gives its client, and what it does to the pools: every leg runs exactly once and
  succeeds or the request fails; the merge policies; permits.
\<close>

section \<open>Merging rows\<close>

fun is_row :: "backend_msg \<Rightarrow> bool" where
  "is_row (BDataRow _) = True"
| "is_row _ = False"

fun is_schema :: "backend_msg \<Rightarrow> bool" where
  "is_schema (BRowDescription _) = True"
| "is_schema _ = False"

fun rows_of :: "backend_msg list \<Rightarrow> data_row list" where
  "rows_of [] = []"
| "rows_of (BDataRow r # ms) = r # rows_of ms"
| "rows_of (_ # ms) = rows_of ms"

lemma rows_of_append [simp]: "rows_of (xs @ ys) = rows_of xs @ rows_of ys"
  by (induction xs rule: rows_of.induct) auto

text \<open>A result set is well formed when its rows come after its schema.\<close>

definition schema_first :: "backend_msg list \<Rightarrow> bool" where
  "schema_first ms \<longleftrightarrow> (case dropWhile (\<lambda>m. \<not> is_row m \<and> \<not> is_schema m) ms of [] \<Rightarrow> True | m # _ \<Rightarrow> is_schema m)"

lemma concat_rows_written: "concat_rows True ms = map BDataRow (rows_of ms)"
  by (induction ms rule: rows_of.induct) auto

lemma concat_rows_shape:
  "schema_first ms \<Longrightarrow>
     concat_rows False ms = (case List.find is_schema ms of None \<Rightarrow> [] | Some s \<Rightarrow> [s]) @ map BDataRow (rows_of ms)"
proof (induction ms)
  case (Cons m ms)
  show ?case
  proof (cases "is_row m \<or> is_schema m")
    case True
    with Cons.prems have "is_schema m" by (auto simp: schema_first_def split: if_splits)
    then show ?thesis by (cases m) (simp_all add: concat_rows_written)
  next
    case False
    with Cons.prems have "schema_first ms" by (simp add: schema_first_def)
    with Cons.IH False show ?thesis by (cases m) simp_all
  qed
qed simp

lemma concat_rows_rows: "rows_of (concat_rows b ms) = rows_of ms"
  by (induction b ms rule: concat_rows.induct) (auto split: backend_msg.splits)

section \<open>Sums\<close>

fun parsed_rows :: "data_row list \<Rightarrow> int list option outcome" where
  "parsed_rows [] = Ret (Some [])"
| "parsed_rows (r # rs) =
     (case first_column_i128 r of
        Panic \<Rightarrow> Panic
      | Ret None \<Rightarrow> Ret None
      | Ret (Some v) \<Rightarrow>
          (case parsed_rows rs of
             Ret (Some vs) \<Rightarrow> Ret (Some (v # vs))
           | x \<Rightarrow> x))"

definition first_schema :: "backend_msg option \<Rightarrow> backend_msg list \<Rightarrow> backend_msg option" where
  "first_schema s ms = (case s of Some x \<Rightarrow> Some x | None \<Rightarrow> List.find is_schema ms)"

lemma wrap_i128_add: "wrap_i128 (wrap_i128 a + b) = wrap_i128 (a + b)"
proof -
  have "(wrap_i128 a + b + 2 ^ 127) mod 2 ^ 128 = (a + b + 2 ^ 127) mod 2 ^ 128"
    unfolding wrap_i128_def by (simp add: mod_simps algebra_simps)
  then show ?thesis by (simp only: wrap_i128_def)
qed

lemma wrap_i128_id: "- (2 ^ 127) \<le> v \<Longrightarrow> v < 2 ^ 127 \<Longrightarrow> wrap_i128 v = v"
  by (simp add: wrap_i128_def)

lemma wrap_i128_range: "- (2 ^ 127) \<le> wrap_i128 v \<and> wrap_i128 v < 2 ^ 127"
proof -
  have "0 \<le> (v + 2 ^ 127) mod 2 ^ 128 \<and> (v + 2 ^ 127) mod 2 ^ 128 < (2 ^ 128 :: int)" by simp
  then show ?thesis by (simp add: wrap_i128_def)
qed

lemma sum_rows_parsed:
  "wrap_i128 t = t \<Longrightarrow>
     sum_rows ms t s =
       (case parsed_rows (rows_of ms) of
          Panic \<Rightarrow> Panic
        | Ret None \<Rightarrow> Ret None
        | Ret (Some vs) \<Rightarrow> Ret (Some (wrap_i128 (t + sum_list vs), first_schema s ms)))"
proof (induction ms arbitrary: t s)
  case Nil
  then show ?case by (simp add: first_schema_def split: option.splits)
next
  case (Cons m ms)
  have w: "wrap_i128 (wrap_i128 x) = wrap_i128 x" for x using wrap_i128_add [of x 0] by simp
  show ?case
  proof (cases m)
    case (BDataRow row)
    then have f: "first_schema s (m # ms) = first_schema s ms" by (simp add: first_schema_def split: option.splits)
    show ?thesis
    proof (cases "first_column_i128 row")
      case (Ret v)
      show ?thesis
      proof (cases v)
        case (Some x)
        have "sum_rows (m # ms) t s = sum_rows ms (wrap_i128 (t + x)) s" using BDataRow Ret Some by simp
        with Cons.IH [OF w, of "t + x" s] Ret Some BDataRow f show ?thesis
          by (auto simp: wrap_i128_add add.assoc split: outcome.splits option.splits)
      qed (use BDataRow Ret in simp)
    qed (use BDataRow in simp)
  next
    case (BRowDescription rd)
    have "first_schema (case s of None \<Rightarrow> Some (BRowDescription rd) | Some s \<Rightarrow> Some s) ms = first_schema s (BRowDescription rd # ms)"
      by (simp add: first_schema_def split: option.splits)
    with Cons.IH [OF Cons.prems] BRowDescription show ?thesis by (simp split: outcome.splits option.splits)
  qed (use Cons.IH [OF Cons.prems] in \<open>simp add: first_schema_def split: outcome.splits option.splits\<close>)+
qed

text \<open>The row a sum is answered with reads back as that sum.\<close>

lemma length_show_nat: "n < 10 ^ k \<Longrightarrow> k > 0 \<Longrightarrow> length (show_nat n) \<le> k"
proof (induction k arbitrary: n)
  case (Suc k)
  show ?case
  proof (cases "n < 10")
    case True
    then show ?thesis by (simp add: show_nat.simps [of n])
  next
    case False
    with Suc.prems have "k > 0" by (cases k) auto
    moreover have "n div 10 < 10 ^ k" using Suc.prems(1) by (simp add: less_mult_imp_div_less mult.commute)
    ultimately have "length (show_nat (n div 10)) \<le> k" using Suc.IH by blast
    with False show ?thesis by (simp add: show_nat.simps [of n])
  qed
qed simp

lemma i128_small: "- (2 ^ 127) \<le> v \<Longrightarrow> v < 2 ^ 127 \<Longrightarrow> length (show_int v) \<le> 40" for v :: int
proof -
  assume v: "- (2 ^ 127) \<le> v" "v < 2 ^ 127"
  have "(2::nat) ^ 127 < 10 ^ 39" by simp
  with v have "nat \<bar>v\<bar> < 10 ^ 39" by (simp add: nat_less_iff)
  with length_show_nat [of "nat \<bar>v\<bar>" 39] show ?thesis by (auto simp: show_int_def)
qed

lemma bytes_str_bytes: "bytes_str (str_bytes s) = s"
proof -
  have "char_of (unat (of_nat (of_char c) :: u8)) = c" for c :: char
    by (simp add: unat_of_nat char_of_mod_256)
  then show ?thesis by (simp add: bytes_str_def str_bytes_def comp_def)
qed

lemma show_int_chars: "c \<in> set (show_int v) \<Longrightarrow> is_ascii_digit c \<or> c = CHR ''-''"
  using show_nat_digits by (auto simp: show_int_def list_all_iff split: if_splits)

lemma ascii_valid: "list_all (\<lambda>c. (of_char c :: nat) < 128) s \<Longrightarrow> valid_utf8 (str_bytes s)"
  by (induction s) (auto simp: str_bytes_def u8_in_def unat_of_nat)

lemma trim_no_ws: "list_all (\<lambda>c. \<not> is_ws c) s \<Longrightarrow> trim s = s"
proof -
  have id: "list_all (\<lambda>c. \<not> is_ws c) t \<Longrightarrow> dropWhile is_ws t = t" for t by (cases t) auto
  assume "list_all (\<lambda>c. \<not> is_ws c) s"
  then show ?thesis using id [of s] id [of "rev s"] by (simp add: trim_def trim_start_def trim_end_def list_all_iff)
qed

lemma parse_show_i128:
  assumes "- (2 ^ 127) \<le> v" "v < 2 ^ 127"
  shows "parse_i128 (show_int v) = Some v"
proof (cases "v < 0")
  case True
  with assms show ?thesis by (simp add: parse_i128_def show_int_def parse_nat_show_nat)
next
  case False
  obtain c cs where s: "show_nat (nat v) = c # cs" by (cases "show_nat (nat v)") auto
  then have "is_ascii_digit c" using show_nat_digits [of "nat v"] by simp
  then have "c \<noteq> CHR ''-''" "c \<noteq> CHR ''+''" by (auto simp: is_ascii_digit_def)
  with False assms s parse_nat_show_nat [of "nat v"] show ?thesis by (simp add: parse_i128_def show_int_def)
qed

lemma sum_row_parses:
  assumes "- (2 ^ 127) \<le> v" "v < 2 ^ 127"
  shows "first_column_i128 (sum_row v) = Ret (Some v)"
proof -
  let ?t = "str_bytes (show_int v)"
  have len: "length ?t < 2 ^ 31" using i128_small [OF assms] by (simp add: str_bytes_def)
  have ascii: "(of_char c :: nat) < 128 \<and> \<not> is_ws c" if "c \<in> set (show_int v)" for c
    using show_int_chars [OF that] by (auto simp: is_ascii_digit_def is_ws_def)
  then have "valid_utf8 ?t" "trim (show_int v) = show_int v"
    by (auto intro!: ascii_valid trim_no_ws simp: list_all_iff)
  with parse_show_i128 [OF assms] len show ?thesis
    by (simp add: first_column_i128_def sum_row_def Let_def sint_of_nat_small unat_of_nat_small bytes_str_bytes)
qed

section \<open>Every leg answers\<close>

lemma collect_items_rows:
  "co_rows acc = of_nat (length (rows_of (co_messages acc))) \<Longrightarrow> collect_items cod items acc c = (Some co, c') \<Longrightarrow>
     co_rows co = of_nat (length (rows_of (co_messages co)))"
proof (induction cod items acc c rule: collect_items.induct)
  case (3 cod m items acc c)
  then show ?case by (cases m) simp_all
qed (auto split: if_splits)

lemma run_query_collect_rows:
  "run_query_collect ops cod sql c = (Some co, c') \<Longrightarrow> co_rows co = of_nat (length (rows_of (co_messages co)))"
  using collect_items_rows [of collected_new cod]
  by (auto simp: run_query_collect_def collected_new_def split: prod.splits option.splits)

text \<open>
  One complete query cycle on connection \<open>c\<close>: the statement is sent once, what is then on the connection up to the first
  ReadyForQuery holds no error, \<open>ms\<close> is all of it but the parameter reports (\<open>dirty\<close> says whether there were any), and \<open>c'\<close> is the
  connection after reading it.
\<close>

fun answer_msg :: "backend_msg \<Rightarrow> bool" where
  "answer_msg (BReadyForQuery st) = False"
| "answer_msg (BErrorResponse er) = False"
| "answer_msg m = True"

fun is_report :: "backend_msg \<Rightarrow> bool" where
  "is_report (BParameterStatus k v) = True"
| "is_report m = False"

definition query_cycle_done :: "'s client_ops \<Rightarrow> string \<Rightarrow> 's conn \<Rightarrow> backend_msg list \<Rightarrow> bool \<Rightarrow> 's conn \<Rightarrow> bool" where
  "query_cycle_done ops sql c ms dirty c' \<longleftrightarrow>
     (\<exists>c1 got st. conn_send ops (FQuery sql) c = (None, c1) \<and>
        inbox c1 = map RMsg got @ RMsg (BReadyForQuery st) # inbox c' \<and> list_all answer_msg got \<and>
        ms = filter (\<lambda>m. \<not> is_report m) got \<and> dirty = list_ex is_report got \<and>
        wire c' = wire c1 \<and> transaction_status c' = st)"

lemma collect_items_error: "co_error acc \<noteq> None \<Longrightarrow> collect_items cod items acc c = (Some co, c') \<Longrightarrow> co_error co \<noteq> None"
proof (induction cod items acc c rule: collect_items.induct)
  case (3 cod m items acc c)
  then show ?case by (cases m) auto
qed (auto split: if_splits)

lemma collect_items_done:
  assumes "collect_items cod items acc c = (Some co, c')" "co_error co = None" "\<not> co_broken co"
  shows "\<exists>got st. items = map RMsg got @ RMsg (BReadyForQuery st) # inbox c' \<and> list_all answer_msg got \<and>
     co_messages co = co_messages acc @ filter (\<lambda>m. \<not> is_report m) got \<and> co_dirty co = (co_dirty acc \<or> list_ex is_report got) \<and>
     wire c' = wire c \<and> transaction_status c' = st"
  using assms
proof (induction items arbitrary: acc c)
  case (Cons i items)
  show ?case
  proof (cases "\<exists>m. i = RMsg m \<and> answer_msg m")
    case True
    then obtain m where m: "i = RMsg m" "answer_msg m" by blast
    then obtain acc1 c1 where step: "collect_items cod (i # items) acc c = collect_items cod items acc1 c1"
      "co_messages acc1 = co_messages acc @ (if is_report m then [] else [m])" "co_dirty acc1 = (co_dirty acc \<or> is_report m)" "wire c1 = wire c"
      by (cases m) (auto simp: set_server_parameter_def)
    from Cons.IH [of acc1 c1] Cons.prems step(1) obtain got st where
      "items = map RMsg got @ RMsg (BReadyForQuery st) # inbox c'" "list_all answer_msg got"
      "co_messages co = co_messages acc1 @ filter (\<lambda>m. \<not> is_report m) got" "co_dirty co = (co_dirty acc1 \<or> list_ex is_report got)"
      "wire c' = wire c1" "transaction_status c' = st" by auto
    with step m show ?thesis by (intro exI [of _ "m # got"] exI [of _ st]) auto
  next
    case False
    have err: "i \<noteq> RMsg (BErrorResponse er)" for er
      using Cons.prems collect_items_error [of "acc\<lparr>co_error := Some (err_from cod er)\<rparr>" cod items c co c'] by auto
    with False Cons.prems obtain st where "i = RMsg (BReadyForQuery st)"
      by (cases i) (auto elim: answer_msg.elims)
    with Cons.prems show ?thesis by (intro exI [of _ "[]"]) (auto simp: set_transaction_status_def)
  qed
qed (auto split: if_splits)

lemma run_query_collect_done:
  assumes "run_query_collect ops cod sql c = (Some co, c')" "co_error co = None" "\<not> co_broken co"
  shows "query_cycle_done ops sql c (co_messages co) (co_dirty co) c'"
proof -
  obtain c1 where c1: "conn_send ops (FQuery sql) c = (None, c1)" "collect_items cod (inbox c1) collected_new c1 = (Some co, c')"
    using assms by (auto simp: run_query_collect_def split: prod.splits option.splits)
  from collect_items_done [OF c1(2) assms(2,3)] c1(1) show ?thesis
    by (auto simp: query_cycle_done_def collected_new_def)
qed

text \<open>
  A pooled leg that went well, from world \<open>w\<close> to world \<open>w'\<close>: one checkout from the pool of the leg's own endpoint, the client's startup
  parameters set on the lease, one cycle with the leg's own statement on it, and the outcome that says so; the lease is
  still held.
\<close>

definition leg_served ::
    "'s env \<Rightarrow> session_params \<Rightarrow> (string \<rightharpoonup> string) \<Rightarrow> scatter_leg \<Rightarrow> 's leg_outcome \<Rightarrow> 's world \<Rightarrow> 's world \<Rightarrow> bool" where
  "leg_served env params startup leg out w w' \<longleftrightarrow>
     (\<exists>p l t p' l1 ms dirty c.
        w_pools w (leg_key env params leg) = Some p \<and>
        checkout (e_ops env) (e_clock env) (e_connect env) (w_tick w) p = (Done l, t, p') \<and>
        w' = w\<lparr>w_pools := (w_pools w)(leg_key env params leg \<mapsto> p'), w_tick := t\<rparr> \<and>
        sync_startup_parameters (e_ops env) startup l = (Done (), l1) \<and>
        query_cycle_done (e_ops env) (leg_sql leg) (l_conn l1) ms dirty c \<and>
        out = \<lparr>lo_endpoint = leg_endpoint leg, lo_messages = ms, lo_rows = of_nat (length (rows_of ms)), lo_error = None,
          lo_lease = Some \<lparr>h_lease = l1\<lparr>l_conn := c\<rparr>, h_key = leg_key env params leg\<rparr>, lo_broken = False, lo_dirty = dirty\<rparr>)"

text \<open>All pooled legs, one after the other in the order they complete, each from the world the one before left.\<close>

inductive legs_served ::
    "'s env \<Rightarrow> session_params \<Rightarrow> (string \<rightharpoonup> string) \<Rightarrow> scatter_leg list \<Rightarrow> 's leg_outcome list \<Rightarrow> 's world \<Rightarrow> 's world \<Rightarrow> bool"
  for env params startup where
  no_legs: "legs_served env params startup [] [] w w"
| leg_then: "leg_served env params startup leg out w w1 \<Longrightarrow> legs_served env params startup legs outs w1 w2 \<Longrightarrow>
    legs_served env params startup (leg # legs) (out # outs) w w2"

text \<open>The leg on the session's own connection, if there is one.\<close>

definition own_served ::
    "'s env \<Rightarrow> scatter_leg option \<Rightarrow> backend_msg list \<Rightarrow> 's held option \<Rightarrow> 's held option \<Rightarrow> bool" where
  "own_served env own ms slot slot' \<longleftrightarrow>
     (case own of
        None \<Rightarrow> ms = [] \<and> slot' = slot
      | Some leg \<Rightarrow> \<exists>h c dirty. slot = Some h \<and> query_cycle_done (e_ops env) (leg_sql leg) (h_conn h) ms dirty c \<and>
          slot' = Some (set_h_conn c h))"

lemma run_leg_served:
  assumes "run_leg_pooled env startup (leg_endpoint leg) (leg_sql leg) (leg_key env params leg) w = (Some out, w')"
    and "lo_error out = None" "\<not> lo_broken out"
  shows "leg_served env params startup leg out w w'"
proof -
  let ?key = "leg_key env params leg"
  obtain p where p: "w_pools w ?key = Some p" using assms(1) by (auto simp: run_leg_pooled_def split: option.splits)
  obtain r t p1 where co: "checkout (e_ops env) (e_clock env) (e_connect env) (w_tick w) p = (r, t, p1)" by (metis prod_cases3)
  from assms p co obtain l where l: "r = Done l" by (cases r) (auto simp: run_leg_pooled_def leg_connect_failed_def)
  let ?w = "w\<lparr>w_pools := (w_pools w)(?key \<mapsto> p1), w_tick := t\<rparr>"
  from assms p co l have on: "leg_on_lease env startup (leg_endpoint leg) (leg_sql leg) ?key l ?w = (Some out, w')"
    by (simp add: run_leg_pooled_def)
  obtain r1 l1 where s: "sync_startup_parameters (e_ops env) startup l = (r1, l1)" by fastforce
  from on assms(2) s have r1: "r1 = Done ()" by (cases r1) (auto simp: leg_on_lease_def leg_connect_failed_def)
  obtain c q where q: "run_query_collect (e_ops env) (e_codec env) (leg_sql leg) (l_conn l1) = (Some q, c)"
    using on s r1 by (auto simp: leg_on_lease_def split: prod.splits option.splits)
  with on assms(2,3) s r1 have out: "\<not> co_broken q" "co_error q = None" "w' = ?w"
    "out = leg_finished (leg_endpoint leg) q (Some \<lparr>h_lease = l1\<lparr>l_conn := c\<rparr>, h_key = ?key\<rparr>)"
    by (auto simp: leg_on_lease_def leg_finished_def Let_def split: if_splits)
  from run_query_collect_done [OF q out(2,1)] run_query_collect_rows [OF q] out p co l s r1 show ?thesis
    unfolding leg_served_def leg_finished_def by auto
qed

lemma gather_served:
  "gather env params sch startup legs outs w = (Some (outs', None), w') \<Longrightarrow>
     \<exists>new. outs' = outs @ new \<and> legs_served env params startup legs new w w'"
proof (induction legs arbitrary: outs w)
  case Nil
  then show ?case by (auto intro: no_legs)
next
  case (Cons leg legs)
  obtain ro w1 where run: "run_leg_pooled env startup (leg_endpoint leg) (leg_sql leg) (leg_key env params leg) w = (ro, w1)"
    by fastforce
  with Cons.prems obtain out where ro: "ro = Some out" by (cases ro) auto
  with Cons.prems run have ok: "lo_error out = None" "\<not> lo_broken out" by (auto simp: Let_def split: if_splits)
  with Cons.prems run ro have "gather env params sch startup legs (outs @ [out]) w1 = (Some (outs', None), w')" by simp
  from Cons.IH [OF this] run_leg_served [OF run [unfolded ro] ok] show ?case by (auto intro: leg_then)
qed

lemma legs_served_rows:
  "legs_served env params startup legs outs w w' \<Longrightarrow> out \<in> set outs \<Longrightarrow> lo_rows out = of_nat (length (rows_of (lo_messages out)))"
  by (induction rule: legs_served.induct) (auto simp: leg_served_def)

definition merged_output :: "scatter_request \<Rightarrow> backend_msg list \<Rightarrow> backend_msg list \<Rightarrow> u64 \<Rightarrow> bool" where
  "merged_output req ms out n \<longleftrightarrow>
     (case sr_merge req of
        Concat \<Rightarrow>
          n = of_nat (length (rows_of ms)) \<and>
          out = concat_rows False ms @ [BCommandComplete (sr_tag req @ '' '' @ show_nat (unat n))]
      | Sum \<Rightarrow>
          n = 1 \<and>
          (\<exists>vs. parsed_rows (rows_of ms) = Ret (Some vs) \<and>
             out = (case List.find is_schema ms of None \<Rightarrow> [] | Some s \<Rightarrow> [s]) @
               [BDataRow (sum_row (wrap_i128 (sum_list vs))), BCommandComplete (sr_tag req @ '' 1'')]))"

lemma sum_list_of_nat: "sum_list (map (\<lambda>x. of_nat (f x)) xs) = (of_nat (sum_list (map f xs)) :: u64)"
  by (induction xs) auto

lemma rows_of_concat: "rows_of (concat xss) = concat (map rows_of xss)"
  by (induction xss) auto

lemma scatter_merge_output:
  assumes m: "scatter_merge env req own outs slot d w = (ScatterOk n, slot', d', w')" and d: "ds_results d = []"
    and own: "\<And>co. own = Some co \<Longrightarrow> co_rows co = of_nat (length (rows_of (co_messages co)))"
    and outs: "\<And>out. out \<in> set outs \<Longrightarrow> lo_rows out = of_nat (length (rows_of (lo_messages out)))"
    and ms: "ms = (case own of None \<Rightarrow> [] | Some co \<Rightarrow> co_messages co) @ concat (map lo_messages outs)"
  shows "\<exists>out. ds_sent d' = ds_sent d @ out \<and> merged_output req ms out n \<and> slot' = slot \<and> w' = fold (checkin_outcome env) outs w"
proof -
  have "sum_list (map lo_rows outs) = (of_nat (length (rows_of (concat (map lo_messages outs)))) :: u64)"
    using outs sum_list_of_nat [of "\<lambda>out. length (rows_of (lo_messages out))" outs]
    by (simp add: rows_of_concat length_concat comp_def cong: map_cong)
  then have total: "(case own of None \<Rightarrow> 0 | Some co \<Rightarrow> co_rows co) + sum_list (map lo_rows outs) = of_nat (length (rows_of ms))"
    using own ms by (cases own) simp_all
  let ?n = "of_nat (length (rows_of ms)) :: u64"
  obtain r d1 where r: "merge_sources (sr_merge req) (sr_tag req) ?n ms d = (r, d1)" by fastforce
  have "scatter_merge env req own outs slot d w =
     (case merge_sources (sr_merge req) (sr_tag req) ?n ms d of
        (MergePanic, d') \<Rightarrow> (ScatterPanic, slot, d', w)
      | (MergeFailed e, d') \<Rightarrow> (ScatterFailure e False, slot, d', fold drop_outcome outs w)
      | (MergedOk _, d') \<Rightarrow> (ScatterOk (if sr_merge req = Sum then 1 else ?n), slot, d', fold (checkin_outcome env) outs w))"
    unfolding scatter_merge_def Let_def total ms [symmetric] ..
  with m r have ok: "r = MergedOk ()" "d1 = d'" "n = (if sr_merge req = Sum then 1 else ?n)"
    "slot' = slot" "w' = fold (checkin_outcome env) outs w"
    by (auto split: merged.splits)
  show ?thesis
  proof (cases "sr_merge req")
    case Concat
    with r ok d show ?thesis by (auto simp: merge_sources_def merged_output_def)
  next
    case Sum
    have "wrap_i128 0 = 0" by (simp add: wrap_i128_def)
    from sum_rows_parsed [OF this, of ms None] r ok d Sum show ?thesis
      by (auto simp: merge_sources_def merged_output_def first_schema_def split: outcome.splits option.splits)
  qed
qed

lemma partition_legs_mset:
  "partition_legs ep b legs = (own, pooled) \<Longrightarrow>
     mset legs = mset pooled + (case own of None \<Rightarrow> {#} | Some l \<Rightarrow> {#l#}) \<and> (own \<noteq> None \<longrightarrow> b)"
proof (induction legs arbitrary: own pooled)
  case (Cons leg legs)
  obtain o1 p1 where p: "partition_legs ep b legs = (o1, p1)" by fastforce
  from Cons.IH [OF p] Cons.prems p show ?case by (auto split: if_splits)
qed simp

lemma own_leg_served:
  assumes s: "scatter_own_leg env req own outs slot d w = (ScatterOk n, slot', d', w')"
    and outs: "\<And>out. out \<in> set outs \<Longrightarrow> lo_rows out = of_nat (length (rows_of (lo_messages out)))"
    and own: "own \<noteq> None \<Longrightarrow> slot \<noteq> None" and d: "ds_results d = []"
  shows "\<exists>ms out. own_served env own ms slot slot' \<and> ds_sent d' = ds_sent d @ out \<and>
    merged_output req (ms @ concat (map lo_messages outs)) out n \<and> w' = fold (checkin_outcome env) outs w"
proof (cases own)
  case None
  then have m: "scatter_merge env req None outs slot d w = (ScatterOk n, slot', d', w')"
    using s by (simp add: scatter_own_leg_def)
  from scatter_merge_output [OF m d _ outs] None show ?thesis by (auto simp: own_served_def)
next
  case (Some leg)
  with own obtain h where h: "slot = Some h" by auto
  obtain ro c where run: "run_query_collect (e_ops env) (e_codec env) (leg_sql leg) (h_conn h) = (ro, c)" by fastforce
  with s Some h obtain co where co: "ro = Some co" "\<not> co_broken co" "co_error co = None"
    by (cases ro) (auto simp: scatter_own_leg_def scatter_fail_def Let_def split: if_splits option.splits)
  with s Some h run have m: "scatter_merge env req (Some co) outs (Some (set_h_conn c h)) d w = (ScatterOk n, slot', d', w')"
    by (simp add: scatter_own_leg_def Let_def)
  have "co_rows co = of_nat (length (rows_of (co_messages co)))" using run co(1) run_query_collect_rows by blast
  with scatter_merge_output [OF m d _ outs] run_query_collect_done [OF run [unfolded co(1)] co(3,2)] Some h show ?thesis
    by (fastforce simp: own_served_def)
qed

text \<open>
  Property C12. A scatter that reports success is complete. The request's legs are split into the one that runs on the session's own
  connection - the first one on the endpoint the session is attached to - and the pooled ones. Every pooled leg, whatever order they
  finish in, made one checkout from the pool of its own endpoint, sent its own statement once on the connection it got and read
  its answer up to the ReadyForQuery, free of errors; the own leg did the same on the session's connection. What the client got is the merge of exactly
  those answers: for \<^verbatim>\<open>Concat\<close> every row of every leg, one schema, and a tag with the true number of rows; for \<^verbatim>\<open>Sum\<close> a single row holding the sum
  of every row's first column (in 128 bits). Afterwards the pools are what these checkouts left, with every leg's lease checked
  in. A completion order that is a permutation of the legs is the only assumption.
\<close>

theorem scatter_complete:
  assumes "\<And>legs. mset (sch_order sch legs) = mset legs" "ds_results d = []"
    and "execute_scatter env params sch startup req cur slot d w = (ScatterOk n, slot', d', w')"
  shows "\<exists>own pooled outs w1 ms out.
    partition_legs cur (slot \<noteq> None) (sr_legs req) = (own, pooled) \<and>
    mset (sr_legs req) = mset (sch_order sch pooled) + (case own of None \<Rightarrow> {#} | Some leg \<Rightarrow> {#leg#}) \<and>
    legs_served env params startup (sch_order sch pooled) outs (resolve_legs env params (sr_legs req) w) w1 \<and>
    own_served env own ms slot slot' \<and>
    ds_sent d' = ds_sent d @ out \<and> merged_output req (ms @ concat (map lo_messages outs)) out n \<and>
    w' = fold (checkin_outcome env) outs w1"
proof -
  have none: "List.find (\<lambda>leg. route_endpoint (e_route env) (leg_endpoint leg) = None) (sr_legs req) = None"
    using assms(3) by (auto simp: execute_scatter_def split: option.splits)
  obtain own pooled where part: "partition_legs cur (slot \<noteq> None) (sr_legs req) = (own, pooled)" by fastforce
  obtain g w1 where g: "gather env params sch startup (sch_order sch pooled) [] (resolve_legs env params (sr_legs req) w) = (g, w1)"
    by fastforce
  with assms(3) none part obtain outs where outs: "g = Some (outs, None)"
    by (auto simp: execute_scatter_def scatter_fail_def split: option.splits)
  then have own: "scatter_own_leg env req own outs slot d w1 = (ScatterOk n, slot', d', w')"
    using assms(3) none part g by (simp add: execute_scatter_def)
  have legs: "legs_served env params startup (sch_order sch pooled) outs (resolve_legs env params (sr_legs req) w) w1"
    using gather_served g outs by fastforce
  from own_leg_served [OF own legs_served_rows [OF legs] _ assms(2)] partition_legs_mset [OF part] obtain ms out where
    "own_served env own ms slot slot'" "ds_sent d' = ds_sent d @ out" "merged_output req (ms @ concat (map lo_messages outs)) out n"
    "w' = fold (checkin_outcome env) outs w1" by auto
  with part legs partition_legs_mset [OF part] assms(1) show ?thesis by auto
qed

text \<open>
  Property C23. The shape of merged output: when the answers carry their schema before their rows, a
  \<^verbatim>\<open>Concat\<close> result is one schema - the first one received - followed by all rows in order; it never has a
  second schema, drops or duplicates no row even otherwise; and the row a \<^verbatim>\<open>Sum\<close> is answered with reads
  back, as a leg of another sum would read it, as exactly the total.
\<close>

theorem merge_shapes:
  "rows_of (concat_rows False ms) = rows_of ms \<and>
   (schema_first ms \<longrightarrow>
      concat_rows False ms = (case List.find is_schema ms of None \<Rightarrow> [] | Some s \<Rightarrow> [s]) @ map BDataRow (rows_of ms)) \<and>
   length (filter is_schema (concat_rows False ms)) \<le> 1 \<and>
   first_column_i128 (sum_row (wrap_i128 v)) = Ret (Some (wrap_i128 v))"
proof (intro conjI impI)
  have "filter is_schema (concat_rows True ms) = []" for ms by (simp add: concat_rows_written filter_empty_conv)
  then show "length (filter is_schema (concat_rows False ms)) \<le> 1"
    by (induction ms) (auto split: backend_msg.splits)
qed (use concat_rows_rows concat_rows_shape sum_row_parses wrap_i128_range in auto)

theorem merge_shapes_witness:
  "concat_rows False [BRowDescription [], BDataRow (sum_row 2), BRowDescription [], BDataRow (sum_row 3)] =
     [BRowDescription [], BDataRow (sum_row 2), BDataRow (sum_row 3)]"
  using merge_shapes [of "[BRowDescription [], BDataRow (sum_row 2), BRowDescription [], BDataRow (sum_row 3)]"]
  by (simp add: schema_first_def)

section \<open>Permits\<close>

text \<open>
  Lemma. A scatter is neutral for the pools: whether it succeeds, a leg fails to connect, errors or
  loses its connection, legs are aborted half way, the merge fails or the client is gone - afterwards
  every pool has as many permits out as before, and the session still holds the lease it held.
\<close>

theorem scatter_returns_permits:
  assumes "world_wf w" "\<And>h. slot = Some h \<Longrightarrow> leased_out (h_key h) w > 0"
    and "execute_scatter env params sch startup req cur slot d w = (res, slot', d', w')"
    and "res \<noteq> ScatterStuck" "res \<noteq> ScatterPanic"
  shows "(\<forall>k. leased_out k w' = leased_out k w) \<and> world_wf w' \<and> slot_keys slot' = slot_keys slot"
proof -
  let ?base = "\<lambda>k. leased_out k w - count_list (slot_keys slot) k"
  have sum: "leased_out k w = ?base k + count_list (slot_keys slot) k" for k
    using assms(2) by (cases slot) fastforce+
  have "outstanding ?base w (slot_keys slot)" using assms(1) sum by (simp add: outstanding_def)
  from execute_scatter_outstanding [OF this assms(3,5,4)]
  have o: "outstanding ?base w' (slot_keys slot')" "slot_keys slot' = slot_keys slot" by blast+
  then have "leased_out k w' = leased_out k w" for k using sum [of k] unfolding outstanding_def by simp
  with o show ?thesis by (simp add: outstanding_def)
qed

section \<open>A concrete scatter\<close>

text \<open>Two shards that answer every query with one row.\<close>

definition shard_ops :: "unit client_ops" where
  "shard_ops =
     \<lparr>op_send = (\<lambda>w m. Inr ((), case m of
         FQuery q \<Rightarrow> map RMsg [BRowDescription [], BDataRow (sum_row 2), BCommandComplete ''SELECT 1'', BReadyForQuery Idle]
       | _ \<Rightarrow> [])),
      op_feed = (\<lambda>w m. Inr ((), [])), op_cancel = (\<lambda>w. ((), [])), op_simple_query = (\<lambda>c q. (Done (), c)),
      op_show_error = (\<lambda>e. []), op_window = (\<lambda>c. Suc (length (inbox c)))\<rparr>"

definition shard_env :: "unit env" where
  "shard_env =
     \<lparr>e_ops = shard_ops, e_clock = (\<lambda>n. n),
      e_connect = (\<lambda>a t. Done \<lparr>wire = (), inbox = [], at_eof = False, process_id = 1, server_parameters = Map.empty, transaction_status = Idle\<rparr>),
      e_codec = \<lparr>err_into = (\<lambda>e. []), err_from = (\<lambda>f. error_info_new [] [] [])\<rparr>,
      e_route = sample_route, e_pool_config = pool_config_default\<rparr>"

definition shard_schedule :: schedule where
  "shard_schedule = \<lparr>sch_order = rev, sch_abort = (\<lambda>leg. NotStarted)\<rparr>"

definition shard_request :: scatter_request where
  "shard_request = \<lparr>sr_legs = [\<lparr>leg_endpoint = ''a'', leg_sql = ''q''\<rparr>, \<lparr>leg_endpoint = ''b'', leg_sql = ''q''\<rparr>],
     sr_merge = Concat, sr_tag = ''SELECT''\<rparr>"

definition shard_run :: "scatter_result \<times> unit held option \<times> downstream \<times> unit world" where
  "shard_run = execute_scatter shard_env sample_params shard_schedule Map.empty shard_request None None sample_downstream
     \<lparr>w_pools = Map.empty, w_tick = 0\<rparr>"

lemma shard_leg:
  assumes "w_pools w key = Some p" "p_idle p = []" "p_permits p > 0"
  shows "\<exists>out p' t. run_leg_pooled shard_env Map.empty i sql key w =
     (Some out, w\<lparr>w_pools := (w_pools w)(key \<mapsto> p'), w_tick := t\<rparr>) \<and> lo_error out = None \<and> \<not> lo_broken out \<and>
     lo_messages out = [BRowDescription [], BDataRow (sum_row 2), BCommandComplete ''SELECT 1''] \<and> lo_rows out = 1"
  using assms
  by (simp add: run_leg_pooled_def shard_env_def shard_ops_def checkout_def pool_simps checkout_loop_Nil finish_checkout_def
      leg_on_lease_def sync_startup_parameters_def TRACKED_STARTUP_PARAMETERS_def run_query_collect_def conn_send_def
      collected_new_def set_transaction_status_def leg_finished_def Let_def) (intro exI, rule refl)

lemma shard_pools:
  "\<exists>p q t. resolve_legs shard_env sample_params (sr_legs shard_request) \<lparr>w_pools = Map.empty, w_tick = 0\<rparr> =
      \<lparr>w_pools = [leg_key shard_env sample_params \<lparr>leg_endpoint = ''a'', leg_sql = ''q''\<rparr> \<mapsto> p,
                  leg_key shard_env sample_params \<lparr>leg_endpoint = ''b'', leg_sql = ''q''\<rparr> \<mapsto> q], w_tick = t\<rparr> \<and>
     p_idle p = [] \<and> p_permits p > 0 \<and> p_idle q = [] \<and> p_permits q > 0"
  by (simp add: shard_request_def shard_env_def sample_route_def sample_endpoint_def route_endpoint_def resolve_pool_def
      get_or_create_def pool_key_for_def leg_key_def pool_new_def capacity_def pool_config_default_def Let_def)
    (intro exI conjI, rule refl, simp_all)

lemma shard_gathers:
  "\<exists>outs w'. gather shard_env sample_params shard_schedule Map.empty (sch_order shard_schedule (sr_legs shard_request)) []
      (resolve_legs shard_env sample_params (sr_legs shard_request) \<lparr>w_pools = Map.empty, w_tick = 0\<rparr>) = (Some (outs, None), w') \<and>
     concat (map lo_messages outs) = concat (replicate 2 [BRowDescription [], BDataRow (sum_row 2), BCommandComplete ''SELECT 1'']) \<and>
     sum_list (map lo_rows outs) = 2"
proof -
  let ?a = "\<lparr>leg_endpoint = ''a'', leg_sql = ''q''\<rparr>" and ?b = "\<lparr>leg_endpoint = ''b'', leg_sql = ''q''\<rparr>"
  let ?ka = "leg_key shard_env sample_params ?a" and ?kb = "leg_key shard_env sample_params ?b"
  obtain p q t where w: "resolve_legs shard_env sample_params (sr_legs shard_request) \<lparr>w_pools = Map.empty, w_tick = 0\<rparr> =
      \<lparr>w_pools = [?ka \<mapsto> p, ?kb \<mapsto> q], w_tick = t\<rparr>" "p_idle p = []" "p_permits p > 0" "p_idle q = []" "p_permits q > 0"
    using shard_pools by blast
  have ne: "?ka \<noteq> ?kb" by (simp add: leg_key_def)
  let ?w = "\<lparr>w_pools = [?ka \<mapsto> p, ?kb \<mapsto> q], w_tick = t\<rparr>"
  obtain o1 q1 t1 where l1: "run_leg_pooled shard_env Map.empty ''b'' ''q'' ?kb ?w =
      (Some o1, ?w\<lparr>w_pools := (w_pools ?w)(?kb \<mapsto> q1), w_tick := t1\<rparr>)" "lo_error o1 = None" "\<not> lo_broken o1"
    "lo_messages o1 = [BRowDescription [], BDataRow (sum_row 2), BCommandComplete ''SELECT 1'']" "lo_rows o1 = 1"
    using shard_leg [of ?w ?kb q "''b''" "''q''"] w by auto
  let ?w1 = "?w\<lparr>w_pools := (w_pools ?w)(?kb \<mapsto> q1), w_tick := t1\<rparr>"
  obtain o2 w2 where l2: "run_leg_pooled shard_env Map.empty ''a'' ''q'' ?ka ?w1 = (Some o2, w2)" "lo_error o2 = None" "\<not> lo_broken o2"
    "lo_messages o2 = [BRowDescription [], BDataRow (sum_row 2), BCommandComplete ''SELECT 1'']" "lo_rows o2 = 1"
    using shard_leg [of ?w1 ?ka p "''a''" "''q''"] w ne by auto
  show ?thesis unfolding w(1) using l1 l2 by (simp add: shard_request_def shard_schedule_def numeral_2_eq_2)
qed

lemma shard_run_ok: "\<exists>slot d w. shard_run = (ScatterOk 2, slot, d, w)"
proof -
  obtain outs w' where g: "gather shard_env sample_params shard_schedule Map.empty (sch_order shard_schedule (sr_legs shard_request)) []
      (resolve_legs shard_env sample_params (sr_legs shard_request) \<lparr>w_pools = Map.empty, w_tick = 0\<rparr>) = (Some (outs, None), w')"
    "concat (map lo_messages outs) = concat (replicate 2 [BRowDescription [], BDataRow (sum_row 2), BCommandComplete ''SELECT 1''])"
    "sum_list (map lo_rows outs) = 2"
    using shard_gathers by blast
  have part: "partition_legs None False (sr_legs shard_request) = (None, sr_legs shard_request)" by (simp add: shard_request_def)
  have find: "List.find (\<lambda>leg. route_endpoint (e_route shard_env) (leg_endpoint leg) = None) (sr_legs shard_request) = None"
    by (simp add: shard_request_def shard_env_def sample_route_def sample_endpoint_def route_endpoint_def)
  have "shard_run = scatter_own_leg shard_env shard_request None outs None sample_downstream w'"
    using g(1) part find by (simp add: shard_run_def execute_scatter_def)
  also have "\<exists>d w. \<dots> = (ScatterOk 2, None, d, w)"
    by (simp add: scatter_own_leg_def scatter_merge_def g(2,3) merge_sources_def sample_downstream_def Let_def) (simp add: shard_request_def)
  finally show ?thesis by blast
qed

theorem scatter_complete_witness:
  "\<exists>slot d w outs w1 out. shard_run = (ScatterOk 2, slot, d, w) \<and>
     legs_served shard_env sample_params Map.empty (rev (sr_legs shard_request)) outs
       (resolve_legs shard_env sample_params (sr_legs shard_request) \<lparr>w_pools = Map.empty, w_tick = 0\<rparr>) w1 \<and>
     merged_output shard_request (concat (map lo_messages outs)) out 2 \<and> ds_sent d = out"
proof -
  obtain slot d w where r: "shard_run = (ScatterOk 2, slot, d, w)" using shard_run_ok by blast
  have perm: "mset (sch_order shard_schedule legs) = mset legs" for legs by (simp add: shard_schedule_def)
  have part: "partition_legs None (None \<noteq> (None :: unit held option)) (sr_legs shard_request) = (None, sr_legs shard_request)"
    by (simp add: shard_request_def)
  have "ds_results sample_downstream = []" "ds_sent sample_downstream = []" by (simp_all add: sample_downstream_def)
  with scatter_complete [OF perm _ r [unfolded shard_run_def]] part r show ?thesis
    by (fastforce simp: own_served_def shard_schedule_def)
qed

theorem scatter_returns_permits_witness:
  "\<exists>slot d w. shard_run = (ScatterOk 2, slot, d, w) \<and>
     leased_out (pool_key_for sample_route sample_params (sample_endpoint ''a'')) w = 0"
proof -
  obtain slot d w where r: "shard_run = (ScatterOk 2, slot, d, w)" using shard_run_ok by blast
  from scatter_returns_permits [OF _ _ r [unfolded shard_run_def]] have "leased_out k w = 0" for k
    by (simp add: world_wf_def leased_out_def)
  with r show ?thesis by blast
qed

end
