(* ===== verification/Gateway.thy ===== *)
theory Gateway
  imports Builtin Proxy Pump_Laws Scatter_Laws
begin

text \<open>
  The example gateway (src/crates/pgferry/examples/gateway.rs): the built-in helpers composed into an
  interceptor, and the program that assembles it from its command line. The health group, the audit log
  and the reports are shared by all clones and sessions; \<open>gateway_state\<close> is what the hooks of one session find there, so a
  read/write split consults the group as it is when the hook runs. The hooks that look at the clock read it each time
  they run: \<open>clock n\<close> is the n-th such reading, \<open>gs_reads\<close> their number so far. Regular expressions are the parameter
  \<open>regex_ops\<close> of theory \<open>Builtin\<close>.
\<close>

record 'r gateway =
  gw_deny :: "'r deny_list"
  gw_rewrites :: "'r rewrite_rule list"
  gw_mask_columns :: "string list"
  gw_rw_split :: "rw_split option"
  gw_shards :: "endpoint_id list option"
  gw_shard_all :: "'r option"

record gateway_state =
  gs_group :: endpoint_group
  gs_audit :: audit
  gs_reports :: "cycle_report list"
  gs_reads :: nat

section \<open>Hooks\<close>

definition apply_rewrites :: "'r regex_ops \<Rightarrow> 'r rewrite_rule list \<Rightarrow> query_cycle \<Rightarrow> query_cycle" where
  "apply_rewrites ops rws cycle =
     fold (\<lambda>rw q. case rewrite_sql ops rw (qc_sql q) of Some s \<Rightarrow> set_sql s q | None \<Rightarrow> q) rws cycle"

definition gateway_merge :: "string \<Rightarrow> merge_policy" where
  "gateway_merge sql =
     (let lowered = map ascii_lower (trim_start sql)
      in if strip_prefix ''select count'' lowered \<noteq> None \<or> strip_prefix ''select sum'' lowered \<noteq> None then Sum else Concat)"

definition gateway_on_query :: "'r regex_ops \<Rightarrow> 'r gateway \<Rightarrow> query_cycle \<Rightarrow> action \<times> query_cycle" where
  "gateway_on_query ops gw cycle =
     (case deny_check ops (gw_deny gw) (qc_sql cycle) of
        Some error \<Rightarrow> (Deny error, cycle)
      | None \<Rightarrow>
          (let cycle = apply_rewrites ops (gw_rewrites gw) cycle
           in case (gw_shards gw, gw_shard_all gw) of
                (Some shards, Some pattern) \<Rightarrow>
                  (if rx_is_match ops pattern (qc_sql cycle)
                   then (broadcast shards (qc_sql cycle) (gateway_merge (qc_sql cycle)) ''SELECT'', cycle)
                   else (Forward, cycle))
              | _ \<Rightarrow> (Forward, cycle)))"

definition gateway_upstream :: "instant \<Rightarrow> 'r gateway \<Rightarrow> endpoint_group \<Rightarrow> routing_info \<Rightarrow> endpoint_id" where
  "gateway_upstream now gw grp info =
     (case gw_rw_split gw of
        Some split \<Rightarrow>
          (let split = split\<lparr>rw_group := grp\<rparr>
           in case ri_sql info of
                Some sql \<Rightarrow> rw_route_sql now split info sql
              | None \<Rightarrow> rw_route now split info False)
      | None \<Rightarrow> (case select_first_alive now grp info of Some i \<Rightarrow> i | None \<Rightarrow> default_endpoint info))"

definition mask_text :: "u8 list" where
  "mask_text = str_bytes ''***''"

definition mask_column :: "row_schema \<Rightarrow> string \<Rightarrow> data_row_mut \<Rightarrow> data_row_mut" where
  "mask_column schema name row =
     (case column_index schema name of
        None \<Rightarrow> row
      | Some index \<Rightarrow>
          (case row_text row index of
             Inr (Some _) \<Rightarrow> (case row_set_text row index mask_text of Inr row' \<Rightarrow> row' | Inl _ \<Rightarrow> row)
           | _ \<Rightarrow> row))"

definition gateway_on_row :: "'r gateway \<Rightarrow> row_schema \<Rightarrow> data_row_mut \<Rightarrow> data_row_mut" where
  "gateway_on_row gw schema row = fold (mask_column schema) (gw_mask_columns gw) row"

definition gateway_interceptor ::
    "'r regex_ops \<Rightarrow> (nat \<Rightarrow> instant) \<Rightarrow> gateway_state \<Rightarrow> 'r gateway \<Rightarrow> gateway_state interceptor" where
  "gateway_interceptor ops clock gs gw =
     (default_hooks gs)\<lparr>
       hook_on_query := (\<lambda>c q. let (a, q) = gateway_on_query ops gw q in (a, q, c)),
       hook_upstream := (\<lambda>c info. (gateway_upstream (clock (gs_reads c)) gw (gs_group c) info, c\<lparr>gs_reads := Suc (gs_reads c)\<rparr>)),
       hook_on_upstream_error := (\<lambda>c e.
         (Relink, c\<lparr>gs_group := report_failure (clock (gs_reads c)) (error_endpoint e) (gs_group c), gs_reads := Suc (gs_reads c)\<rparr>)),
       hook_on_upstream_connected := (\<lambda>c i. c\<lparr>gs_group := report_success i (gs_group c)\<rparr>),
       hook_wants_rows := (gw_mask_columns gw \<noteq> []),
       hook_on_row := (\<lambda>c s r. (Keep, gateway_on_row gw s r, c)),
       hook_on_cycle_end := (\<lambda>c rep. c\<lparr>gs_audit := audit_record rep (gs_audit c), gs_reports := gs_reports c @ [rep]\<rparr>)\<rparr>"

section \<open>The program\<close>

record gateway_args =
  ga_listen :: string
  ga_upstream :: "string option"
  ga_endpoints :: "(string \<times> string) list"
  ga_rw_split :: "string option"
  ga_shard_all :: "string option"
  ga_deny :: "string list"
  ga_rewrites :: "(string \<times> string) list"
  ga_mask_columns :: "string list"

definition gateway_args_default :: gateway_args where
  "gateway_args_default =
     \<lparr>ga_listen = ''127.0.0.1:7432'', ga_upstream = None, ga_endpoints = [], ga_rw_split = None, ga_shard_all = None,
      ga_deny = [], ga_rewrites = [], ga_mask_columns = []\<rparr>"

datatype 'a launch = Launched 'a | LaunchPanic | LaunchExit nat | LaunchError config_error

text \<open>The argument loop. A missing value panics (\<^verbatim>\<open>expect\<close>), an unknown argument exits with status 2.\<close>

fun parse_args :: "string list \<Rightarrow> gateway_args \<Rightarrow> gateway_args launch" where
  "parse_args [] a = Launched a"
| "parse_args (arg # rest) a =
     (if arg = ''--listen'' then
        (case rest of v # rest \<Rightarrow> parse_args rest (a\<lparr>ga_listen := v\<rparr>) | [] \<Rightarrow> LaunchPanic)
      else if arg = ''--upstream'' then
        (case rest of v # rest \<Rightarrow> parse_args rest (a\<lparr>ga_upstream := Some v\<rparr>) | [] \<Rightarrow> LaunchPanic)
      else if arg = ''--endpoint'' then
        (case rest of
           spec # rest \<Rightarrow>
             (case split_once ''='' spec of
                Some (i, conn) \<Rightarrow> parse_args rest (a\<lparr>ga_endpoints := ga_endpoints a @ [(i, conn)]\<rparr>)
              | None \<Rightarrow> LaunchPanic)
         | [] \<Rightarrow> LaunchPanic)
      else if arg = ''--rw-split'' then
        (case rest of v # rest \<Rightarrow> parse_args rest (a\<lparr>ga_rw_split := Some v\<rparr>) | [] \<Rightarrow> LaunchPanic)
      else if arg = ''--shard-all'' then
        (case rest of v # rest \<Rightarrow> parse_args rest (a\<lparr>ga_shard_all := Some v\<rparr>) | [] \<Rightarrow> LaunchPanic)
      else if arg = ''--deny'' then
        (case rest of v # rest \<Rightarrow> parse_args rest (a\<lparr>ga_deny := ga_deny a @ [v]\<rparr>) | [] \<Rightarrow> LaunchPanic)
      else if arg = ''--rewrite'' then
        (case rest of
           f # t # rest \<Rightarrow> parse_args rest (a\<lparr>ga_rewrites := ga_rewrites a @ [(f, t)]\<rparr>)
         | _ \<Rightarrow> LaunchPanic)
      else if arg = ''--mask-col'' then
        (case rest of v # rest \<Rightarrow> parse_args rest (a\<lparr>ga_mask_columns := ga_mask_columns a @ [v]\<rparr>) | [] \<Rightarrow> LaunchPanic)
      else LaunchExit 2)"

fun rewrites_new :: "'r regex_ops \<Rightarrow> (string \<times> string) list \<Rightarrow> 'r rewrite_rule list outcome" where
  "rewrites_new ops [] = Ret []"
| "rewrites_new ops ((f, t) # rs) =
     (case rewrite_new ops f t of
        Panic \<Rightarrow> Panic
      | Ret r \<Rightarrow> (case rewrites_new ops rs of Panic \<Rightarrow> Panic | Ret rs \<Rightarrow> Ret (r # rs)))"

text \<open>Assembling the gateway; a pattern that does not compile panics.\<close>

definition gateway_new :: "'r regex_ops \<Rightarrow> gateway_args \<Rightarrow> ('r gateway \<times> gateway_state) outcome" where
  "gateway_new ops a =
     (let ids = map fst (ga_endpoints a);
          grp = group_new ids;
          shards = (if ga_shard_all a \<noteq> None \<and> ga_endpoints a \<noteq> [] then Some ids else None)
      in case map_option (rx_new ops) (ga_shard_all a) of
           Some None \<Rightarrow> Panic
         | pattern \<Rightarrow>
             (case deny_new ops (ga_deny a) of
                Panic \<Rightarrow> Panic
              | Ret deny \<Rightarrow>
                  (case rewrites_new ops (ga_rewrites a) of
                     Panic \<Rightarrow> Panic
                   | Ret rewrites \<Rightarrow>
                       Ret (\<lparr>gw_deny = deny, gw_rewrites = rewrites, gw_mask_columns = ga_mask_columns a,
                             gw_rw_split = map_option (rw_split_new grp) (ga_rw_split a), gw_shards = shards,
                             gw_shard_all = (case pattern of Some (Some r) \<Rightarrow> Some r | _ \<Rightarrow> None)\<rparr>,
                            \<lparr>gs_group = grp, gs_audit = audit_new, gs_reports = [], gs_reads = 0\<rparr>))))"

definition gateway_main ::
    "'r regex_ops \<Rightarrow> (string \<Rightarrow> string + string) \<Rightarrow> (nat \<Rightarrow> instant) \<Rightarrow> string list \<Rightarrow> gateway_state proxy launch" where
  "gateway_main ops parse_addr clock argv =
     (case parse_args argv gateway_args_default of
        LaunchPanic \<Rightarrow> LaunchPanic
      | LaunchExit n \<Rightarrow> LaunchExit n
      | LaunchError e \<Rightarrow> LaunchError e
      | Launched a \<Rightarrow>
          (case gateway_new ops a of
             Panic \<Rightarrow> LaunchPanic
           | Ret (gw, gs) \<Rightarrow>
               (case with_listen parse_addr (ga_listen a) builder of
                  Inl e \<Rightarrow> LaunchError e
                | Inr b \<Rightarrow>
                    (let b = (if ga_endpoints a = []
                              then with_upstream (case ga_upstream a of Some u \<Rightarrow> u | None \<Rightarrow> ''host=127.0.0.1 port=5432'') b
                              else fold (\<lambda>(i, conn). with_endpoint i conn) (ga_endpoints a) b);
                         b = (if ga_rw_split a \<noteq> None \<or> ga_shard_all a \<noteq> None
                              then with_pool_config (pool_config_default\<lparr>pool_mode := TransactionMode\<rparr>) b else b)
                     in case build (with_service (gateway_interceptor ops clock gs gw) b) of
                          Inl e \<Rightarrow> LaunchError e
                        | Inr p \<Rightarrow> Launched p))))"

section \<open>Masking\<close>

text \<open>
  What the gateway shows of cell \<open>i\<close>: the first column of each masked name is covered, if its value is text.
\<close>

definition shown_cell :: "row_schema \<Rightarrow> string list \<Rightarrow> nat \<Rightarrow> u8 list option \<Rightarrow> u8 list option" where
  "shown_cell schema names i cell =
     (case cell of
        None \<Rightarrow> None
      | Some b \<Rightarrow>
          if (\<exists>n\<in>set names. column_index schema n = Some i) \<and> valid_utf8 b then Some mask_text else Some b)"

lemma mask_text_bytes: "mask_text = [42, 42, 42]"
  by (simp add: mask_text_def str_bytes_def)

lemma mask_text_utf8: "valid_utf8 mask_text"
  unfolding mask_text_bytes by code_simp

lemma row_text_cells:
  "i < length (row_cells m) \<Longrightarrow>
     row_text m i = (case row_cells m ! i of
       None \<Rightarrow> Inr None
     | Some b \<Rightarrow> if valid_utf8 b then Inr (Some b) else Inl (BinaryColumn i))"
  by (simp add: row_cells_def row_text_def Let_def split: option.splits value_slot.splits)

lemma mask_column_edit:
  "mask_column schema n m = m \<or> (\<exists>i. apply_edit (SetText i mask_text) m = Inr (mask_column schema n m))"
  by (auto simp: mask_column_def split: option.splits sum.splits)

lemma mask_column_keeps:
  assumes "row_wf m"
  shows "row_wf (mask_column schema n m)" "mut_row (mask_column schema n m) = mut_row m"
    "length (row_cells (mask_column schema n m)) = length (row_cells m)"
proof -
  have ok: "edit_ok (SetText i mask_text)" for i by (simp add: mask_text_bytes)
  show "row_wf (mask_column schema n m)" "mut_row (mask_column schema n m) = mut_row m"
    "length (row_cells (mask_column schema n m)) = length (row_cells m)"
    using mask_column_edit [of schema n m] apply_edit_sound [OF _ assms ok] assms by fastforce+
qed

lemma mask_column_cell:
  assumes "i < length (row_cells m)"
  shows "row_cells (mask_column schema n m) ! i = shown_cell schema [n] i (row_cells m ! i)"
proof (cases "column_index schema n")
  case None
  then show ?thesis by (simp add: mask_column_def shown_cell_def split: option.splits)
next
  case (Some j)
  show ?thesis
  proof (cases "j = i")
    case True
    have "i < length (mut_values m)" using assms by (simp add: row_cells_def)
    then obtain m' where m': "row_set_text m i mask_text = Inr m'" by (simp add: row_set_text_def)
    from row_cells_set_text [OF this] assms Some True m' show ?thesis
      by (simp add: mask_column_def shown_cell_def row_text_cells split: option.splits)
  next
    case False
    have "row_cells (mask_column schema n m) ! i = row_cells m ! i"
      using Some False by (auto simp: mask_column_def dest!: row_cells_set_text split: option.splits sum.splits)
    with Some False show ?thesis by (simp add: shown_cell_def split: option.splits)
  qed
qed

lemma shown_cell_compose:
  "shown_cell schema ns i (shown_cell schema [n] i cell) = shown_cell schema (n # ns) i cell"
  using mask_text_utf8 by (auto simp: shown_cell_def split: option.splits)

lemma mask_columns_cells:
  assumes "row_wf m"
  shows "row_wf (fold (mask_column schema) names m) \<and> mut_row (fold (mask_column schema) names m) = mut_row m \<and>
    length (row_cells (fold (mask_column schema) names m)) = length (row_cells m) \<and>
    (\<forall>i < length (row_cells m). row_cells (fold (mask_column schema) names m) ! i = shown_cell schema names i (row_cells m ! i))"
  using assms
proof (induction names arbitrary: m)
  case Nil
  then show ?case by (auto simp: shown_cell_def split: option.splits)
next
  case (Cons n ns)
  from Cons.IH [OF mask_column_keeps(1) [OF Cons.prems, of schema n]] mask_column_keeps [OF Cons.prems, of schema n]
  show ?case by (simp add: mask_column_cell shown_cell_compose)
qed

lemma row_apply_cells:
  assumes "row_wf m" "row_parse (mut_row m) = Ret (Inr m0)" "mut_modified m \<or> m = m0"
  shows "\<exists>m'. row_parse (row_apply m) = Ret (Inr m') \<and> row_cells m' = row_cells m"
proof (cases "mut_modified m")
  case True
  with assms(1) show ?thesis by (rule row_apply_reparse)
next
  case False
  with assms(2,3) show ?thesis by (simp add: row_apply_def)
qed

lemma mask_columns_modified:
  "mut_modified (fold (mask_column schema) names m) \<or> fold (mask_column schema) names m = m"
proof (induction names arbitrary: m)
  case (Cons n ns)
  have "mask_column schema n m = m \<or> mut_modified (mask_column schema n m)"
    by (auto simp: mask_column_def row_set_text_def split: option.splits sum.splits)
  moreover have "mut_modified m' \<Longrightarrow> mut_modified (fold (mask_column schema) ns m')" for m'
    using Cons.IH [of m'] by auto
  ultimately show ?case using Cons.IH [of "mask_column schema n m"] by auto
qed simp

lemma gateway_row_cells:
  fixes gw :: "'r gateway" and schema :: row_schema
  assumes "row_parse dr = Ret (Inr m)"
  defines "m' \<equiv> gateway_on_row gw schema m"
  shows "\<exists>m''. row_parse (row_apply m') = Ret (Inr m'') \<and> field_count (row_apply m') = field_count dr \<and>
    length (row_cells m'') = length (row_cells m) \<and>
    (\<forall>i < length (row_cells m). row_cells m'' ! i = shown_cell schema (gw_mask_columns gw) i (row_cells m ! i))"
proof -
  from assms(1) have m: "row_wf m" "mut_row m = dr" by (auto dest: row_wf_parse)
  note c = mask_columns_cells [OF m(1), of schema "gw_mask_columns gw", folded gateway_on_row_def, folded m'_def]
  have "\<exists>m''. row_parse (row_apply m') = Ret (Inr m'') \<and> row_cells m'' = row_cells m'"
    using c assms(1) m mask_columns_modified [of schema "gw_mask_columns gw" m]
    by (intro row_apply_cells [of m' m]) (auto simp: m'_def gateway_on_row_def)
  moreover have "field_count (row_apply m') = field_count dr" using c m by (simp add: row_apply_def)
  ultimately show ?thesis using c by auto
qed

text \<open>The hooks of a session that runs the gateway.\<close>

definition runs_gateway ::
    "'r regex_ops \<Rightarrow> (nat \<Rightarrow> instant) \<Rightarrow> gateway_state \<Rightarrow> 'r gateway \<Rightarrow> gateway_state session_hooks \<Rightarrow> bool" where
  "runs_gateway ops now gs gw h \<longleftrightarrow>
     sh_interceptor h = gateway_interceptor ops now gs gw \<and> sh_wants_rows h = (gw_mask_columns gw \<noteq> []) \<and> \<not> sh_adjust_counts h"

lemma session_hooks_new_runs: "runs_gateway ops now gs gw (session_hooks_new t (gateway_interceptor ops now gs gw))"
  by (simp add: runs_gateway_def session_hooks_new_def gateway_interceptor_def default_hooks_def)

text \<open>
  What the client is shown of a server message under schema \<open>schema\<close>. A row that can be read is masked, one that cannot is
  passed on as it is; the schema is that of the last RowDescription.
\<close>

definition shown_row :: "row_schema \<Rightarrow> string list \<Rightarrow> data_row \<Rightarrow> data_row \<Rightarrow> bool" where
  "shown_row schema names dr dr' \<longleftrightarrow>
     (case row_parse dr of
        Panic \<Rightarrow> False
      | Ret (Inl e) \<Rightarrow> dr' = dr
      | Ret (Inr m) \<Rightarrow>
          \<exists>m'. row_parse dr' = Ret (Inr m') \<and> field_count dr' = field_count dr \<and> length (row_cells m') = length (row_cells m) \<and>
            (\<forall>i < length (row_cells m). row_cells m' ! i = shown_cell schema names i (row_cells m ! i)))"

fun shown_msg :: "row_schema \<Rightarrow> string list \<Rightarrow> backend_msg \<Rightarrow> backend_msg \<Rightarrow> bool" where
  "shown_msg schema names (BDataRow dr) m' = (\<exists>dr'. m' = BDataRow dr' \<and> shown_row schema names dr dr')"
| "shown_msg schema names m m' = (m' = m)"

fun next_schema :: "string list \<Rightarrow> backend_msg \<Rightarrow> row_schema \<Rightarrow> row_schema" where
  "next_schema names (BRowDescription fs) schema = (if names = [] then schema else from_row_description fs)"
| "next_schema names m schema = schema"

fun shown_stream :: "row_schema \<Rightarrow> string list \<Rightarrow> backend_msg list \<Rightarrow> backend_msg list \<Rightarrow> bool" where
  "shown_stream schema names [] out = (out = [])"
| "shown_stream schema names (m # ms) out =
     (\<exists>m' out'. out = m' # out' \<and> shown_msg schema names m m' \<and> shown_stream (next_schema names m schema) names ms out')"

lemma unmasked_row: "row_parse dr = Ret (Inr m) \<Longrightarrow> shown_row schema [] dr dr"
  by (auto simp: shown_row_def shown_cell_def split: option.splits)

lemma gateway_rows:
  assumes "pm_hooks p = Some h" "runs_gateway ops now gs gw h" "\<And>dr. m = BDataRow dr \<Longrightarrow> row_parse dr \<noteq> Panic"
  shows "\<exists>m' h'. be_rows m p = Ret (Some m', p\<lparr>pm_hooks := Some h'\<rparr>) \<and> shown_msg (sh_schema h) (gw_mask_columns gw) m m' \<and>
     runs_gateway ops now gs gw h' \<and> sh_schema h' = next_schema (gw_mask_columns gw) m (sh_schema h) \<and> is_ready m' = is_ready m"
proof (cases "\<exists>dr. m = BDataRow dr")
  case True
  then obtain dr where m: "m = BDataRow dr" by blast
  show ?thesis
  proof (cases "row_parse dr")
    case Panic
    with assms(3) m show ?thesis by simp
  next
    case (Ret r)
    show ?thesis
    proof (cases "r")
      case (Inl e)
      with Ret assms m show ?thesis
        by (auto simp: be_rows_def run_row_hook_def runs_gateway_def count_row_def shown_row_def)
    next
      case (Inr row)
      with Ret gateway_row_cells [of dr row gw "sh_schema h"] unmasked_row [of dr row "sh_schema h"] assms m show ?thesis
        by (cases "gw_mask_columns gw = []")
          (auto simp: be_rows_def run_row_hook_def runs_gateway_def gateway_interceptor_def default_hooks_def count_row_def shown_row_def Let_def)
    qed
  qed
next
  case False
  with assms(1,2) show ?thesis
    by (cases m) (auto simp: be_rows_def adjust_complete_def runs_gateway_def Let_def)
qed

lemma gateway_forward:
  assumes "pm_hooks p = Some h" "runs_gateway ops now gs gw h" "ds_results (pm_ds p) = []" "\<not> pm_draining p" "\<not> transaction_mode se"
  shows "\<exists>q h'. be_hook se status m p = Goes q \<and> pm_hooks q = Some h' \<and> runs_gateway ops now gs gw h' \<and> sh_schema h' = sh_schema h \<and>
     ds_results (pm_ds q) = [] \<and> ds_sent (pm_ds q) = ds_sent (pm_ds p) @ [m] \<and> \<not> pm_draining q \<and> pm_lease q = pm_lease p"
  using assms
  by (auto simp: be_hook_def be_forward_def take_report_def give_report_def be_detach_def detach_if_idle_def runs_gateway_def
      gateway_interceptor_def default_hooks_def pm_tick_def Let_def split: prod.splits option.splits)

lemma gateway_message:
  assumes "pm_hooks p = Some h" "runs_gateway ops now gs gw h" "ds_results (pm_ds p) = []" "\<not> pm_draining p" "\<not> transaction_mode se"
    and "\<And>dr. m = BDataRow dr \<Longrightarrow> row_parse dr \<noteq> Panic"
  shows "\<exists>q h' m'. upstream_message se m g p = Goes q \<and> shown_msg (sh_schema h) (gw_mask_columns gw) m m' \<and> pm_hooks q = Some h' \<and>
     runs_gateway ops now gs gw h' \<and> sh_schema h' = next_schema (gw_mask_columns gw) m (sh_schema h) \<and> ds_results (pm_ds q) = [] \<and>
     ds_sent (pm_ds q) = ds_sent (pm_ds p) @ [m'] \<and> \<not> pm_draining q \<and> pm_lease q = Some (set_h_conn (track_conn m (h_conn g)) g)"
proof -
  let ?p = "be_track se m g p"
  have p: "pm_hooks ?p = Some h" "ds_results (pm_ds ?p) = []" "ds_sent (pm_ds ?p) = ds_sent (pm_ds p)" "\<not> pm_draining ?p"
    "pm_lease ?p = Some (set_h_conn (track_conn m (h_conn g)) g)"
    using assms(1,3,4) by (auto simp: be_track_def Let_def ds_set_status_def split: backend_msg.splits)
  obtain m' h1 where r: "be_rows m ?p = Ret (Some m', ?p\<lparr>pm_hooks := Some h1\<rparr>)" "shown_msg (sh_schema h) (gw_mask_columns gw) m m'"
    "runs_gateway ops now gs gw h1" "sh_schema h1 = next_schema (gw_mask_columns gw) m (sh_schema h)"
    using gateway_rows [OF p(1) assms(2,6)] by blast
  from gateway_forward [of "?p\<lparr>pm_hooks := Some h1\<rparr>" h1 ops now gs gw se "transaction_status (track_conn m (h_conn g))" m'] r p assms(5)
  show ?thesis by (fastforce simp: upstream_message_def)
qed

text \<open>
  Property C24. What a client of the example gateway sees of everything a server sends, over whole sessions in session mode. Every message comes
  through once and in order, unchanged unless it is a row. A row is masked by the schema of the last RowDescription sent before
  it: it stays well formed with as many columns as before, in each masked name's first column a text value becomes three
  asterisks and NULL stays NULL, and every other cell is untouched - which includes a value that is not UTF-8 and any further column of the
  same name. A row that does not parse is passed on unmasked. Rows of a statement that was not described again - a
  prepared statement executed another time - are masked by whatever RowDescription came last, another statement's included.
\<close>

theorem gateway_masks_rows:
  assumes "\<not> transaction_mode se" "pm_hooks p = Some h" "runs_gateway ops now gs gw h" "ds_results (pm_ds p) = []" "\<not> pm_draining p"
    and "pm_lease p = Some g" "inbox (h_conn g) = map RMsg ms" "\<forall>dr. BDataRow dr \<in> set ms \<longrightarrow> row_parse dr \<noteq> Panic"
  shows "\<exists>q out. pump_run se (replicate (length ms) UpstreamReady) p = Goes q \<and> ds_sent (pm_ds q) = ds_sent (pm_ds p) @ out \<and>
     shown_stream (sh_schema h) (gw_mask_columns gw) ms out"
  using assms(2-8)
proof (induction ms arbitrary: p h g)
  case Nil
  then show ?case by simp
next
  case (Cons m ms)
  let ?g = "set_h_conn ((h_conn g)\<lparr>inbox := map RMsg ms\<rparr>) g"
  have arm: "upstream_arm se p = upstream_message se m ?g p" using Cons.prems(5,6) by (simp add: upstream_arm_def)
  obtain q h' m' where q: "upstream_message se m ?g p = Goes q" "shown_msg (sh_schema h) (gw_mask_columns gw) m m'" "pm_hooks q = Some h'"
    "runs_gateway ops now gs gw h'" "sh_schema h' = next_schema (gw_mask_columns gw) m (sh_schema h)" "ds_results (pm_ds q) = []"
    "ds_sent (pm_ds q) = ds_sent (pm_ds p) @ [m']" "\<not> pm_draining q" "pm_lease q = Some (set_h_conn (track_conn m (h_conn ?g)) ?g)"
    using gateway_message [OF Cons.prems(1-4) assms(1), of m ?g] Cons.prems(7) by auto
  have "inbox (track_conn m (h_conn ?g)) = map RMsg ms"
    by (cases m) (simp_all add: set_transaction_status_def set_server_parameter_def)
  with Cons.IH [OF q(3,4,6,8,9)] Cons.prems(7) obtain q' out where "pump_run se (replicate (length ms) UpstreamReady) q = Goes q'"
    "ds_sent (pm_ds q') = ds_sent (pm_ds q) @ out" "shown_stream (sh_schema h') (gw_mask_columns gw) ms out" by auto
  with arm q show ?case by auto
qed

definition sample_gateway :: "string gateway" where
  "sample_gateway =
     \<lparr>gw_deny = \<lparr>dl_patterns = [''drop''], dl_code = ''42501'', dl_message = ''no''\<rparr>, gw_rewrites = [],
      gw_mask_columns = [''ssn''], gw_rw_split = None, gw_shards = Some [''a'', ''b''], gw_shard_all = Some ''select''\<rparr>"

definition sample_gateway_state :: gateway_state where
  "sample_gateway_state = \<lparr>gs_group = group_new [''a'', ''b''], gs_audit = audit_new, gs_reports = [], gs_reads = 0\<rparr>"

definition sample_gateway_hooks :: "gateway_state session_hooks" where
  "sample_gateway_hooks = session_hooks_new 0 (gateway_interceptor prefix_regex (\<lambda>n. n) sample_gateway_state sample_gateway)"

definition sample_row :: data_row where
  "sample_row = \<lparr>row_data = [0, 0, 0, 1, 55, 0, 0, 0, 2, 49, 50], field_count = 2\<rparr>"

definition sample_fields :: "string \<Rightarrow> string \<Rightarrow> field_description list" where
  "sample_fields a b = [\<lparr>fd_name = a, fd_type_id = 23, fd_format_code = 0\<rparr>, \<lparr>fd_name = b, fd_type_id = 25, fd_format_code = 0\<rparr>]"

text \<open>Two statements: the first with the secret in its second column; the second, not described again, has it in its first.\<close>

definition sample_gateway_pump :: "(frontend_msg list, gateway_state) pump" where
  "sample_gateway_pump =
     pump_new (log_se SessionMode) sample_downstream
       (Some (log_held (map RMsg [BRowDescription (sample_fields ''id'' ''ssn''), BDataRow sample_row, BReadyForQuery Idle, BDataRow sample_row])))
       (Some sample_gateway_hooks) False \<lparr>w_pools = Map.empty, w_tick = 0\<rparr>"

lemma sample_gateway_runs: "runs_gateway prefix_regex (\<lambda>n. n) sample_gateway_state sample_gateway sample_gateway_hooks"
  unfolding sample_gateway_hooks_def by (rule session_hooks_new_runs)

lemma sample_row_shown:
  assumes "shown_row (from_row_description (sample_fields ''id'' ''ssn'')) [''ssn''] sample_row dr'"
  shows "\<exists>m'. row_parse dr' = Ret (Inr m') \<and> row_cells m' = [Some [55], Some [42, 42, 42]]"
proof -
  let ?s = "from_row_description (sample_fields ''id'' ''ssn'')"
  let ?m = "\<lparr>mut_row = sample_row, mut_values = [Some (Range 4 1), Some (Range 9 2)], mut_modified = False\<rparr>"
  have "row_parse sample_row = Ret (Inr ?m)" "row_cells ?m = [Some [55], Some [49, 50]]" by code_simp+
  then obtain m where m: "row_parse sample_row = Ret (Inr m)" and cells: "row_cells m = [Some [55], Some [49, 50]]" by blast
  have "valid_utf8 [49, 50]" by code_simp
  then have s: "shown_cell ?s [''ssn''] 0 (Some [55]) = Some [55]" "shown_cell ?s [''ssn''] 1 (Some [49, 50]) = Some mask_text"
    by (simp_all add: shown_cell_def from_row_description_def sample_fields_def column_index_def del: valid_utf8.simps)
  from assms m obtain m' where m': "row_parse dr' = Ret (Inr m')" and c: "length (row_cells m') = 2"
      "\<forall>i<2. row_cells m' ! i = shown_cell ?s [''ssn''] i (row_cells m ! i)"
    by (auto simp: shown_row_def cells)
  have "row_cells m' = [row_cells m' ! 0, row_cells m' ! 1]"
    using c(1) by (cases "row_cells m'"; cases "tl (row_cells m')") auto
  with c(2) s have "row_cells m' = [Some [55], Some [42, 42, 42]]" by (simp add: cells mask_text_bytes)
  with m' show ?thesis by blast
qed

theorem gateway_masks_rows_witness:
  "\<exists>q dr1 m1 dr2 m2. pump_run (log_se SessionMode) (replicate 4 UpstreamReady) sample_gateway_pump = Goes q \<and>
     ds_sent (pm_ds q) = [BRowDescription (sample_fields ''id'' ''ssn''), BDataRow dr1, BReadyForQuery Idle, BDataRow dr2] \<and>
     row_parse dr1 = Ret (Inr m1) \<and> row_cells m1 = [Some [55], Some [42, 42, 42]] \<and>
     row_parse dr2 = Ret (Inr m2) \<and> row_cells m2 = [Some [55], Some [42, 42, 42]]"
proof -
  let ?ms = "[BRowDescription (sample_fields ''id'' ''ssn''), BDataRow sample_row, BReadyForQuery Idle, BDataRow sample_row]"
  have parses: "row_parse sample_row \<noteq> Panic" by code_simp
  have "pm_hooks sample_gateway_pump = Some sample_gateway_hooks" "ds_results (pm_ds sample_gateway_pump) = []" "\<not> pm_draining sample_gateway_pump"
    "pm_lease sample_gateway_pump = Some (log_held (map RMsg ?ms))" "inbox (h_conn (log_held (map RMsg ?ms))) = map RMsg ?ms"
    "\<not> transaction_mode (log_se SessionMode)" "ds_sent (pm_ds sample_gateway_pump) = []"
    by (simp_all add: sample_gateway_pump_def pump_samples transaction_mode_def)
  with gateway_masks_rows [OF this(6,1) sample_gateway_runs this(2-5)] parses obtain q out where
    "pump_run (log_se SessionMode) (replicate (length ?ms) UpstreamReady) sample_gateway_pump = Goes q" "ds_sent (pm_ds q) = out"
    "shown_stream (sh_schema sample_gateway_hooks) (gw_mask_columns sample_gateway) ?ms out" by auto
  moreover have "gw_mask_columns sample_gateway = [''ssn'']" by (simp add: sample_gateway_def)
  ultimately show ?thesis using sample_row_shown by (fastforce simp: numeral_eq_Suc)
qed

section \<open>Scattered queries\<close>

text \<open>What the client has received when handling a message ends, unless the task panics.\<close>

fun flow_ds :: "('s, 'c) pump flow \<Rightarrow> downstream option" where
  "flow_ds (Goes p) = Some (pm_ds p)"
| "flow_ds (Ends _ p) = Some (pm_ds p)"
| "flow_ds (Hangs p) = Some (pm_ds p)"
| "flow_ds Panics = None"

lemma finish_cycle_ds [simp]: "pm_ds (finish_cycle se p) = pm_ds p"
  by (simp add: finish_cycle_def pm_tick_def split: option.splits)

lemma with_cycle_ds [simp]: "pm_ds (with_cycle f p) = pm_ds p"
  by (simp add: with_cycle_def)

lemma flow_ds_send_then:
  assumes "pm_ds p = pm_ds q" "\<And>d. flow_ds (k (p\<lparr>pm_ds := d\<rparr>)) = flow_ds (k' (q\<lparr>pm_ds := d\<rparr>))"
  shows "flow_ds (send_then m p k) = flow_ds (send_then m q k')"
  using assms by (simp add: send_then_def split: prod.splits bool.splits)

lemma scatter_failed_ds:
  "pm_ds p = pm_ds q \<Longrightarrow> flow_ds (scatter_failed se err broken p) = flow_ds (scatter_failed se err broken q)"
  unfolding scatter_failed_def Let_def
  by (intro flow_ds_send_then) (auto split: option.splits bool.splits)

text \<open>What a scattered query shows the client does not depend on the interceptor that scattered it.\<close>

lemma do_scatter_hooks_irrelevant:
  "flow_ds (do_scatter se sql kind req (p\<lparr>pm_hooks := Some h\<rparr>)) = flow_ds (do_scatter se sql kind req (p\<lparr>pm_hooks := Some h'\<rparr>))"
proof -
  have start: "pm_ds (start_cycle se s k (p\<lparr>pm_hooks := Some h\<rparr>)) = pm_ds p" "pm_lease (start_cycle se s k (p\<lparr>pm_hooks := Some h\<rparr>)) = pm_lease p"
    "pm_endpoint (start_cycle se s k (p\<lparr>pm_hooks := Some h\<rparr>)) = pm_endpoint p"
    "pm_world (start_cycle se s k (p\<lparr>pm_hooks := Some h\<rparr>)) = pm_world p" for s k h
    by (simp_all add: start_cycle_def pm_tick_def with_cycle_def)
  show ?thesis
    by (auto simp: do_scatter_def Let_def start split: option.splits prod.splits scatter_result.splits
        intro!: scatter_failed_ds flow_ds_send_then)
qed

text \<open>
  Lemma. A scattered query is not masked: when a statement is not denied and its rewritten text matches the
  shard pattern, the client receives exactly what it would receive from a gateway that masks no column at
  all.
\<close>

theorem gateway_scatter_unmasked:
  assumes "\<not> pm_swallow p" "pm_hooks p = Some h" "runs_gateway ops now gs gw h"
    and "deny_check ops (gw_deny gw) sql = None"
    and "gw_shards gw = Some shards" "gw_shard_all gw = Some pat"
    and "rx_is_match ops pat (qc_sql (apply_rewrites ops (gw_rewrites gw) (query_cycle_new sql Simple)))"
  shows "flow_ds (client_message se (FQuery sql) p) =
    flow_ds (client_message se (FQuery sql) (p\<lparr>pm_hooks := Some (h\<lparr>sh_wants_rows := False,
      sh_interceptor := gateway_interceptor ops now gs (gw\<lparr>gw_mask_columns := []\<rparr>)\<rparr>)\<rparr>))"
proof -
  let ?q = "apply_rewrites ops (gw_rewrites gw) (query_cycle_new sql Simple)"
  let ?req = "\<lparr>sr_legs = map (\<lambda>ep. \<lparr>leg_endpoint = ep, leg_sql = qc_sql ?q\<rparr>) shards,
    sr_merge = gateway_merge (qc_sql ?q), sr_tag = ''SELECT''\<rparr>"
  have scatters: "client_message se (FQuery sql) (p\<lparr>pm_hooks := Some k\<rparr>) =
      do_scatter se sql Simple ?req ((p\<lparr>pm_extended := False\<rparr>)\<lparr>pm_hooks := Some k\<rparr>)"
    if "sh_interceptor k = gateway_interceptor ops now gs (gw\<lparr>gw_mask_columns := ms\<rparr>)" for k ms
  proof -
    have i: "cycle_input_of (FQuery sql) = Some \<lparr>ci_sql = sql, ci_kind = Simple\<rparr>" by simp
    have "fe_on_query se (FQuery sql) (p\<lparr>pm_hooks := Some k\<rparr>) =
        Handled (do_scatter se sql Simple ?req ((p\<lparr>pm_extended := False\<rparr>)\<lparr>pm_hooks := Some k\<rparr>))"
      using assms(4-7) that
      by (simp add: fe_on_query_def gateway_interceptor_def default_hooks_def gateway_on_query_def
          query_cycle_new_def broadcast_def Let_def)
    from client_message_query [OF _ i this] assms(1) show ?thesis by simp
  qed
  have p: "p\<lparr>pm_hooks := Some h\<rparr> = p" using assms(2) by simp
  have "gw\<lparr>gw_mask_columns := gw_mask_columns gw\<rparr> = gw" by simp
  with scatters [of h "gw_mask_columns gw"] assms(3) p
  have "client_message se (FQuery sql) p = do_scatter se sql Simple ?req ((p\<lparr>pm_extended := False\<rparr>)\<lparr>pm_hooks := Some h\<rparr>)"
    by (simp add: runs_gateway_def)
  with scatters [of _ "[]"] show ?thesis by (simp add: do_scatter_hooks_irrelevant [where h = h])
qed

section \<open>The command line\<close>

definition render_args :: "gateway_args \<Rightarrow> string list" where
  "render_args a =
     [''--listen'', ga_listen a] @
     (case ga_upstream a of None \<Rightarrow> [] | Some u \<Rightarrow> [''--upstream'', u]) @
     concat (map (\<lambda>(i, conn). [''--endpoint'', i @ ''='' @ conn]) (ga_endpoints a)) @
     (case ga_rw_split a of None \<Rightarrow> [] | Some p \<Rightarrow> [''--rw-split'', p]) @
     (case ga_shard_all a of None \<Rightarrow> [] | Some p \<Rightarrow> [''--shard-all'', p]) @
     concat (map (\<lambda>p. [''--deny'', p]) (ga_deny a)) @
     concat (map (\<lambda>(f, t). [''--rewrite'', f, t]) (ga_rewrites a)) @
     concat (map (\<lambda>c. [''--mask-col'', c]) (ga_mask_columns a))"

lemma parse_endpoints:
  "\<forall>(i, c)\<in>set es. CHR ''='' \<notin> set i \<Longrightarrow>
     parse_args (concat (map (\<lambda>(i, conn). [''--endpoint'', i @ ''='' @ conn]) es) @ rest) a =
     parse_args rest (a\<lparr>ga_endpoints := ga_endpoints a @ es\<rparr>)"
proof (induction es arbitrary: a)
  case (Cons e es)
  obtain i c where e: "e = (i, c)" by fastforce
  with Cons.prems split_once_first [of "CHR ''=''" i "[]" c] have "split_once ''='' (i @ ''='' @ c) = Some (i, c)" by simp
  with Cons e show ?case by simp
qed simp

lemma parse_denies:
  "parse_args (concat (map (\<lambda>p. [''--deny'', p]) ps) @ rest) a = parse_args rest (a\<lparr>ga_deny := ga_deny a @ ps\<rparr>)"
  by (induction ps arbitrary: a) simp_all

lemma parse_rewrites:
  "parse_args (concat (map (\<lambda>(f, t). [''--rewrite'', f, t]) rs) @ rest) a = parse_args rest (a\<lparr>ga_rewrites := ga_rewrites a @ rs\<rparr>)"
  by (induction rs arbitrary: a) auto

lemma parse_masks:
  "parse_args (concat (map (\<lambda>c. [''--mask-col'', c]) cs) @ rest) a = parse_args rest (a\<lparr>ga_mask_columns := ga_mask_columns a @ cs\<rparr>)"
  by (induction cs arbitrary: a) simp_all

text \<open>
  Lemma. Every configuration of the gateway whose endpoint names contain no equals sign can be given on its
  command line, and is read back as it was meant.
\<close>

theorem gateway_args_roundtrip:
  assumes "\<forall>(i, c)\<in>set (ga_endpoints a). CHR ''='' \<notin> set i"
  shows "parse_args (render_args a) gateway_args_default = Launched a"
proof -
  note step = parse_endpoints parse_denies parse_rewrites parse_masks [where rest = "[]", simplified]
  show ?thesis
    using assms
    by (cases a, cases "ga_upstream a"; cases "ga_rw_split a"; cases "ga_shard_all a")
      (simp_all add: render_args_def gateway_args_default_def step [simplified])
qed

end
