(* ===== verification/Erased.thy ===== *)
theory Erased
  imports Intercept
begin

text \<open>
  The type-erased interceptor (\<^verbatim>\<open>SessionInterceptor\<close> of src/crates/pgferry/src/intercept.rs), which lets a proxy run
  any user's interceptor without being generic in its context. A \<^verbatim>\<open>dyn Any\<close> either holds a value of the
  interceptor's own context type or one of some other type; a downcast tells which, and a hook that is
  handed the wrong one panics.
\<close>

section \<open>Dynamically typed contexts\<close>

datatype ('c, 'o) dyn_any = Holds 'c | OtherType 'o

fun downcast_mut :: "('c, 'o) dyn_any \<Rightarrow> 'c option" where
  "downcast_mut (Holds c) = Some c"
| "downcast_mut (OtherType _) = None"

text \<open>\<^verbatim>\<open>downcast_mut().expect(...)\<close>, the hook on what was found, and the context written through the reference.\<close>

definition on_ctx :: "('c \<Rightarrow> 'r \<times> 'c) \<Rightarrow> ('c, 'o) dyn_any \<Rightarrow> ('r \<times> ('c, 'o) dyn_any) outcome" where
  "on_ctx f ctx =
     (case downcast_mut ctx of
        None \<Rightarrow> Panic
      | Some c \<Rightarrow> (let (r, c') = f c in Ret (r, Holds c')))"

section \<open>The erased trait and its blanket implementation\<close>

record 'd session_interceptor =
  si_new_session_ctx :: 'd
  si_wants_rows :: bool
  si_adjust_command_counts :: bool
  si_on_query :: "'d \<Rightarrow> query_cycle \<Rightarrow> ((action \<times> query_cycle) \<times> 'd) outcome"
  si_on_frontend :: "'d \<Rightarrow> frontend_msg \<Rightarrow> ((action \<times> frontend_msg) \<times> 'd) outcome"
  si_on_backend :: "'d \<Rightarrow> backend_msg \<Rightarrow> ((action \<times> backend_msg) \<times> 'd) outcome"
  si_on_row :: "'d \<Rightarrow> row_schema \<Rightarrow> data_row_mut \<Rightarrow> ((row_action \<times> data_row_mut) \<times> 'd) outcome"
  si_on_cycle_end :: "'d \<Rightarrow> cycle_report \<Rightarrow> (unit \<times> 'd) outcome"
  si_upstream :: "'d \<Rightarrow> routing_info \<Rightarrow> (endpoint_id \<times> 'd) outcome"
  si_on_upstream_error :: "'d \<Rightarrow> upstream_error \<Rightarrow> (retry_decision \<times> 'd) outcome"
  si_on_upstream_connected :: "'d \<Rightarrow> endpoint_id \<Rightarrow> (unit \<times> 'd) outcome"

definition reassoc :: "'a \<times> 'b \<times> 'c \<Rightarrow> ('a \<times> 'b) \<times> 'c" where
  "reassoc = (\<lambda>(a, b, c). ((a, b), c))"

definition erase :: "'c interceptor \<Rightarrow> ('c, 'o) dyn_any session_interceptor" where
  "erase i =
     \<lparr>si_new_session_ctx = Holds (hook_new_ctx i),
      si_wants_rows = hook_wants_rows i,
      si_adjust_command_counts = hook_adjust_command_counts i,
      si_on_query = (\<lambda>ctx cycle. on_ctx (\<lambda>c. reassoc (hook_on_query i c cycle)) ctx),
      si_on_frontend = (\<lambda>ctx msg. on_ctx (\<lambda>c. reassoc (hook_on_frontend i c msg)) ctx),
      si_on_backend = (\<lambda>ctx msg. on_ctx (\<lambda>c. reassoc (hook_on_backend i c msg)) ctx),
      si_on_row = (\<lambda>ctx schema row. on_ctx (\<lambda>c. reassoc (hook_on_row i c schema row)) ctx),
      si_on_cycle_end = (\<lambda>ctx report. on_ctx (\<lambda>c. ((), hook_on_cycle_end i c report)) ctx),
      si_upstream = (\<lambda>ctx info. on_ctx (\<lambda>c. hook_upstream i c info) ctx),
      si_on_upstream_error = (\<lambda>ctx err. on_ctx (\<lambda>c. hook_on_upstream_error i c err) ctx),
      si_on_upstream_connected = (\<lambda>ctx ep. on_ctx (\<lambda>c. ((), hook_on_upstream_connected i c ep)) ctx)\<rparr>"

section \<open>Sessions as sequences of hook calls\<close>

text \<open>One call a session makes, and what it gets back.\<close>

datatype hook_call =
    CallQuery query_cycle
  | CallFrontend frontend_msg
  | CallBackend backend_msg
  | CallRow row_schema data_row_mut
  | CallCycleEnd cycle_report
  | CallUpstream routing_info
  | CallUpstreamError upstream_error
  | CallUpstreamConnected endpoint_id

datatype hook_answer =
    AnswerQuery "action \<times> query_cycle"
  | AnswerFrontend "action \<times> frontend_msg"
  | AnswerBackend "action \<times> backend_msg"
  | AnswerRow "row_action \<times> data_row_mut"
  | AnswerUnit unit
  | AnswerUpstream endpoint_id
  | AnswerRetry retry_decision

fun typed_call :: "'c interceptor \<Rightarrow> hook_call \<Rightarrow> 'c \<Rightarrow> hook_answer \<times> 'c" where
  "typed_call i (CallQuery q) c = apfst AnswerQuery (reassoc (hook_on_query i c q))"
| "typed_call i (CallFrontend m) c = apfst AnswerFrontend (reassoc (hook_on_frontend i c m))"
| "typed_call i (CallBackend m) c = apfst AnswerBackend (reassoc (hook_on_backend i c m))"
| "typed_call i (CallRow s r) c = apfst AnswerRow (reassoc (hook_on_row i c s r))"
| "typed_call i (CallCycleEnd rep) c = (AnswerUnit (), hook_on_cycle_end i c rep)"
| "typed_call i (CallUpstream info) c = apfst AnswerUpstream (hook_upstream i c info)"
| "typed_call i (CallUpstreamError e) c = apfst AnswerRetry (hook_on_upstream_error i c e)"
| "typed_call i (CallUpstreamConnected ep) c = (AnswerUnit (), hook_on_upstream_connected i c ep)"

fun map_ret :: "('a \<Rightarrow> 'b) \<Rightarrow> 'a outcome \<Rightarrow> 'b outcome" where
  "map_ret f (Ret x) = Ret (f x)"
| "map_ret f Panic = Panic"

fun erased_call :: "'d session_interceptor \<Rightarrow> hook_call \<Rightarrow> 'd \<Rightarrow> (hook_answer \<times> 'd) outcome" where
  "erased_call s (CallQuery q) d = map_ret (apfst AnswerQuery) (si_on_query s d q)"
| "erased_call s (CallFrontend m) d = map_ret (apfst AnswerFrontend) (si_on_frontend s d m)"
| "erased_call s (CallBackend m) d = map_ret (apfst AnswerBackend) (si_on_backend s d m)"
| "erased_call s (CallRow sc r) d = map_ret (apfst AnswerRow) (si_on_row s d sc r)"
| "erased_call s (CallCycleEnd rep) d = map_ret (apfst AnswerUnit) (si_on_cycle_end s d rep)"
| "erased_call s (CallUpstream info) d = map_ret (apfst AnswerUpstream) (si_upstream s d info)"
| "erased_call s (CallUpstreamError e) d = map_ret (apfst AnswerRetry) (si_on_upstream_error s d e)"
| "erased_call s (CallUpstreamConnected ep) d = map_ret (apfst AnswerUnit) (si_on_upstream_connected s d ep)"

fun typed_run :: "'c interceptor \<Rightarrow> hook_call list \<Rightarrow> 'c \<Rightarrow> hook_answer list \<times> 'c" where
  "typed_run i [] c = ([], c)"
| "typed_run i (h # hs) c = (let (a, c) = typed_call i h c in apfst (Cons a) (typed_run i hs c))"

fun erased_run :: "'d session_interceptor \<Rightarrow> hook_call list \<Rightarrow> 'd \<Rightarrow> (hook_answer list \<times> 'd) outcome" where
  "erased_run s [] d = Ret ([], d)"
| "erased_run s (h # hs) d =
     (case erased_call s h d of
        Panic \<Rightarrow> Panic
      | Ret (a, d) \<Rightarrow> map_ret (apfst (Cons a)) (erased_run s hs d))"

section \<open>Erasure changes nothing\<close>

lemma on_ctx_Holds: "on_ctx f (Holds c) = Ret (apsnd Holds (f c))"
  by (simp add: on_ctx_def split: prod.splits)

lemma on_ctx_other: "on_ctx f (OtherType x) = Panic"
  by (simp add: on_ctx_def)

lemma erased_call_Holds: "erased_call (erase i) h (Holds c) = Ret (apsnd Holds (typed_call i h c))"
  by (cases h) (auto simp: erase_def on_ctx_Holds apfst_def apsnd_def map_prod_def split: prod.splits)

lemma erased_call_other: "erased_call (erase i) h (OtherType x) = Panic"
  by (cases h) (simp_all add: erase_def on_ctx_other)

lemma erased_run_Holds: "erased_run (erase i) hs (Holds c) = Ret (apsnd Holds (typed_run i hs c))"
proof (induction hs arbitrary: c)
  case (Cons h hs)
  obtain a c' where "typed_call i h c = (a, c')" by fastforce
  with Cons show ?case by (simp add: erased_call_Holds apfst_def apsnd_def map_prod_def split: prod.splits)
qed simp

text \<open>
  Lemma. Type erasure is sound: whatever hooks a session calls, in whatever order, on the context
  the erased interceptor created for it, no downcast fails, every answer is the one the user's
  interceptor gives on its own context, and the context ends up the same; the flags are the user's too. A
  context of any other type makes every hook that takes one panic, so the guarantee rests on each session
  using the context of its own interceptor.
\<close>

theorem erasure_sound:
  "erased_run (erase i :: ('c, 'o) dyn_any session_interceptor) hs (si_new_session_ctx (erase i)) =
     Ret (apsnd Holds (typed_run i hs (hook_new_ctx i))) \<and>
   si_wants_rows (erase i :: ('c, 'o) dyn_any session_interceptor) = hook_wants_rows i \<and>
   si_adjust_command_counts (erase i :: ('c, 'o) dyn_any session_interceptor) = hook_adjust_command_counts i \<and>
   erased_call (erase i) h (OtherType x :: ('c, 'o) dyn_any) = Panic"
proof -
  have "si_new_session_ctx (erase i :: ('c, 'o) dyn_any session_interceptor) = Holds (hook_new_ctx i)"
    by (simp add: erase_def)
  then show ?thesis by (simp add: erased_run_Holds erased_call_other) (simp add: erase_def)
qed

end
