(* ===== verification/Upstream.thy ===== *)
theory Upstream
  imports Tls Attach
begin

text \<open>
  Opening an upstream connection (src/crates/pgferry/src/upstream.rs), and the factory that a pool calls for it
  (\<^verbatim>\<open>make_factory_for\<close> of src/crates/pgferry/src/session.rs). Parsing a connection string, the setters of the parsed
  configuration, and connecting with the startup handshake are pgwire's; they are the parameter \<open>driver\<close>.
\<close>

record ('g, 'r, 's) driver =
  dr_parse :: "string \<Rightarrow> client_error + 'g"
  dr_user :: "string \<Rightarrow> 'g \<Rightarrow> 'g"
  dr_dbname :: "string \<Rightarrow> 'g \<Rightarrow> 'g"
  dr_password :: "string \<Rightarrow> 'g \<Rightarrow> 'g"
  dr_connect :: "'g \<Rightarrow> 'r tls_connector option \<Rightarrow> nat \<Rightarrow> (client_error, 's conn) io"

definition connect_parts ::
    "('g, 'r, 's) driver \<Rightarrow> string \<Rightarrow> string \<Rightarrow> string option \<Rightarrow> string option \<Rightarrow> 'r tls_connector option \<Rightarrow> nat \<Rightarrow>
       (client_error, 's conn) io" where
  "connect_parts drv connstring user database password tls t =
     (case dr_parse drv connstring of
        Inl e \<Rightarrow> Fail e
      | Inr config \<Rightarrow>
          (let config = dr_user drv user config;
               config = (case database of Some db \<Rightarrow> dr_dbname drv db config | None \<Rightarrow> config);
               config = (case password of Some pw \<Rightarrow> dr_password drv pw config | None \<Rightarrow> config)
           in dr_connect drv config tls t))"

text \<open>The closure of \<^verbatim>\<open>make_factory_for\<close> on the values it captured, as the connector of the pool model.\<close>

definition factory_connect :: "('d, 'k, 'r, 'v, 'a) tls_ops \<Rightarrow> ('g, 'r, 's) driver \<Rightarrow> 's connector" where
  "factory_connect tls drv args t =
     connect_parts drv (ca_connstring args) (ca_user args) (ca_database args) (ca_password args)
       (build_upstream_connector tls (ca_tls args)) t"

section \<open>Which certificates are accepted\<close>

text \<open>
  Property C30. What protects an upstream connection. With \<open>insecure\<close> set, TLS is offered and every
  certificate is accepted, whatever CA is configured. With a CA file whose every certificate can be used, TLS
  is offered and exactly the chains that verify against those anchors are accepted. With a CA file that is
  missing, malformed or holds an unusable certificate, no TLS is offered at all: the connection is opened
  exactly as if no CA had been configured.
\<close>

theorem upstream_tls_policy:
  assumes "ca_tls args = cfg"
  shows "(tls_insecure cfg \<longrightarrow>
      (\<exists>c. build_upstream_connector tls cfg = Some c \<and> (\<forall>v. verify_server_cert tls (tc_verifier c) v))) \<and>
    (\<forall>path roots. \<not> tls_insecure cfg \<and> tls_ca cfg = Some path \<and> ca_anchors tls path = Some roots \<longrightarrow>
      (\<exists>c. build_upstream_connector tls cfg = Some c \<and> (\<forall>v. verify_server_cert tls (tc_verifier c) v = to_verify tls roots v))) \<and>
    (\<forall>path. \<not> tls_insecure cfg \<and> tls_ca cfg = Some path \<and>
        ((\<exists>e. to_open tls path = Inl e) \<or>
         (\<exists>data. to_open tls path = Inr data \<and>
            ((\<exists>e. Inl e \<in> set (to_certs tls data)) \<or>
             (\<exists>certs. to_certs tls data = map Inr certs \<and> add_roots tls certs (to_empty_roots tls) = None)))) \<longrightarrow>
      factory_connect tls drv args t = factory_connect tls drv (args\<lparr>ca_tls := upstream_tls_default\<rparr>) t)"
proof (intro conjI allI impI)
  show "\<exists>c. build_upstream_connector tls cfg = Some c \<and> (\<forall>v. verify_server_cert tls (tc_verifier c) v)"
    if "tls_insecure cfg"
    using that by (auto simp: build_upstream_connector_def)
next
  fix path roots
  assume "\<not> tls_insecure cfg \<and> tls_ca cfg = Some path \<and> ca_anchors tls path = Some roots"
  then show "\<exists>c. build_upstream_connector tls cfg = Some c \<and> (\<forall>v. verify_server_cert tls (tc_verifier c) v = to_verify tls roots v)"
    by (simp add: build_upstream_connector_secure)
next
  fix path
  assume bad: "\<not> tls_insecure cfg \<and> tls_ca cfg = Some path \<and>
      ((\<exists>e. to_open tls path = Inl e) \<or>
       (\<exists>data. to_open tls path = Inr data \<and>
          ((\<exists>e. Inl e \<in> set (to_certs tls data)) \<or>
           (\<exists>certs. to_certs tls data = map Inr certs \<and> add_roots tls certs (to_empty_roots tls) = None))))"
  then have "ca_anchors tls path = None" by (simp only: ca_anchors_None)
  with bad have "build_upstream_connector tls cfg = None" by (simp add: build_upstream_connector_secure)
  moreover have "build_upstream_connector tls upstream_tls_default = None"
    by (simp add: build_upstream_connector_def upstream_tls_default_def)
  ultimately show "factory_connect tls drv args t = factory_connect tls drv (args\<lparr>ca_tls := upstream_tls_default\<rparr>) t"
    using assms by (simp add: factory_connect_def)
qed

definition no_ca_tls :: "(unit, unit, unit, unit, unit) tls_ops" where
  "no_ca_tls =
     \<lparr>to_open = (\<lambda>path. Inl (OsError ''not found'')), to_certs = (\<lambda>d. []), to_pkcs8_keys = (\<lambda>d. []), to_rsa_keys = (\<lambda>d. []),
      to_single_cert = (\<lambda>cs k. Inr ()), to_empty_roots = (), to_add_root = (\<lambda>c r. Some r), to_verify = (\<lambda>r v. False)\<rparr>"

definition clear_driver :: "(string option, unit, bool) driver" where
  "clear_driver =
     \<lparr>dr_parse = (\<lambda>s. Inr None), dr_user = (\<lambda>u g. Some u), dr_dbname = (\<lambda>d g. g), dr_password = (\<lambda>pw g. g),
      dr_connect = (\<lambda>g tls t. Done \<lparr>wire = (tls \<noteq> None), inbox = [], at_eof = False, process_id = 1,
        server_parameters = Map.empty, transaction_status = Idle\<rparr>)\<rparr>"

definition ca_args :: connect_args where
  "ca_args = \<lparr>ca_connstring = ''host=db'', ca_user = ''u'', ca_database = None, ca_password = Some ''secret'',
     ca_tls = \<lparr>tls_ca = Some ''/etc/ca.pem'', tls_insecure = False\<rparr>\<rparr>"

theorem upstream_tls_policy_witness:
  "\<exists>c. factory_connect no_ca_tls clear_driver ca_args 0 = Done c \<and> \<not> wire c"
proof -
  let ?cfg = "\<lparr>tls_ca = Some ''/etc/ca.pem'', tls_insecure = False\<rparr>"
  have "ca_tls ca_args = ?cfg" "to_open no_ca_tls ''/etc/ca.pem'' = Inl (OsError ''not found'')"
    by (simp_all add: ca_args_def no_ca_tls_def)
  then have "factory_connect no_ca_tls clear_driver ca_args 0 =
      factory_connect no_ca_tls clear_driver (ca_args\<lparr>ca_tls := upstream_tls_default\<rparr>) 0"
    using upstream_tls_policy [of ca_args ?cfg no_ca_tls clear_driver 0] by simp
  also have "\<dots> = Done \<lparr>wire = False, inbox = [], at_eof = False, process_id = 1, server_parameters = Map.empty, transaction_status = Idle\<rparr>"
    by (simp add: factory_connect_def connect_parts_def clear_driver_def build_upstream_connector_def upstream_tls_default_def)
  finally show ?thesis by simp
qed

end
