(* ===== verification/Ownership.thy ===== *)
theory Ownership
  imports Pump_Invariant Upstream
begin

text \<open>
  Whose connections are whose. A PostgreSQL connection belongs to the user and database it was opened with,
  for as long as it lives. Pools are keyed by user and database (pool.rs, session.rs), and this theory shows
  that the keying works: along every run of a session, with all its attaching, detaching, scattering and
  pooling, every connection a pool parks was opened for that pool's user and database, and the one the
  session uses for the session's. \<open>owner w\<close> is the identity of the connection with transport state \<open>w\<close>.
\<close>

type_synonym identity = "string \<times> string option"

definition key_owner :: "pool_key \<Rightarrow> identity" where
  "key_owner k = (key_user k, key_database k)"

definition args_owner :: "connect_args \<Rightarrow> identity" where
  "args_owner a = (ca_user a, ca_database a)"

definition session_owner :: "session_params \<Rightarrow> identity" where
  "session_owner sp = (sp_user sp, sp_database sp)"

text \<open>What is relied on: nothing sent over a connection changes its identity, and connecting gives the one asked for.\<close>

definition owner_fixed :: "'s client_ops \<Rightarrow> ('s \<Rightarrow> identity) \<Rightarrow> bool" where
  "owner_fixed ops owner \<longleftrightarrow>
     (\<forall>w m w' items. op_send ops w m = Inr (w', items) \<longrightarrow> owner w' = owner w) \<and>
     (\<forall>w m w' items. op_feed ops w m = Inr (w', items) \<longrightarrow> owner w' = owner w) \<and>
     (\<forall>w. owner (fst (op_cancel ops w)) = owner w) \<and>
     (\<forall>c q. owner (wire (snd (op_simple_query ops c q))) = owner (wire c))"

definition connects_as :: "'s connector \<Rightarrow> ('s \<Rightarrow> identity) \<Rightarrow> bool" where
  "connects_as connect owner \<longleftrightarrow> (\<forall>args t c. connect args t = Done c \<longrightarrow> owner (wire c) = args_owner args)"

section \<open>Connections\<close>

lemma owner_simple_query:
  assumes "owner_fixed ops owner" "op_simple_query ops c q = (r, c')"
  shows "owner (wire c') = owner (wire c)"
proof -
  have "owner (wire (snd (op_simple_query ops c q))) = owner (wire c)" using assms(1) unfolding owner_fixed_def by blast
  with assms(2) show ?thesis by simp
qed

lemma owner_send: "owner_fixed ops owner \<Longrightarrow> conn_send ops m c = (e, c') \<Longrightarrow> owner (wire c') = owner (wire c)"
  by (auto simp: conn_send_def owner_fixed_def split: sum.splits) blast

lemma owner_feed: "owner_fixed ops owner \<Longrightarrow> conn_feed ops m c = (e, c') \<Longrightarrow> owner (wire c') = owner (wire c)"
  by (auto simp: conn_feed_def owner_fixed_def split: sum.splits) blast

lemma owner_cancel: "owner_fixed ops owner \<Longrightarrow> owner (wire (conn_cancel ops c)) = owner (wire c)"
  by (auto simp: conn_cancel_def owner_fixed_def split: prod.splits) (metis fst_conv)

lemma wire_drain_items: "drain_items items c = (r, c') \<Longrightarrow> wire c' = wire c"
proof (induction items c rule: drain_items.induct)
  case (3 m items c)
  then show ?case by (cases m) (auto simp: io_simps)
qed auto

lemma wire_drain_within: "drain_within k c = (r, c') \<Longrightarrow> wire c' = wire c"
  by (auto simp: drain_within_def dest: wire_drain_items split: prod.splits)

lemma owner_close_cycle: "owner_fixed ops owner \<Longrightarrow> close_cycle ops c = (r, c') \<Longrightarrow> owner (wire c') = owner (wire c)"
  by (auto simp: close_cycle_def drain_until_ready_def split: prod.splits option.splits
      dest!: wire_drain_items owner_send)

lemma owner_probe: "owner_fixed ops owner \<Longrightarrow> probe ops c = (r, c') \<Longrightarrow> owner (wire c') = owner (wire c)"
  by (auto simp: probe_def split: prod.splits io.splits dest: owner_close_cycle)

lemma owner_settle:
  assumes "owner_fixed ops owner" "settle ops b aw c = (r, c')"
  shows "owner (wire c') = owner (wire c)"
proof -
  obtain e c1 where 1: "(if b then conn_send ops (FCopyFail ''pgferry: client disconnected during COPY'') c else (None, c)) = (e, c1)"
    by fastforce
  then have o1: "owner (wire c1) = owner (wire c)" using owner_send [OF assms(1)] by (auto split: if_splits)
  let ?c2 = "if aw then conn_cancel ops c1 else c1"
  have o2: "owner (wire ?c2) = owner (wire c1)" using owner_cancel [OF assms(1)] by simp
  obtain r3 c3 where 3: "drain_within (op_window ops ?c2) ?c2 = (r3, c3)" by fastforce
  then have "wire c3 = wire ?c2" by (rule wire_drain_within)
  with assms(2) 1 3 o1 o2 owner_close_cycle [OF assms(1)] show ?thesis
    by (fastforce simp: settle_def Let_def split: option.splits io.splits)
qed

lemma owner_sanitize:
  assumes "owner_fixed ops owner" "sanitize ops h c = (r, c')"
  shows "owner (wire c') = owner (wire c)"
proof -
  obtain r1 c1 where 1: "(if copy h = ClientOwesCopy then settle ops True (awaiting_response h) c
      else if awaiting_response h then settle ops False True c else close_cycle ops c) = (r1, c1)" by fastforce
  then have o1: "owner (wire c1) = owner (wire c)"
    by (auto split: if_splits dest: owner_settle [OF assms(1)] owner_close_cycle [OF assms(1)])
  obtain r2 c2 where 2: "(if transaction_status c1 \<noteq> Idle then op_simple_query ops c1 ''ROLLBACK'' else (Done (), c1)) = (r2, c2)"
    by fastforce
  then have "owner (wire c2) = owner (wire c1)" by (auto split: if_splits dest: owner_simple_query [OF assms(1)])
  with o1 assms(2) 1 2 show ?thesis
    by (auto simp: sanitize_def split: io.splits dest: owner_simple_query [OF assms(1)])
qed

lemma owner_sync_parameters:
  "owner_fixed ops owner \<Longrightarrow> sync_parameters ops names sp c = (r, c') \<Longrightarrow> owner (wire c') = owner (wire c)"
proof (induction ops names sp c rule: sync_parameters.induct)
  case (2 ops name names sp c)
  have set: "owner (wire c1) = owner (wire c)" if "set_parameter ops name v c = (r1, c1)" for v r1 c1
    using that owner_simple_query [OF 2(4)]
    by (auto simp: set_parameter_def Let_def io_simps split: prod.splits io.splits)
  from 2 set show ?case
    by (auto simp: Let_def split: option.splits if_splits prod.splits io.splits)
qed simp

lemma owner_sync_startup:
  "owner_fixed ops owner \<Longrightarrow> sync_startup_parameters ops sp l = (r, l') \<Longrightarrow> owner (wire (l_conn l')) = owner (wire (l_conn l))"
  by (auto simp: sync_startup_parameters_def Let_def split: prod.splits dest: owner_sync_parameters)

lemma owner_replay_gucs:
  "owner_fixed ops owner \<Longrightarrow> replay_gucs ops gucs c d = Ready c' d' \<Longrightarrow> owner (wire c') = owner (wire c)"
proof (induction ops gucs c d rule: replay_gucs.induct)
  case (2 ops name v gucs c d)
  then show ?case
    by (auto simp: Let_def split: if_splits prod.splits io.splits dest: owner_simple_query [OF 2(3)])
qed simp

lemma wire_replay_read: "replay_read items c = (r, c') \<Longrightarrow> wire c' = wire c"
proof (induction items c rule: replay_read.induct)
  case (3 m items c)
  then show ?case by (cases m) (auto simp: io_simps)
qed auto

lemma owner_replay_feed: "owner_fixed ops owner \<Longrightarrow> replay_feed ops r c = (b, c') \<Longrightarrow> owner (wire c') = owner (wire c)"
proof (induction ops r c rule: replay_feed.induct)
  case (2 ops name sql oids r c)
  then show ?case by (auto split: prod.splits option.splits dest: owner_feed [OF 2(2)])
qed simp

lemma owner_prepare_lease:
  assumes "owner_fixed ops owner" "prepare_lease ops r gucs startup l d = Ready c d'"
  shows "owner (wire c) = owner (wire (l_conn l))"
proof -
  obtain l1 u where 1: "sync_startup_parameters ops startup l = (Done u, l1)"
    using assms(2) by (auto simp: prepare_lease_def split: prod.splits io.splits)
  with assms(2) obtain c1 d1 where 2: "replay_gucs ops gucs (l_conn l1) d = Ready c1 d1" "replay_statements ops r c1 d1 = Ready c d'"
    by (auto simp: prepare_lease_def split: prepared.splits)
  have "owner (wire c) = owner (wire c1)"
    using 2(2)
    by (auto simp: replay_statements_def registry_replay_def split: if_splits prod.splits io.splits bool.splits option.splits
        dest!: wire_replay_read owner_send [OF assms(1)] owner_replay_feed [OF assms(1)])
  with owner_replay_gucs [OF assms(1) 2(1)] owner_sync_startup [OF assms(1) 1] show ?thesis by simp
qed

lemma wire_collect_items: "collect_items cod items acc c = (r, c') \<Longrightarrow> wire c' = wire c"
proof (induction cod items acc c rule: collect_items.induct)
  case (3 cod m items acc c)
  then show ?case by (cases m) (auto simp: io_simps)
qed auto

lemma owner_run_query_collect:
  "owner_fixed ops owner \<Longrightarrow> run_query_collect ops cod sql c = (r, c') \<Longrightarrow> owner (wire c') = owner (wire c)"
  by (auto simp: run_query_collect_def split: prod.splits option.splits dest!: wire_collect_items owner_send)

section \<open>Pools\<close>

definition owned_pool :: "('s \<Rightarrow> identity) \<Rightarrow> pool_key \<Rightarrow> 's pool \<Rightarrow> bool" where
  "owned_pool owner k p \<longleftrightarrow>
     args_owner (p_connect p) = key_owner k \<and> (\<forall>pk\<in>set (p_idle p). owner (wire (pk_conn pk)) = key_owner k)"

definition owned_world :: "('s \<Rightarrow> identity) \<Rightarrow> 's world \<Rightarrow> bool" where
  "owned_world owner w \<longleftrightarrow> (\<forall>k p. w_pools w k = Some p \<longrightarrow> owned_pool owner k p)"

definition owned_held :: "('s \<Rightarrow> identity) \<Rightarrow> 's held \<Rightarrow> bool" where
  "owned_held owner h \<longleftrightarrow> owner (wire (h_conn h)) = key_owner (h_key h)"

lemma owned_pool_same:
  "p_idle p' = p_idle p \<Longrightarrow> p_connect p' = p_connect p \<Longrightarrow> owned_pool owner k p' = owned_pool owner k p"
  by (simp add: owned_pool_def)

lemma owned_pool_bookkeeping [simp]:
  "owned_pool owner k (upd_metrics f p) = owned_pool owner k p"
  "owned_pool owner k (add_waiting n p) = owned_pool owner k p"
  "owned_pool owner k (add_active n p) = owned_pool owner k p"
  "owned_pool owner k (inc_evicted u p) = owned_pool owner k p"
  "owned_pool owner k (inc_dropped p) = owned_pool owner k p"
  "owned_pool owner k (inc_probed p) = owned_pool owner k p"
  "owned_pool owner k (inc_created p) = owned_pool owner k p"
  "owned_pool owner k (inc_checked_in p) = owned_pool owner k p"
  "owned_pool owner k (take_permit p) = owned_pool owner k p"
  "owned_pool owner k (release_permit p) = owned_pool owner k p"
  "owned_pool owner k (p\<lparr>p_baseline := b\<rparr>) = owned_pool owner k p"
  by (simp_all add: owned_pool_def pool_simps)

lemma owned_pool_park:
  "owned_pool owner k p \<Longrightarrow> owner (wire c) = key_owner k \<Longrightarrow> owned_pool owner k (park c now created p)"
  by (auto simp: owned_pool_def park_def)

lemma owned_pool_rest: "owned_pool owner k p \<Longrightarrow> set rest \<subseteq> set (p_idle p) \<Longrightarrow> owned_pool owner k (p\<lparr>p_idle := rest\<rparr>)"
  by (auto simp: owned_pool_def)

lemma checkout_connect: "checkout ops clock connect t p = (r, t', p') \<Longrightarrow> p_connect p' = p_connect p"
  by (auto simp: checkout_def Let_def finish_checkout_def pool_simps dest!: checkout_loop_frame
      split: if_splits prod.splits option.splits io.splits)

lemma owned_checkout:
  assumes "owner_fixed ops owner" "connects_as connect owner" "owned_pool owner k p"
    and co: "checkout ops clock connect t p = (r, t', p')"
  shows "owned_pool owner k p'" "r = Done l \<Longrightarrow> owner (wire (l_conn l)) = key_owner k"
proof -
  have con: "p_connect p' = p_connect p" using co by (rule checkout_connect)
  have "owned_pool owner k p' \<and> (r = Done l \<longrightarrow> owner (wire (l_conn l)) = key_owner k)"
  proof (cases "\<exists>l. r = Done l")
    case False
    from checkout_not_Done [OF co False] con assms(3) False show ?thesis by (auto simp: owned_pool_def pool_simps)
  next
    case True
    then obtain l' where l': "r = Done l'" by blast
    from checkout_Done [OF co [unfolded l']] consider
      (parked) pk gone where "p_idle p = p_idle p' @ pk # gone" "accepted ops clock (p_config p) pk (l_conn l')"
      | (fresh) n where "p_idle p' = []" "connect (p_connect p) n = Done (l_conn l')" by blast
    then show ?thesis
    proof cases
      case parked
      have "owner (wire (l_conn l')) = owner (wire (pk_conn pk))"
        using parked(2) owner_probe [OF assms(1)] by (auto simp: accepted_def judge_def split: if_splits prod.splits io.splits)
      with parked(1) assms(3) con l' show ?thesis by (auto simp: owned_pool_def)
    next
      case fresh
      with assms(2,3) con l' show ?thesis by (auto simp: owned_pool_def connects_as_def)
    qed
  qed
  then show "owned_pool owner k p'" "r = Done l \<Longrightarrow> owner (wire (l_conn l)) = key_owner k" by blast+
qed

lemma owned_park_or_evict:
  "owned_pool owner k p \<Longrightarrow> owner (wire c) = key_owner k \<Longrightarrow> owned_pool owner k (snd (park_or_evict clock t c created p))"
  by (simp add: park_or_evict_def owned_pool_park)

lemma owned_checkin:
  assumes "owner_fixed ops owner" "owned_pool owner k p" "owner (wire (l_conn l)) = key_owner k"
  shows "owned_pool owner k (snd (checkin ops clock h l t p))"
proof -
  obtain r c where "sanitize ops h (l_conn l) = (r, c)" by fastforce
  with owner_sanitize [OF assms(1) this] assms(2,3) show ?thesis
    by (simp add: checkin_def Let_def owned_park_or_evict split: io.splits)
qed

lemma owned_checkin_detached:
  assumes "owner_fixed ops owner" "owned_pool owner k p" "owner (wire (l_conn l)) = key_owner k"
  shows "owned_pool owner k (snd (checkin_detached ops clock d l t p))"
proof -
  obtain r c where q: "op_simple_query ops (l_conn l) ''DISCARD ALL'' = (r, c)" by fastforce
  with owner_simple_query [OF assms(1) q] assms(2,3) show ?thesis
    by (simp add: checkin_detached_def Let_def owned_park_or_evict split: io.splits)
qed

section \<open>The world\<close>

lemma owned_world_put:
  "owned_world owner w \<Longrightarrow> owned_pool owner key p \<Longrightarrow> owned_world owner (w\<lparr>w_pools := (w_pools w)(key \<mapsto> p), w_tick := t\<rparr>)"
  by (auto simp: owned_world_def)

lemma owned_world_pools: "w_pools w' = w_pools w \<Longrightarrow> owned_world owner w' = owned_world owner w"
  by (simp add: owned_world_def)

lemma owned_pool_apply:
  assumes "owned_world owner w" "\<And>t p. owned_pool owner key p \<Longrightarrow> owned_pool owner key (snd (f t p))"
  shows "owned_world owner (pool_apply key f w)"
proof (cases "w_pools w key")
  case (Some p)
  obtain t' p' where f: "f (w_tick w) p = (t', p')" by fastforce
  with assms(2) [of p "w_tick w"] assms(1) Some have "owned_pool owner key p'" by (simp add: owned_world_def)
  with assms(1) Some f show ?thesis by (simp add: pool_apply_def owned_world_put)
qed (simp add: pool_apply_def assms(1))

lemma owned_destroy: "owned_world owner w \<Longrightarrow> owned_world owner (lease_destroy h w)"
  unfolding lease_destroy_def by (rule owned_pool_apply) (simp_all add: destroy_def)

lemma owned_drop: "owned_world owner w \<Longrightarrow> owned_world owner (drop_held h w)"
  unfolding drop_held_def by (rule owned_pool_apply) (simp_all add: drop_lease_def)

lemma owned_detach:
  assumes "owner_fixed (e_ops env) owner" "owned_world owner w" "owned_held owner h"
  shows "owned_world owner (lease_checkin_detached env d h w)"
  unfolding lease_checkin_detached_def using assms
  by (intro owned_pool_apply owned_checkin_detached) (simp_all add: owned_held_def h_conn_def)

lemma owned_return:
  assumes "owner_fixed (e_ops env) owner" "owned_world owner w" "owned_held owner h"
  shows "owned_world owner (lease_checkin env hyg h w)"
  unfolding lease_checkin_def using assms
  by (intro owned_pool_apply owned_checkin) (simp_all add: owned_held_def h_conn_def)

lemma owned_resolve_pool:
  assumes "owned_world owner w" "resolve_pool env params ep w = (key, p, w')"
  shows "owned_world owner w'" "owned_pool owner key p" "key_owner key = session_owner params"
proof -
  let ?k = "pool_key_for (e_route env) params ep"
  have k: "key_owner ?k = session_owner params" by (simp add: pool_key_for_def key_owner_def session_owner_def)
  have new: "owned_pool owner ?k (pool_new ?k (e_pool_config env) (make_factory_for ep (e_route env) params))"
    by (simp add: owned_pool_def pool_new_def args_owner_def make_factory_for_def k) (simp add: session_owner_def)
  show "owned_world owner w'" "owned_pool owner key p" "key_owner key = session_owner params"
    using assms new k by (auto simp: resolve_pool_def get_or_create_def Let_def owned_world_def split: option.splits prod.splits if_splits)
qed

section \<open>Attaching\<close>

text \<open>A lease of the session: its connection belongs to the pool it came from, and that pool to the session.\<close>

definition owned_slot :: "('s \<Rightarrow> identity) \<Rightarrow> session_params \<Rightarrow> 's held option \<Rightarrow> bool" where
  "owned_slot owner params slot \<longleftrightarrow>
     (\<forall>h. slot = Some h \<longrightarrow> owned_held owner h \<and> key_owner (h_key h) = session_owner params)"

lemma owned_slot_simps [simp]:
  "owned_slot owner params None"
  "owned_slot owner params (Some h) = (owned_held owner h \<and> key_owner (h_key h) = session_owner params)"
  by (simp_all add: owned_slot_def)

lemma owned_attach_failed:
  assumes "attach_failed env i msg fatal a = (tr, a')"
  shows "a_world a' = a_world a \<and> a_lease a' = a_lease a"
  using assms by (auto simp: attach_failed_def split: prod.splits retry_decision.splits)

lemma owned_attach_endpoint:
  assumes "owner_fixed (e_ops env) owner" "connects_as (e_connect env) owner" "owned_world owner (a_world a)" "a_lease a = None"
    and e: "attach_endpoint env params r gucs startup ep a = (tr, a')"
  shows "owned_world owner (a_world a') \<and> owned_slot owner params (a_lease a')"
proof -
  obtain key p w where rp: "resolve_pool env params ep (a_world a) = (key, p, w)" by (metis prod_cases3)
  note rs = owned_resolve_pool [OF assms(3) rp]
  obtain res t p' where co: "checkout (e_ops env) (e_clock env) (e_connect env) (w_tick w) p = (res, t, p')" by (metis prod_cases3)
  note cs = owned_checkout [OF assms(1,2) rs(2) co]
  let ?a = "a\<lparr>a_world := w\<lparr>w_pools := (w_pools w)(key \<mapsto> p'), w_tick := t\<rparr>\<rparr>"
  have w: "owned_world owner (a_world ?a)" using owned_world_put [OF rs(1) cs(1)] by simp
  show ?thesis
  proof (cases res)
    case (Done l)
    then have l: "owner (wire (l_conn l)) = key_owner key" by (rule cs(2))
    obtain prep where prep: "prepare_lease (e_ops env) r gucs startup l (a_dirty ?a) = prep" by blast
    have "attach_prepared env (ep_id ep) key l prep ?a = (tr, a')"
      using e rp co Done prep by (simp add: attach_endpoint_def Let_def)
    then show ?thesis
      using w l prep owner_prepare_lease [OF assms(1)] rs(3) assms(4) owned_destroy [OF w]
      by (cases prep) (auto simp: attach_prepared_def owned_held_def h_conn_def dest!: owned_attach_failed)
  qed (use e rp co w assms(4) in \<open>auto simp: attach_endpoint_def Let_def dest!: owned_attach_failed\<close>)
qed

lemma owned_attach_loop:
  assumes "owner_fixed (e_ops env) owner" "connects_as (e_connect env) owner"
  shows "owned_world owner (a_world a) \<Longrightarrow> a_lease a = None \<Longrightarrow>
    attach_loop n env params r gucs startup hint a = (res, a') \<Longrightarrow> owned_world owner (a_world a') \<and> owned_slot owner params (a_lease a')"
proof (induction n arbitrary: a)
  case (Suc n)
  obtain tr a1 where t: "attach_turn env params r gucs startup hint a = (tr, a1)" by fastforce
  obtain i hooks where d: "dispatch_upstream env params hint (a_hooks a) = (i, hooks)" by fastforce
  have 1: "owned_world owner (a_world a1) \<and> owned_slot owner params (a_lease a1)"
  proof (cases "route_endpoint (e_route env) i")
    case None
    with t d Suc.prems show ?thesis by (auto simp: attach_turn_def)
  next
    case (Some ep)
    with t d Suc.prems show ?thesis
      by (intro owned_attach_endpoint [OF assms, of "a\<lparr>a_hooks := hooks\<rparr>"]) (auto simp: attach_turn_def)
  qed
  have "a_lease a1 = None" if "tr = Again"
    using attach_turn_lease [OF t] that Suc.prems(2) by simp
  with 1 t Suc show ?case by (cases tr) auto
qed auto

section \<open>Scattering\<close>

definition owned_outcomes :: "('s \<Rightarrow> identity) \<Rightarrow> 's leg_outcome list \<Rightarrow> bool" where
  "owned_outcomes owner outs \<longleftrightarrow> (\<forall>out\<in>set outs. \<forall>h. lo_lease out = Some h \<longrightarrow> owned_held owner h)"

lemma owned_resolve_legs: "owned_world owner w \<Longrightarrow> owned_world owner (resolve_legs env params legs w)"
proof (induction legs arbitrary: w)
  case (Cons leg legs)
  then show ?case
    using owned_resolve_pool(1) [OF Cons.prems] by (auto simp: Let_def split: option.splits prod.splits)
qed simp

lemma owned_run_leg:
  assumes "owner_fixed (e_ops env) owner" "connects_as (e_connect env) owner" "owned_world owner w"
    and e: "run_leg_pooled env startup i sql key w = (res, w')"
  shows "owned_world owner w' \<and> (\<forall>out. res = Some out \<longrightarrow> owned_outcomes owner [out])"
proof (cases "w_pools w key")
  case None
  with e assms(3) show ?thesis by (auto simp: run_leg_pooled_def)
next
  case (Some p)
  then have p: "owned_pool owner key p" using assms(3) by (simp add: owned_world_def)
  obtain r t p' where co: "checkout (e_ops env) (e_clock env) (e_connect env) (w_tick w) p = (r, t, p')" by (metis prod_cases3)
  note cs = owned_checkout [OF assms(1,2) p co]
  let ?w = "w\<lparr>w_pools := (w_pools w)(key \<mapsto> p'), w_tick := t\<rparr>"
  have w: "owned_world owner ?w" using assms(3) cs(1) by (rule owned_world_put)
  show ?thesis
  proof (cases r)
    case (Done l)
    then have l: "owner (wire (l_conn l)) = key_owner key" by (rule cs(2))
    have "leg_on_lease env startup i sql key l ?w = (res, w')" using e Some co Done by (simp add: run_leg_pooled_def Let_def)
    then show ?thesis
      using w l owned_destroy [OF w]
      by (auto simp: leg_on_lease_def Let_def owned_outcomes_def leg_connect_failed_def leg_finished_def owned_held_def h_conn_def
          split: prod.splits io.splits option.splits if_splits
          dest!: owner_sync_startup [OF assms(1)] owner_run_query_collect [OF assms(1)])
  qed (use e Some co w in \<open>auto simp: run_leg_pooled_def Let_def owned_outcomes_def leg_connect_failed_def\<close>)
qed

lemma owned_abort_leg:
  assumes "owner_fixed (e_ops env) owner" "connects_as (e_connect env) owner" "owned_world owner w"
  shows "owned_world owner (abort_leg env params sch leg w)"
proof -
  let ?key = "leg_key env params leg"
  have "owned_pool owner ?key p'" if "w_pools w ?key = Some p"
      "checkout (e_ops env) (e_clock env) (e_connect env) (w_tick w) p = (r, t, p')" for p r t p'
    using owned_checkout(1) [OF assms(1,2) _ that(2)] that(1) assms(3) by (simp add: owned_world_def)
  with assms(3) show ?thesis
    by (auto simp: abort_leg_def Let_def intro!: owned_drop owned_world_put split: abort_point.splits option.splits prod.splits io.splits)
qed

lemma owned_fold:
  "(\<And>x w. P x \<Longrightarrow> owned_world owner w \<Longrightarrow> owned_world owner (f x w)) \<Longrightarrow> \<forall>x\<in>set xs. P x \<Longrightarrow> owned_world owner w \<Longrightarrow>
     owned_world owner (fold f xs w)"
  by (induction xs arbitrary: w) auto

lemma owned_drop_outcomes: "owned_world owner w \<Longrightarrow> owned_world owner (fold drop_outcome outs w)"
  by (rule owned_fold [where P = "\<lambda>_. True"]) (auto simp: drop_outcome_def owned_drop split: option.splits)

lemma owned_checkin_outcomes:
  assumes "owner_fixed (e_ops env) owner" "owned_outcomes owner outs" "owned_world owner w"
  shows "owned_world owner (fold (checkin_outcome env) outs w)"
  using assms(2,3)
  by (intro owned_fold [where P = "\<lambda>out. owned_outcomes owner [out]"])
    (auto simp: checkin_outcome_def owned_outcomes_def owned_detach [OF assms(1)] split: option.splits)

lemma owned_gather:
  assumes "owner_fixed (e_ops env) owner" "connects_as (e_connect env) owner"
  shows "owned_world owner w \<Longrightarrow> owned_outcomes owner outs \<Longrightarrow> gather env params sch startup legs outs w = (g, w') \<Longrightarrow>
    owned_world owner w' \<and> (\<forall>outs' err. g = Some (outs', err) \<longrightarrow> owned_outcomes owner outs')"
proof (induction legs arbitrary: outs w)
  case (Cons leg legs)
  obtain res w1 where r: "run_leg_pooled env startup (leg_endpoint leg) (leg_sql leg) (leg_key env params leg) w = (res, w1)" by fastforce
  note rs = owned_run_leg [OF assms Cons.prems(1) r]
  show ?case
  proof (cases res)
    case None
    with r rs Cons.prems show ?thesis by auto
  next
    case (Some out)
    show ?thesis
    proof (cases "lo_error out \<noteq> None \<or> lo_broken out")
      case True
      have "owned_world owner (fold (abort_leg env params sch) legs (drop_outcome out w1))"
        using rs owned_drop_outcomes [of owner w1 "[out]"]
        by (intro owned_fold [where P = "\<lambda>_. True"]) (auto intro: owned_abort_leg [OF assms])
      with True Some r Cons.prems show ?thesis by (auto simp: Let_def)
    next
      case False
      with Some rs Cons.prems(2) have "owned_outcomes owner (outs @ [out])" by (auto simp: owned_outcomes_def)
      with False Some r rs Cons show ?thesis by (auto simp: Let_def)
    qed
  qed
qed auto

lemma owned_scatter_merge:
  assumes "owner_fixed (e_ops env) owner" "owned_outcomes owner outs" "owned_world owner w"
    and "scatter_merge env req own outs slot d w = (res, slot', d', w')"
  shows "owned_world owner w' \<and> slot' = slot"
  using assms(3,4) owned_checkin_outcomes [OF assms(1-3)] owned_drop_outcomes [OF assms(3)]
  by (auto simp: scatter_merge_def Let_def split: prod.splits merged.splits)

lemma owned_scatter_fail:
  assumes "owner_fixed (e_ops env) owner" "owned_outcomes owner outs" "owned_world owner w"
    and "scatter_fail env outs err slot d w = (res, slot', d', w')"
  shows "owned_world owner w' \<and> slot' = slot"
  using assms(4) owned_checkin_outcomes [OF assms(1-3)] by (auto simp: scatter_fail_def)

lemma owned_own_leg:
  assumes of: "owner_fixed (e_ops env) owner" and "owned_outcomes owner outs" "owned_world owner w" "owned_slot owner params slot"
    and e: "scatter_own_leg env req own outs slot d w = (res, slot', d', w')"
  shows "owned_world owner w' \<and> owned_slot owner params slot'"
proof (cases "own = None \<or> slot = None")
  case True
  with e have "scatter_merge env req None outs slot d w = (res, slot', d', w')"
    by (cases own; cases slot) (simp_all add: scatter_own_leg_def)
  with owned_scatter_merge [OF of assms(2,3)] assms(4) show ?thesis by blast
next
  case False
  then obtain leg h where lh: "own = Some leg" "slot = Some h" by auto
  obtain co c where q: "run_query_collect (e_ops env) (e_codec env) (leg_sql leg) (h_conn h) = (co, c)" by fastforce
  from owner_run_query_collect [OF of q] assms(4) lh have s: "owned_slot owner params (Some (set_h_conn c h))"
    by (simp add: owned_held_def h_conn_def set_h_conn_def)
  show ?thesis
    using e lh q s assms(3) owned_drop_outcomes [OF assms(3)]
    by (auto simp: scatter_own_leg_def Let_def split: option.splits if_splits
        dest: owned_scatter_fail [OF of assms(2,3)] owned_scatter_merge [OF of assms(2,3)])
qed

lemma owned_execute_scatter:
  assumes "owner_fixed (e_ops env) owner" "connects_as (e_connect env) owner" "owned_world owner w" "owned_slot owner params slot"
    and e: "execute_scatter env params sch startup req cur slot d w = (res, slot', d', w')"
  shows "owned_world owner w' \<and> owned_slot owner params slot'"
proof (cases "List.find (\<lambda>leg. route_endpoint (e_route env) (leg_endpoint leg) = None) (sr_legs req)")
  case (Some leg)
  with e assms(3,4) show ?thesis by (auto simp: execute_scatter_def)
next
  case None
  let ?w = "resolve_legs env params (sr_legs req) w"
  obtain own pooled where part: "partition_legs cur (slot \<noteq> None) (sr_legs req) = (own, pooled)" by fastforce
  obtain g w1 where g: "gather env params sch startup (sch_order sch pooled) [] ?w = (g, w1)" by fastforce
  have gs: "owned_world owner w1" "\<forall>outs err. g = Some (outs, err) \<longrightarrow> owned_outcomes owner outs"
    using owned_gather [OF assms(1,2) owned_resolve_legs [OF assms(3)] _ g] by (auto simp: owned_outcomes_def)
  show ?thesis
  proof (cases g)
    case None
    with \<open>List.find _ _ = None\<close> e part g gs assms(4) show ?thesis by (auto simp: execute_scatter_def)
  next
    case (Some x)
    then obtain outs err where x: "g = Some (outs, err)" by (cases x) auto
    with gs(2) have o: "owned_outcomes owner outs" by blast
    show ?thesis
    proof (cases err)
      case None
      with \<open>List.find _ _ = None\<close> e part g x have "scatter_own_leg env req own outs slot d w1 = (res, slot', d', w')"
        by (simp add: execute_scatter_def)
      with owned_own_leg [OF assms(1) o gs(1) assms(4)] show ?thesis by blast
    next
      case (Some er)
      with \<open>List.find _ _ = None\<close> e part g x have "scatter_fail env outs er slot d w1 = (res, slot', d', w')"
        by (simp add: execute_scatter_def)
      with owned_scatter_fail [OF assms(1) o gs(1)] assms(4) show ?thesis by blast
    qed
  qed
qed

section \<open>Sessions\<close>

definition owned_session :: "('s \<Rightarrow> identity) \<Rightarrow> session_params \<Rightarrow> 's world \<Rightarrow> 's held option \<Rightarrow> bool \<Rightarrow> statement_registry \<Rightarrow> bool" where
  "owned_session owner params w slot dirty r \<longleftrightarrow> owned_world owner w \<and> owned_slot owner params slot"

lemma owned_session_invariant:
  assumes of: "owner_fixed (e_ops (se_env se)) owner" and oc: "connects_as (e_connect (se_env se)) owner"
  shows "session_invariant TYPE('c) se (owned_session owner (se_params se))"
proof (unfold_locales, goal_cases)
  case (1 w' w slot d r)
  then show ?case using owned_world_pools [of w' w] by (simp add: owned_session_def)
next
  case (3 w h d r m e c)
  then show ?case using owner_send [OF of] by (simp add: owned_session_def owned_held_def h_conn_def set_h_conn_def)
next
  case (4 w h d r m e c)
  then show ?case using owner_feed [OF of] by (simp add: owned_session_def owned_held_def h_conn_def set_h_conn_def)
next
  case (10 a r gucs hint res a')
  then have "owned_world owner (a_world a') \<and> owned_slot owner (se_params se) (a_lease a')"
    by (intro owned_attach_loop [OF of oc, of a]) (auto simp: owned_session_def ensure_attached_def)
  moreover have "res = Attached \<longrightarrow> a_lease a' \<noteq> None"
    using 10(2,3) attach_loop_attached by (auto simp: ensure_attached_def)
  ultimately show ?case by (simp add: owned_session_def)
next
  case (11 w slot d r req cur ds sres slot' ds' w')
  then show ?case using owned_execute_scatter [OF of oc _ _ 11(2)] by (simp add: owned_session_def)
qed (auto simp: owned_session_def owned_held_def h_conn_def set_h_conn_def owner_cancel [OF of] owned_destroy owned_detach [OF of])

text \<open>
  Property C5. Sessions never use each other's connections. If every pooled connection belongs to the user
  and database of its pool, then at every point of every run of a session - whatever the client, the
  interceptor and the servers do - the connection it holds was opened for its own user and database, the
  pools still keep to theirs, and they do after the session's end has returned its connection.
\<close>

theorem sessions_use_own_connections:
  fixes p q :: "('s, 'c) pump"
  assumes of: "owner_fixed (e_ops (se_env se)) owner" and oc: "connects_as (e_connect (se_env se)) owner"
    and ow: "owned_world owner (pm_world p)" "pm_lease p = None"
    and run: "pump_run se es p = Goes q \<or> pump_run se es p = Ends reason q"
  shows "(\<forall>h. pm_lease q = Some h \<longrightarrow> owner (wire (h_conn h)) = (sp_user (se_params se), sp_database (se_params se))) \<and>
    owned_world owner (pm_world q) \<and> owned_world owner (fst (session_end se reason q))"
proof -
  note si = owned_session_invariant [OF of oc, where 'c = 'c]
  have "session_invariant.keeps (owned_session owner (se_params se)) p"
    using ow by (simp add: session_invariant.keeps_def [OF si] owned_session_def)
  from session_invariant.pump_run_keeps [OF si this, of es] run
  have "session_invariant.keeps (owned_session owner (se_params se)) q"
    by (auto simp: session_invariant.flow_keeps_simps [OF si])
  then have w: "owned_world owner (pm_world q)" and s: "owned_slot owner (se_params se) (pm_lease q)"
    by (simp_all add: session_invariant.keeps_def [OF si] owned_session_def)
  from w s owned_return [OF of w] owned_destroy [OF w] have "owned_world owner (fst (session_end se reason q))"
    by (cases reason; cases "pm_lease q") (simp_all add: session_end_def)
  with w s show ?thesis by (auto simp: owned_slot_def owned_held_def session_owner_def)
qed

text \<open>
  The crate's own factory connects as asked when the driver's setters do what they say and the connection
  string names no database of its own; a user it names never matters.
\<close>

lemma factory_connects_as:
  assumes connect: "\<And>g tls t c. dr_connect drv g tls t = Done c \<Longrightarrow> owner (wire c) = (usr g, db g)"
    and user: "\<And>u g. usr (dr_user drv u g) = u" "\<And>u g. db (dr_user drv u g) = db g"
    and dbname: "\<And>d g. usr (dr_dbname drv d g) = usr g" "\<And>d g. db (dr_dbname drv d g) = Some d"
    and password: "\<And>p g. usr (dr_password drv p g) = usr g" "\<And>p g. db (dr_password drv p g) = db g"
    and parse: "\<And>s g. dr_parse drv s = Inr g \<Longrightarrow> db g = None"
  shows "connects_as (factory_connect tls drv) owner"
  unfolding connects_as_def
proof (intro allI impI)
  fix args t c
  assume c: "factory_connect tls drv args t = Done c"
  then obtain g where g: "dr_parse drv (ca_connstring args) = Inr g"
    by (auto simp: factory_connect_def connect_parts_def split: sum.splits)
  define h where "h = dr_user drv (ca_user args) g"
  define i where "i = (case ca_database args of Some d \<Rightarrow> dr_dbname drv d h | None \<Rightarrow> h)"
  define j where "j = (case ca_password args of Some p \<Rightarrow> dr_password drv p i | None \<Rightarrow> i)"
  have "dr_connect drv j (build_upstream_connector tls (ca_tls args)) t = Done c"
    using c unfolding factory_connect_def connect_parts_def g h_def i_def j_def
    by (cases "ca_database args"; cases "ca_password args") simp_all
  then have "owner (wire c) = (usr j, db j)" by (rule connect)
  moreover have "(usr j, db j) = (usr i, db i)" by (simp add: j_def password split: option.split)
  moreover have "(usr i, db i) = args_owner args"
    by (simp add: i_def h_def user dbname parse [OF g] args_owner_def split: option.split)
  ultimately show "owner (wire c) = args_owner args" by simp
qed

definition id_ops :: "identity client_ops" where
  "id_ops = \<lparr>op_send = (\<lambda>w m. Inr (w, [])), op_feed = (\<lambda>w m. Inr (w, [])), op_cancel = (\<lambda>w. (w, [])),
     op_simple_query = (\<lambda>c q. (Done (), c)), op_show_error = (\<lambda>e. []), op_window = (\<lambda>c. Suc (length (inbox c)))\<rparr>"

definition id_se :: "identity session_env" where
  "id_se = \<lparr>se_env = \<lparr>e_ops = id_ops, e_clock = (\<lambda>n. n),
       e_connect = (\<lambda>a t. Done \<lparr>wire = args_owner a, inbox = [], at_eof = False, process_id = 1, server_parameters = Map.empty, transaction_status = Idle\<rparr>),
       e_codec = \<lparr>err_into = (\<lambda>e. []), err_from = (\<lambda>f. error_info_new [] [] [])\<rparr>, e_route = sample_route,
       e_pool_config = pool_config_default\<lparr>pool_mode := TransactionMode\<rparr>\<rparr>,
     se_params = sample_params, se_startup = Map.empty, se_schedule = \<lparr>sch_order = (\<lambda>legs. legs), sch_abort = (\<lambda>leg. NotStarted)\<rparr>,
     se_cycle_clock = (\<lambda>n. n)\<rparr>"

definition id_pump :: "(identity, unit) pump" where
  "id_pump = pump_new id_se sample_downstream None None False \<lparr>w_pools = Map.empty, w_tick = 0\<rparr>"

lemma id_pump_attaches: "\<exists>q h. pump_run id_se [ClientMsg (FQuery ''SELECT 1'')] id_pump = Goes q \<and> pm_lease q = Some h"
  by (simp add: id_pump_def id_se_def id_ops_def sample_params_def sample_route_def sample_endpoint_def sample_downstream_def
      pump_new_def pump_simps pool_simps)

theorem sessions_use_own_connections_witness:
  "\<exists>q h. pump_run id_se [ClientMsg (FQuery ''SELECT 1'')] id_pump = Goes q \<and> pm_lease q = Some h \<and> wire (h_conn h) = (''u'', None)"
proof -
  obtain q h where q: "pump_run id_se [ClientMsg (FQuery ''SELECT 1'')] id_pump = Goes q" "pm_lease q = Some h"
    using id_pump_attaches by blast
  have "owner_fixed (e_ops (se_env id_se)) (\<lambda>w. w)" by (simp add: owner_fixed_def id_se_def id_ops_def)
  moreover have "connects_as (e_connect (se_env id_se)) (\<lambda>w. w)" by (auto simp: connects_as_def id_se_def)
  moreover have "owned_world (\<lambda>w. w) (pm_world id_pump)" "pm_lease id_pump = None"
    by (simp_all add: id_pump_def pump_new_def owned_world_def)
  ultimately have "\<forall>h. pm_lease q = Some h \<longrightarrow> wire (h_conn h) = (sp_user (se_params id_se), sp_database (se_params id_se))"
    using sessions_use_own_connections [of id_se "\<lambda>w. w" id_pump "[ClientMsg (FQuery ''SELECT 1'')]" q] q(1) by blast
  with q show ?thesis by (simp add: id_se_def sample_params_def)
qed

end
