(* ===== verification/Noop.thy ===== *)
theory Noop
  imports Pump_Invariant
begin

text \<open>
  A session under the no-op interceptor against a session without one. The pump takes other branches when an
  interceptor is registered - it calls the hooks, tracks query cycles and reads the clock for their latency - and
  the default hooks are documented to change nothing. Here the two runs are related step by step, in the same environment: the
  pools read the clock and connect at the same points of either run, whatever time it then is and whatever comes of it. \<open>dress\<close> puts
  hooks and a count of the telemetry's clock readings onto a session without an interceptor, and every phase of the
  pump keeps two sessions apart by no more than that.
\<close>

section \<open>Two sessions that differ in their hooks\<close>

definition idle_hooks :: "'c session_hooks \<Rightarrow> bool" where
  "idle_hooks h \<longleftrightarrow> (\<exists>c. sh_interceptor h = default_hooks c) \<and> \<not> sh_wants_rows h \<and> \<not> sh_adjust_counts h"

definition dress :: "'c session_hooks \<Rightarrow> nat \<Rightarrow> ('s, 'c) pump \<Rightarrow> ('s, 'c) pump" where
  "dress h n q = q\<lparr>pm_hooks := Some h, pm_reads := n\<rparr>"

definition alike :: "('s, 'c) pump \<Rightarrow> ('s, 'c) pump \<Rightarrow> bool" where
  "alike p q \<longleftrightarrow> pm_hooks q = None \<and> (\<exists>h t. idle_hooks h \<and> p = dress h t q)"

text \<open>What is left of a session when the hooks and their readings are left out.\<close>

definition bare :: "('s, 'c) pump \<Rightarrow> ('s, 'c) pump" where
  "bare p = p\<lparr>pm_hooks := None, pm_reads := 0\<rparr>"

abbreviation flow_alike :: "('s, 'c) pump flow \<Rightarrow> ('s, 'c) pump flow \<Rightarrow> bool" where
  "flow_alike \<equiv> rel_flow alike"

abbreviation phase_alike :: "('s, 'c) pump phase \<Rightarrow> ('s, 'c) pump phase \<Rightarrow> bool" where
  "phase_alike \<equiv> rel_phase alike"

lemma default_hooks_sel [simp]:
  "hook_on_query (default_hooks c) = (\<lambda>c q. (Forward, q, c))"
  "hook_on_frontend (default_hooks c) = (\<lambda>c m. (Forward, m, c))"
  "hook_on_backend (default_hooks c) = (\<lambda>c m. (Forward, m, c))"
  "hook_upstream (default_hooks c) = (\<lambda>c info. (default_endpoint info, c))"
  "hook_on_upstream_error (default_hooks c) = (\<lambda>c e. (Relink, c))"
  "hook_on_upstream_connected (default_hooks c) = (\<lambda>c e. c)"
  "hook_on_cycle_end (default_hooks c) = (\<lambda>c r. c)"
  by (simp_all add: default_hooks_def)

lemma idle_hooks_update [simp]:
  "idle_hooks (h\<lparr>sh_ctx := c\<rparr>) = idle_hooks h" "idle_hooks (h\<lparr>sh_cycle := ct\<rparr>) = idle_hooks h"
  "idle_hooks (end_cycle now h) = idle_hooks h" "idle_hooks (end_lost_cycle now h) = idle_hooks h"
  by (simp_all add: idle_hooks_def end_cycle_def end_lost_cycle_def split: prod.splits)

lemma dress_fields [simp]:
  "pm_ds (dress h t q) = pm_ds q" "pm_lease (dress h t q) = pm_lease q" "pm_hooks (dress h t q) = Some h"
  "pm_world (dress h t q) = pm_world q" "pm_endpoint (dress h t q) = pm_endpoint q"
  "pm_fed (dress h t q) = pm_fed q" "pm_extended (dress h t q) = pm_extended q" "pm_frontend (dress h t q) = pm_frontend q"
  "pm_backend (dress h t q) = pm_backend q" "pm_hygiene (dress h t q) = pm_hygiene q" "pm_registry (dress h t q) = pm_registry q"
  "pm_gucs (dress h t q) = pm_gucs q" "pm_dirty (dress h t q) = pm_dirty q" "pm_swallow (dress h t q) = pm_swallow q"
  "pm_draining (dress h t q) = pm_draining q" "pm_attached (dress h t q) = pm_attached q"
  by (simp_all add: dress_def)

lemma dress_update [simp]:
  "(dress h t q)\<lparr>pm_ds := d\<rparr> = dress h t (q\<lparr>pm_ds := d\<rparr>)"
  "(dress h t q)\<lparr>pm_lease := slot\<rparr> = dress h t (q\<lparr>pm_lease := slot\<rparr>)"
  "(dress h t q)\<lparr>pm_hooks := Some h'\<rparr> = dress h' t q"
  "(dress h t q)\<lparr>pm_world := w\<rparr> = dress h t (q\<lparr>pm_world := w\<rparr>)"
  "(dress h t q)\<lparr>pm_endpoint := e\<rparr> = dress h t (q\<lparr>pm_endpoint := e\<rparr>)"
  "(dress h t q)\<lparr>pm_fed := n\<rparr> = dress h t (q\<lparr>pm_fed := n\<rparr>)"
  "(dress h t q)\<lparr>pm_extended := b\<rparr> = dress h t (q\<lparr>pm_extended := b\<rparr>)"
  "(dress h t q)\<lparr>pm_frontend := u\<rparr> = dress h t (q\<lparr>pm_frontend := u\<rparr>)"
  "(dress h t q)\<lparr>pm_backend := u\<rparr> = dress h t (q\<lparr>pm_backend := u\<rparr>)"
  "(dress h t q)\<lparr>pm_hygiene := hy\<rparr> = dress h t (q\<lparr>pm_hygiene := hy\<rparr>)"
  "(dress h t q)\<lparr>pm_registry := r\<rparr> = dress h t (q\<lparr>pm_registry := r\<rparr>)"
  "(dress h t q)\<lparr>pm_gucs := g\<rparr> = dress h t (q\<lparr>pm_gucs := g\<rparr>)"
  "(dress h t q)\<lparr>pm_dirty := b\<rparr> = dress h t (q\<lparr>pm_dirty := b\<rparr>)"
  "(dress h t q)\<lparr>pm_swallow := b\<rparr> = dress h t (q\<lparr>pm_swallow := b\<rparr>)"
  "(dress h t q)\<lparr>pm_draining := b\<rparr> = dress h t (q\<lparr>pm_draining := b\<rparr>)"
  "(dress h t q)\<lparr>pm_attached := b\<rparr> = dress h t (q\<lparr>pm_attached := b\<rparr>)"
  "pm_tick (dress h t q) = dress h (t + 1) q"
  by (simp_all add: dress_def pm_tick_def)

lemma alikeI [intro]: "pm_hooks q = None \<Longrightarrow> idle_hooks h \<Longrightarrow> alike (dress h t q) q"
  by (auto simp: alike_def)

lemma alikeE:
  assumes "alike p q"
  obtains h t where "p = dress h t q" "pm_hooks q = None" "idle_hooks h"
  using assms by (auto simp: alike_def)

lemma alike_tick: "alike p q \<Longrightarrow> alike (pm_tick p) q" "alike p q \<Longrightarrow> alike p (pm_tick q)"
  by (auto elim!: alikeE simp: alike_def) (auto simp: pm_tick_def dress_def)

lemma alike_bare: "alike p q \<Longrightarrow> bare p = bare q"
  by (auto elim!: alikeE simp: bare_def dress_def)

section \<open>Attaching\<close>

text \<open>Attaching, on states that differ in their hooks.\<close>

definition attach_alike :: "('s, 'c) attach_state \<Rightarrow> ('s, 'c) attach_state \<Rightarrow> bool" where
  "attach_alike a b \<longleftrightarrow> a_hooks b = None \<and> (\<exists>h. a_hooks a = Some h \<and> idle_hooks h) \<and> a_world a = a_world b \<and>
     a_ds a = a_ds b \<and> a_lease a = a_lease b \<and> a_dirty a = a_dirty b \<and> a_endpoint a = a_endpoint b"

lemma attach_alike_update:
  assumes "attach_alike a b"
  shows "attach_alike (a\<lparr>a_ds := d\<rparr>) (b\<lparr>a_ds := d\<rparr>)" "attach_alike (a\<lparr>a_dirty := dy\<rparr>) (b\<lparr>a_dirty := dy\<rparr>)"
    "attach_alike (a\<lparr>a_world := w\<rparr>) (b\<lparr>a_world := w\<rparr>)"
    "attach_alike (a\<lparr>a_endpoint := e\<rparr>) (b\<lparr>a_endpoint := e\<rparr>)" "attach_alike (a\<lparr>a_lease := l\<rparr>) (b\<lparr>a_lease := l\<rparr>)"
    "idle_hooks h \<Longrightarrow> attach_alike (a\<lparr>a_hooks := Some h\<rparr>) b" "attach_alike a (b\<lparr>a_hooks := None\<rparr>)"
  using assms by (auto simp: attach_alike_def)

lemma dispatch_idle:
  assumes "idle_hooks (h :: 'c session_hooks)"
  shows "dispatch_on_upstream_error e (Some h) = (Relink, Some h)" "dispatch_on_upstream_connected i (Some h) = Some h"
    "dispatch_upstream env params sql (Some h) = (fst (dispatch_upstream env params sql (None :: 'c session_hooks option)), Some h)"
  using assms by (auto simp: dispatch_on_upstream_error_def dispatch_on_upstream_connected_def dispatch_upstream_def idle_hooks_def Let_def)

lemma dispatch_none [simp]:
  "dispatch_on_upstream_error e None = (Relink, None)" "dispatch_on_upstream_connected i None = None"
  "snd (dispatch_upstream env params sql None) = None"
  by (simp_all add: dispatch_on_upstream_error_def dispatch_on_upstream_connected_def dispatch_upstream_def Let_def)

definition turn_alike :: "turn \<times> ('s, 'c) attach_state \<Rightarrow> turn \<times> ('s, 'c) attach_state \<Rightarrow> bool" where
  "turn_alike x y \<longleftrightarrow> fst x = fst y \<and> attach_alike (snd x) (snd y)"

lemma attach_failed_alike:
  assumes "attach_alike a b"
  shows "turn_alike (attach_failed env i msg fatal a) (attach_failed env i msg fatal b)"
proof -
  obtain h where "a_hooks a = Some h" "idle_hooks h" "a_hooks b = None" using assms by (auto simp: attach_alike_def)
  with assms show ?thesis by (simp add: attach_failed_def turn_alike_def dispatch_idle attach_alike_update)
qed

lemma attach_prepared_alike:
  assumes "attach_alike a b"
  shows "turn_alike (attach_prepared env i key l prep a) (attach_prepared env i key l prep b)"
proof -
  obtain h where h: "a_hooks a = Some h" "idle_hooks h" "a_hooks b = None" "a_world a = a_world b"
    using assms by (auto simp: attach_alike_def)
  show ?thesis
  proof (cases prep)
    case (Unready c dirty msg fatal)
    have "attach_alike (a\<lparr>a_dirty := dirty, a_world := lease_destroy l' (a_world a)\<rparr>) (b\<lparr>a_dirty := dirty, a_world := lease_destroy l' (a_world b)\<rparr>)" for l'
      unfolding h(4) by (intro attach_alike_update assms)
    with Unready show ?thesis by (simp add: attach_prepared_def attach_failed_alike)
  next
    case (Ready c dirty)
    with h assms show ?thesis
      by (auto simp: attach_prepared_def turn_alike_def dispatch_idle attach_alike_def)
  qed (use assms in \<open>simp add: attach_prepared_def turn_alike_def\<close>)
qed

lemma attach_endpoint_alike:
  assumes "attach_alike a b"
  shows "turn_alike (attach_endpoint env params r gucs startup ep a) (attach_endpoint env params r gucs startup ep b)"
proof -
  have same: "a_world a = a_world b" "a_dirty a = a_dirty b" using assms by (simp_all add: attach_alike_def)
  obtain k p w where rp: "resolve_pool env params ep (a_world b) = (k, p, w)" by (metis prod_cases3)
  obtain res t p1 where co: "checkout (e_ops env) (e_clock env) (e_connect env) (w_tick w) p = (res, t, p1)" by (metis prod_cases3)
  have al: "attach_alike (a\<lparr>a_world := w\<lparr>w_pools := (w_pools w)(k \<mapsto> p1), w_tick := t\<rparr>\<rparr>)
      (b\<lparr>a_world := w\<lparr>w_pools := (w_pools w)(k \<mapsto> p1), w_tick := t\<rparr>\<rparr>)"
    using assms by (rule attach_alike_update)
  from attach_failed_alike [OF al] attach_prepared_alike [OF al] al show ?thesis
    by (cases res) (simp_all add: attach_endpoint_def rp co turn_alike_def same)
qed

lemma attach_turn_alike:
  assumes "attach_alike a b"
  shows "turn_alike (attach_turn env params r gucs startup hint a) (attach_turn env params r gucs startup hint b)"
proof -
  obtain h where h: "a_hooks a = Some h" "idle_hooks h" "a_hooks b = None" using assms by (auto simp: attach_alike_def)
  obtain i where i: "dispatch_upstream env params hint (a_hooks b) = (i, None)" by (metis h(3) dispatch_none(3) prod.collapse)
  have ah: "a\<lparr>a_hooks := Some h\<rparr> = a" "b\<lparr>a_hooks := None\<rparr> = b" using h by simp_all
  have ds: "a_ds a = a_ds b" using assms by (simp add: attach_alike_def)
  show ?thesis
    using attach_endpoint_alike [OF assms] assms h(1,3) i [unfolded h(3)]
    by (auto simp: attach_turn_def dispatch_idle [OF h(2)] ah turn_alike_def ds Let_def attach_alike_update split: option.splits)
qed

lemma attach_loop_alike:
  "attach_alike a b \<Longrightarrow> attach_loop n env params r gucs startup hint a = (res, a') \<Longrightarrow>
    \<exists>b'. attach_loop n env params r gucs startup hint b = (res, b') \<and> attach_alike a' b'"
proof (induction n arbitrary: a b)
  case 0
  then show ?case by (auto simp: attach_alike_def)
next
  case (Suc n)
  obtain x a1 where ta: "attach_turn env params r gucs startup hint a = (x, a1)" by fastforce
  with attach_turn_alike [OF Suc.prems(1)] obtain b1 where
    tb: "attach_turn env params r gucs startup hint b = (x, b1)" "attach_alike a1 b1"
    unfolding turn_alike_def by (metis fst_conv prod.collapse snd_conv)
  with ta Suc show ?case by (cases x) auto
qed

lemma ensure_attached_alike:
  assumes "attach_alike a b" "ensure_attached env params r gucs startup hint a = (res, a')"
  shows "\<exists>b'. ensure_attached env params r gucs startup hint b = (res, b') \<and> attach_alike a' b'"
proof -
  have "a_lease b = a_lease a" using assms(1) by (simp add: attach_alike_def)
  with assms attach_loop_alike [OF assms(1)] show ?thesis by (auto simp: ensure_attached_def split: option.splits)
qed

section \<open>The client arm\<close>

lemma alike_fields:
  assumes "alike p q"
  shows "pm_ds p = pm_ds q" "pm_lease p = pm_lease q" "pm_endpoint p = pm_endpoint q" "pm_fed p = pm_fed q"
    "pm_extended p = pm_extended q" "pm_frontend p = pm_frontend q" "pm_backend p = pm_backend q" "pm_hygiene p = pm_hygiene q"
    "pm_registry p = pm_registry q" "pm_gucs p = pm_gucs q" "pm_dirty p = pm_dirty q" "pm_swallow p = pm_swallow q"
    "pm_draining p = pm_draining q" "pm_attached p = pm_attached q" "pm_world p = pm_world q"
    "lease_status p = lease_status q"
  using assms by (auto elim!: alikeE simp: lease_status_def)

lemma alike_update [intro]:
  assumes "alike p q"
  shows "alike (p\<lparr>pm_ds := d\<rparr>) (q\<lparr>pm_ds := d\<rparr>)" "alike (p\<lparr>pm_lease := slot\<rparr>) (q\<lparr>pm_lease := slot\<rparr>)"
    "alike (p\<lparr>pm_endpoint := e\<rparr>) (q\<lparr>pm_endpoint := e\<rparr>)" "alike (p\<lparr>pm_fed := n\<rparr>) (q\<lparr>pm_fed := n\<rparr>)"
    "alike (p\<lparr>pm_extended := b\<rparr>) (q\<lparr>pm_extended := b\<rparr>)" "alike (p\<lparr>pm_frontend := u\<rparr>) (q\<lparr>pm_frontend := u\<rparr>)"
    "alike (p\<lparr>pm_backend := u\<rparr>) (q\<lparr>pm_backend := u\<rparr>)" "alike (p\<lparr>pm_hygiene := hy\<rparr>) (q\<lparr>pm_hygiene := hy\<rparr>)"
    "alike (p\<lparr>pm_registry := r\<rparr>) (q\<lparr>pm_registry := r\<rparr>)" "alike (p\<lparr>pm_gucs := g\<rparr>) (q\<lparr>pm_gucs := g\<rparr>)"
    "alike (p\<lparr>pm_dirty := b\<rparr>) (q\<lparr>pm_dirty := b\<rparr>)" "alike (p\<lparr>pm_swallow := b\<rparr>) (q\<lparr>pm_swallow := b\<rparr>)"
    "alike (p\<lparr>pm_draining := b\<rparr>) (q\<lparr>pm_draining := b\<rparr>)" "alike (p\<lparr>pm_attached := b\<rparr>) (q\<lparr>pm_attached := b\<rparr>)"
    "alike (p\<lparr>pm_world := w\<rparr>) (q\<lparr>pm_world := w\<rparr>)"
  using assms by (elim alikeE; simp add: alikeI)+

lemma send_then_alike:
  assumes "alike p q" "\<And>p q. alike p q \<Longrightarrow> flow_alike (k p) (k' q)"
  shows "flow_alike (send_then m p k) (send_then m q k')"
  using assms(2) [OF alike_update(1) [OF assms(1)]] assms(1)
  by (auto simp: send_then_def alike_fields(1) [OF assms(1)] split: prod.splits bool.splits)

lemma finish_cycle_alike: "alike p q \<Longrightarrow> alike (finish_cycle se p) (finish_cycle se q)"
  by (elim alikeE) (simp add: finish_cycle_def alikeI)

lemma finish_active_cycle_alike: "alike p q \<Longrightarrow> alike (finish_active_cycle se p) (finish_active_cycle se q)"
  by (elim alikeE) (simp add: finish_active_cycle_def finish_cycle_def alikeI)

lemma start_cycle_alike: "alike p q \<Longrightarrow> alike (start_cycle se sql kind p) q"
  by (elim alikeE) (simp add: start_cycle_def with_cycle_def alikeI)

lemma fe_swallow_alike:
  assumes "alike p q"
  shows "phase_alike (fe_swallow se msg p) (fe_swallow se msg q)"
  using assms send_then_alike [OF alike_update(12) [OF assms], of "\<lambda>p. Goes (finish_cycle se p)" "\<lambda>p. Goes (finish_cycle se p)"]
  by (auto simp: fe_swallow_def Let_def alike_fields [OF assms] alike_fields [OF alike_update(12) [OF assms]] finish_cycle_alike)

lemma fe_local_alike:
  assumes "alike p q"
  shows "phase_alike (fe_local se msg p) (fe_local se msg q)"
  using assms
  by (auto simp: fe_local_def Let_def alike_fields [OF assms] intro!: send_then_alike finish_active_cycle_alike
      split: frontend_msg.splits option.splits)

lemma apply_rewrite_None [simp]: "apply_rewrite m None = m"
  by (cases m) simp_all

lemma fe_on_query_alike:
  assumes "alike p q"
  shows "phase_alike (fe_on_query se msg p) (fe_on_query se msg q)"
proof (cases "cycle_input_of msg")
  case (Some input)
  obtain h t where h: "p = dress h t q" "pm_hooks q = None" "idle_hooks h" using assms by (rule alikeE)
  have "alike ((dress h t q)\<lparr>pm_extended := b\<rparr>) (q\<lparr>pm_extended := b\<rparr>)" for b using assms unfolding h(1) by (rule alike_update)
  from start_cycle_alike [OF this] Some h show ?thesis
    by (auto simp: fe_on_query_def Let_def idle_hooks_def query_cycle_new_def take_rewritten_def)
qed (use assms in \<open>simp add: fe_on_query_def\<close>)

lemma fe_registry_alike:
  assumes "alike p q"
  shows "phase_alike (fe_registry se msg p) (fe_registry se msg q)"
  using assms by (auto simp: fe_registry_def alike_fields [OF assms] intro!: send_then_alike split: parse_verdict.splits)

lemma attach_state_alike: "alike p q \<Longrightarrow> attach_alike (pm_attach_state p) (pm_attach_state q)"
  by (auto elim!: alikeE simp: attach_alike_def pm_attach_state_def)

lemma set_attach_state_alike:
  assumes "alike p q" "attach_alike a b"
  shows "alike (pm_set_attach_state a p) (pm_set_attach_state b q)"
proof -
  obtain h t where h: "p = dress h t q" "pm_hooks q = None" using assms(1) by (rule alikeE)
  obtain g where g: "a_hooks a = Some g" "idle_hooks g" "a_hooks b = None" 
    using assms(2) by (auto simp: attach_alike_def)
  have "pm_set_attach_state a p = dress g t (pm_set_attach_state b q)"
    using assms(2) g unfolding h(1) by (simp add: pm_set_attach_state_def dress_def attach_alike_def)
  moreover have "pm_hooks (pm_set_attach_state b q) = None" by (simp add: pm_set_attach_state_def g)
  ultimately show ?thesis using g(2) by auto
qed

lemma fe_attach_alike:
  assumes "alike p q"
  shows "phase_alike (fe_attach se hint msg p) (fe_attach se hint msg q)"
proof -
  note f = alike_fields [OF assms]
  let ?hint = "case hint of Some s \<Rightarrow> Some s | None \<Rightarrow> bind_statement_sql msg (pm_registry q)"
  obtain res a where e: "ensure_attached (se_env se) (se_params se) (pm_registry q) (pm_gucs q) (se_startup se) ?hint (pm_attach_state p) = (res, a)"
    by fastforce
  then obtain b where e': "ensure_attached (se_env se) (se_params se) (pm_registry q) (pm_gucs q) (se_startup se) ?hint (pm_attach_state q) = (res, b)"
    and ab: "attach_alike a b"
    using ensure_attached_alike [OF attach_state_alike [OF assms]] by blast
  have al: "alike (pm_set_attach_state a p) (pm_set_attach_state b q)" using assms ab by (rule set_attach_state_alike)
  then show ?thesis unfolding fe_attach_def f(9,10) Let_def e e' prod.case
    by (cases res; cases "check_parse msg (pm_registry q)") (auto simp: alike_fields(9) [OF al] intro!: alike_update)
qed

lemma fe_hook_alike: "alike p q \<Longrightarrow> phase_alike (fe_hook msg p) (fe_hook msg q)"
  by (auto elim!: alikeE simp: fe_hook_def idle_hooks_def) (auto simp: alike_def idle_hooks_def)

lemma then_phase_alike:
  assumes "phase_alike x y" "\<And>m p q. alike p q \<Longrightarrow> flow_alike (k m p) (k' m q)"
  shows "flow_alike (then_phase x k) (then_phase y k')"
  using assms by (cases x; cases y) auto

lemma drop_broken_lease_alike: "alike p q \<Longrightarrow> alike (drop_broken_lease p) (drop_broken_lease q)"
  by (auto simp: drop_broken_lease_def alike_fields split: option.splits)

lemma answer_lost_alike:
  assumes "alike p q" "\<And>p q. alike p q \<Longrightarrow> flow_alike (k p) (k' q)"
  shows "flow_alike (answer_lost se p k) (answer_lost se q k')"
proof -
  obtain h t where h: "p = dress h t q" "pm_hooks q = None" "idle_hooks h" using assms(1) by (rule alikeE)
  obtain alive sw hk d where s:
    "synthesize_upstream_lost (e_codec (se_env se)) (pm_now se p) (pm_extended q) (pm_swallow q) (Some h) (pm_ds q) = (alive, sw, hk, d)"
    by (metis prod_cases4)
  then obtain g where g: "hk = Some g" "idle_hooks g"
    using h(3) by (auto simp: synthesize_upstream_lost_def Let_def split: prod.splits bool.splits if_splits)
  have s': "synthesize_upstream_lost (e_codec (se_env se)) (pm_now se q) (pm_extended q) (pm_swallow q)
      (None :: 'b session_hooks option) (pm_ds q) = (alive, sw, None, d)"
    using s by (auto simp: synthesize_upstream_lost_def Let_def split: prod.splits bool.splits if_splits)
  let ?q = "pm_tick (q\<lparr>pm_swallow := sw, pm_ds := d\<rparr>)"
  have al: "alike (dress g (t + 1) (q\<lparr>pm_swallow := sw, pm_ds := d\<rparr>)) ?q"
    using h(2) g(2) by (intro alike_tick alikeI) simp_all
  have q: "q\<lparr>pm_swallow := sw, pm_hooks := None, pm_ds := d\<rparr> = q\<lparr>pm_swallow := sw, pm_ds := d\<rparr>" using h(2) by simp
  from assms(2) [OF al] al show ?thesis
    using h(2) by (simp add: answer_lost_def h(1) s [unfolded h(1)] s' g(1) q Let_def)
qed

lemma end_awaiting_alike: "alike p q \<Longrightarrow> alike (end_awaiting p) (end_awaiting q)"
  by (auto simp: end_awaiting_def alike_fields)

lemma upstream_failed_alike:
  assumes "alike p q"
  shows "upstream_failed why p = (Relink, p)" "upstream_failed why q = (Relink, q)"
  using assms by (elim alikeE; simp add: upstream_failed_def dispatch_idle Let_def)+

lemma fe_send_failed_alike:
  assumes "alike p q"
  shows "flow_alike (fe_send_failed se p) (fe_send_failed se q)"
proof -
  have al: "alike (drop_broken_lease p) (drop_broken_lease q)" using assms by (rule drop_broken_lease_alike)
  have "flow_alike (Goes ((end_awaiting p)\<lparr>pm_frontend := pm_frontend p + 1\<rparr>)) (Goes ((end_awaiting q)\<lparr>pm_frontend := pm_frontend q + 1\<rparr>))"
    if "alike p q" for p q :: "('a, 'b) pump"
    using end_awaiting_alike [OF that] by (auto simp: alike_fields [OF that])
  from answer_lost_alike [OF al this] al show ?thesis
    by (auto simp: fe_send_failed_def upstream_failed_alike [OF assms] Let_def alike_fields [OF al])
qed

lemma fe_forward_alike:
  assumes "alike p q"
  shows "flow_alike (fe_forward se msg p) (fe_forward se msg q)"
proof -
  let ?aw = "\<lambda>p. if starts_response msg then p\<lparr>pm_hygiene := (pm_hygiene p)\<lparr>awaiting_response := True\<rparr>\<rparr> else p"
  have al: "alike (?aw p) (?aw q)" using assms by (auto simp: alike_fields [OF assms])
  note f = alike_fields [OF al]
  show ?thesis
  proof (cases "pm_lease (?aw q)")
    case None
    with f(2) have "pm_lease (?aw p) = None" by simp
    with None show ?thesis unfolding fe_forward_def Let_def by simp
  next
    case (Some g)
    obtain failed c where s: "(if triggers_response msg then conn_send (e_ops (se_env se)) msg (h_conn g)
        else conn_feed (e_ops (se_env se)) msg (h_conn g)) = (failed, c)" by fastforce
    have al': "alike ((?aw p)\<lparr>pm_lease := Some (set_h_conn c g)\<rparr>) ((?aw q)\<lparr>pm_lease := Some (set_h_conn c g)\<rparr>)"
      using al by (rule alike_update)
    have "flow_alike (fe_forward se msg p) (fe_forward se msg q) \<longleftrightarrow>
        flow_alike
          (if failed = None then Goes ((?aw p)\<lparr>pm_lease := Some (set_h_conn c g), pm_fed := pm_fed (?aw p) + 1, pm_frontend := pm_frontend (?aw p) + 1\<rparr>)
           else fe_send_failed se ((?aw p)\<lparr>pm_lease := Some (set_h_conn c g)\<rparr>))
          (if failed = None then Goes ((?aw q)\<lparr>pm_lease := Some (set_h_conn c g), pm_fed := pm_fed (?aw q) + 1, pm_frontend := pm_frontend (?aw q) + 1\<rparr>)
           else fe_send_failed se ((?aw q)\<lparr>pm_lease := Some (set_h_conn c g)\<rparr>))"
      unfolding fe_forward_def Let_def f(2) Some option.case s prod.case by simp
    with fe_send_failed_alike [OF al'] alike_update(6) [OF alike_update(4) [OF al']] show ?thesis
      by (simp add: f(4,6))
  qed
qed

lemma client_message_alike:
  assumes "alike p q"
  shows "flow_alike (client_message se msg p) (client_message se msg q)"
  unfolding client_message_def Let_def
  by (intro then_phase_alike fe_swallow_alike fe_local_alike fe_on_query_alike fe_registry_alike fe_attach_alike fe_hook_alike
      fe_forward_alike assms)

section \<open>The other arms\<close>

lemma be_track_alike:
  assumes "alike p q"
  shows "alike (be_track se m g p) (be_track se m g q)"
proof -
  have "alike (p\<lparr>pm_lease := slot\<rparr>) (q\<lparr>pm_lease := slot\<rparr>)" for slot using assms by (rule alike_update)
  with assms show ?thesis unfolding be_track_def Let_def
    by (cases m) (auto simp: alike_fields [OF assms] intro!: alike_update)
qed

lemma be_rows_alike:
  assumes "alike p q"
  shows "\<exists>p'. be_rows m p = Ret (Some m, p') \<and> be_rows m q = Ret (Some m, q) \<and> alike p' q"
proof -
  obtain h t where h: "p = dress h t q" "pm_hooks q = None" "idle_hooks h" using assms by (rule alikeE)
  then have off: "\<not> sh_wants_rows h" "\<not> sh_adjust_counts h" by (simp_all add: idle_hooks_def)
  have "\<exists>p'. be_rows m p = Ret (Some m, p') \<and> alike p' q"
    by (cases m) (simp_all add: be_rows_def h run_row_hook_def adjust_complete_def count_row_def off Let_def alikeI)
  with h show ?thesis by (simp add: be_rows_def)
qed

lemma be_detach_alike: "alike p q \<Longrightarrow> alike (be_detach se status p) (be_detach se status q)"
  by (elim alikeE) (auto simp: be_detach_def detach_if_idle_def Let_def intro!: alikeI split: option.splits)

lemma take_report_alike:
  assumes "alike p q"
  shows "take_report se m q = (None, q)" "alike (snd (take_report se m p)) q"
  using assms by (elim alikeE; auto simp: take_report_def alike_tick alikeI split: prod.splits)+

lemma give_report_alike: "alike p q \<Longrightarrow> alike (give_report rep p) (give_report None q)"
  by (elim alikeE) (auto simp: give_report_def alikeI split: option.splits)

lemma be_forward_alike:
  assumes "alike p q"
  shows "flow_alike (be_forward se status m p) (be_forward se status m q)"
proof -
  obtain rep p1 where t: "take_report se m p = (rep, p1)" by fastforce
  with take_report_alike [OF assms, of se m] have al: "alike p1 q" by simp
  show ?thesis unfolding be_forward_def t take_report_alike(1) [OF assms] prod.case Let_def
  proof (rule send_then_alike [OF al])
    fix p q :: "('a, 'b) pump"
    assume a: "alike p q"
    have g: "alike (give_report rep (p\<lparr>pm_backend := pm_backend p + 1\<rparr>)) (give_report None (q\<lparr>pm_backend := pm_backend q + 1\<rparr>))"
      using a by (intro give_report_alike) (auto simp: alike_fields [OF a])
    from be_detach_alike [OF g] g
    show "flow_alike (if is_ready m \<and> pm_draining (give_report rep (p\<lparr>pm_backend := pm_backend p + 1\<rparr>))
          then Ends ClientGone (give_report rep (p\<lparr>pm_backend := pm_backend p + 1\<rparr>))
          else if is_ready m then Goes (be_detach se status (give_report rep (p\<lparr>pm_backend := pm_backend p + 1\<rparr>)))
          else Goes (give_report rep (p\<lparr>pm_backend := pm_backend p + 1\<rparr>)))
        (if is_ready m \<and> pm_draining (give_report None (q\<lparr>pm_backend := pm_backend q + 1\<rparr>))
          then Ends ClientGone (give_report None (q\<lparr>pm_backend := pm_backend q + 1\<rparr>))
          else if is_ready m then Goes (be_detach se status (give_report None (q\<lparr>pm_backend := pm_backend q + 1\<rparr>)))
          else Goes (give_report None (q\<lparr>pm_backend := pm_backend q + 1\<rparr>)))"
      by (simp add: alike_fields(13) [OF g])
  qed
qed

lemma be_hook_alike:
  assumes "alike p q"
  shows "flow_alike (be_hook se status m p) (be_hook se status m q)"
proof -
  obtain h t where h: "p = dress h t q" "pm_hooks q = None" "idle_hooks h" using assms by (rule alikeE)
  then have "be_hook se status m p = be_forward se status m p" "be_hook se status m q = be_forward se status m q"
    by (auto simp: be_hook_def idle_hooks_def)
  with be_forward_alike [OF assms] show ?thesis by simp
qed

lemma upstream_message_alike:
  assumes "alike p q"
  shows "flow_alike (upstream_message se m g p) (upstream_message se m g q)"
proof -
  obtain p' where r: "be_rows m (be_track se m g p) = Ret (Some m, p')" "be_rows m (be_track se m g q) = Ret (Some m, be_track se m g q)"
    and al: "alike p' (be_track se m g q)" using be_rows_alike [OF be_track_alike [OF assms]] by metis
  from be_hook_alike [OF al] show ?thesis by (simp add: upstream_message_def r)
qed

lemma upstream_eof_alike:
  assumes "alike p q"
  shows "flow_alike (upstream_eof se p) (upstream_eof se q)"
proof -
  have al: "alike (drop_broken_lease p) (drop_broken_lease q)" using assms by (rule drop_broken_lease_alike)
  have "flow_alike (Goes (end_awaiting p)) (Goes (end_awaiting q))" if "alike p q" for p q :: "('a, 'b) pump"
    using end_awaiting_alike [OF that] by simp
  from answer_lost_alike [OF al this] end_awaiting_alike [OF al] show ?thesis
    by (simp add: upstream_eof_def upstream_failed_alike [OF assms] Let_def alike_fields [OF al])
qed

lemma on_conn_alike: "alike p q \<Longrightarrow> alike (on_conn f p) (on_conn f q)"
  by (auto simp: on_conn_def alike_fields)

lemma pump_event_alike:
  assumes "alike p q"
  shows "flow_alike (pump_event se e p) (pump_event se e q)"
proof (cases e)
  case UpstreamReady
  with assms show ?thesis
    by (auto simp: upstream_arm_def alike_fields(2) [OF assms] intro!: upstream_eof_alike upstream_message_alike
        split: option.splits list.splits recv.splits)
next
  case CancelSignal
  with assms show ?thesis by (auto simp: cancel_arm_def alike_fields(2) [OF assms] split: option.splits)
next
  case ShutdownSignal
  with assms show ?thesis by (auto simp: shutdown_arm_def alike_fields [OF assms])
qed (use assms in \<open>auto simp: client_message_alike on_conn_alike\<close>)

lemma pump_run_alike: "alike p q \<Longrightarrow> flow_alike (pump_run se es p) (pump_run se es q)"
proof (induction es arbitrary: p q)
  case (Cons e es)
  from pump_event_alike [OF Cons.prems, of se e] Cons.IH show ?case
    by (cases "pump_event se e p"; cases "pump_event se e q") auto
qed simp

section \<open>The no-op interceptor\<close>

lemma map_flow_eq_Goes: "map_flow f x = Goes y \<longleftrightarrow> (\<exists>z. x = Goes z \<and> f z = y)"
  by (cases x) auto

lemma bare_lease: "pm_lease (bare p) = pm_lease p"
  by (simp add: bare_def)

lemma session_end_alike: "alike p q \<Longrightarrow> session_end se reason p = session_end se reason q"
  by (cases reason; cases "pm_lease q") (simp_all add: session_end_def alike_fields)

lemma flow_alike_bare: "flow_alike f g \<Longrightarrow> map_flow bare f = map_flow bare g"
  by (cases f; cases g) (auto simp: alike_bare)

lemma pump_new_alike:
  "alike (pump_new se d slot (Some (session_hooks_new now noop_interceptor)) att w) (pump_new se d slot None att w)"
proof -
  let ?h = "session_hooks_new now noop_interceptor"
  have "idle_hooks ?h" by (auto simp: idle_hooks_def session_hooks_new_def noop_interceptor_def default_hooks_def)
  moreover have "pump_new se d slot (Some ?h) att w = dress ?h 0 (pump_new se d slot None att w)"
    by (simp add: pump_new_def dress_def)
  moreover have "pm_hooks (pump_new se d slot (None :: unit session_hooks option) att w) = None" by (simp add: pump_new_def)
  ultimately show ?thesis by (simp only: alikeI)
qed

text \<open>
  Property C17. The no-op interceptor is equivalent to none. Whatever the client, the servers, cancel and shutdown
  signals do, however the clock advances and whatever becomes of each connect, a session under \<^verbatim>\<open>NoopInterceptor\<close> and a session without
  an interceptor go through the same states - every message to the client and to the servers, lease, pools, registry and
  counters - except for the hooks' own telemetry and its clock readings, and they end alike, leaving the same pools and the
  same client connection behind.
\<close>

theorem noop_equals_none:
  "map_flow bare (pump_run se es (pump_new se d slot (Some (session_hooks_new now noop_interceptor)) att w)) =
      map_flow bare (pump_run (se :: 's session_env) es (pump_new se d slot None att w)) \<and>
    (\<forall>reason p. pump_run se es (pump_new se d slot (Some (session_hooks_new now noop_interceptor)) att w) = Ends reason p \<longrightarrow>
      (\<exists>q :: ('s, unit) pump. pump_run se es (pump_new se d slot None att w) = Ends reason q \<and>
        session_end se reason p = session_end se reason q))"
proof (intro conjI allI impI)
  let ?noop = "pump_new se d slot (Some (session_hooks_new now noop_interceptor)) att w" and ?none = "pump_new se d slot (None :: unit session_hooks option) att w"
  have al: "flow_alike (pump_run se es ?noop) (pump_run se es ?none)" using pump_new_alike by (rule pump_run_alike)
  then show "map_flow bare (pump_run se es ?noop) = map_flow bare (pump_run se es ?none)" by (rule flow_alike_bare)
  fix reason p
  assume "pump_run se es ?noop = Ends reason p"
  with al obtain q where "pump_run se es ?none = Ends reason q" "alike p q" by (cases "pump_run se es ?none") auto
  with session_end_alike show "\<exists>q. pump_run se es ?none = Ends reason q \<and> session_end se reason p = session_end se reason q" by blast
qed

definition noting_ops :: "frontend_msg list client_ops" where
  "noting_ops = \<lparr>op_send = (\<lambda>w m. Inr (w @ [m], [])), op_feed = (\<lambda>w m. Inr (w @ [m], [])), op_cancel = (\<lambda>w. (w, [])),
     op_simple_query = (\<lambda>c q. (Done (), c)), op_show_error = (\<lambda>e. []), op_window = (\<lambda>c. Suc (length (inbox c)))\<rparr>"

definition noting_se :: "frontend_msg list session_env" where
  "noting_se = \<lparr>se_env = \<lparr>e_ops = noting_ops, e_clock = (\<lambda>n. 3 * n),
       e_connect = (\<lambda>a t. Done \<lparr>wire = [], inbox = [], at_eof = False, process_id = 1, server_parameters = Map.empty, transaction_status = Idle\<rparr>),
       e_codec = \<lparr>err_into = (\<lambda>e. []), err_from = (\<lambda>f. error_info_new [] [] [])\<rparr>, e_route = sample_route,
       e_pool_config = pool_config_default\<lparr>pool_mode := TransactionMode\<rparr>\<rparr>,
     se_params = sample_params, se_startup = Map.empty, se_schedule = \<lparr>sch_order = (\<lambda>legs. legs), sch_abort = (\<lambda>leg. NotStarted)\<rparr>,
     se_cycle_clock = (\<lambda>n. 7 * n)\<rparr>"

definition noting_pump :: "unit session_hooks option \<Rightarrow> (frontend_msg list, unit) pump" where
  "noting_pump hooks = pump_new noting_se sample_downstream None hooks False \<lparr>w_pools = Map.empty, w_tick = 0\<rparr>"

lemma noting_pump_runs:
  "\<exists>q h. pump_run noting_se [ClientMsg (FQuery ''SELECT 1'')] (noting_pump None) = Goes q \<and> pm_lease q = Some h \<and>
     wire (h_conn h) = [FQuery ''SELECT 1'']"
  by (simp add: noting_pump_def noting_se_def noting_ops_def sample_params_def sample_route_def sample_endpoint_def
      sample_downstream_def pump_new_def h_conn_def pump_simps pool_simps)

theorem noop_equals_none_witness:
  "\<exists>p h. pump_run noting_se [ClientMsg (FQuery ''SELECT 1'')] (noting_pump (Some (session_hooks_new 0 noop_interceptor))) = Goes p \<and>
     pm_lease p = Some h \<and> wire (h_conn h) = [FQuery ''SELECT 1'']"
proof -
  obtain q h where q: "pump_run noting_se [ClientMsg (FQuery ''SELECT 1'')] (noting_pump None) = Goes q" "pm_lease q = Some h"
    "wire (h_conn h) = [FQuery ''SELECT 1'']" using noting_pump_runs by blast
  from noop_equals_none [of noting_se "[ClientMsg (FQuery ''SELECT 1'')]" sample_downstream None 0 False "\<lparr>w_pools = Map.empty, w_tick = 0\<rparr>"] q(1)
  obtain p where p: "pump_run noting_se [ClientMsg (FQuery ''SELECT 1'')] (noting_pump (Some (session_hooks_new 0 noop_interceptor))) = Goes p"
    "bare p = bare q" unfolding noting_pump_def by (auto simp: map_flow_eq_Goes)
  from p(2) have "pm_lease p = pm_lease q" by (metis bare_lease)
  with p q show ?thesis by auto
qed

end
