(* ===== verification/Spec2Isabelle.thy ===== *)
theory Spec2Isabelle
  imports Pool_System Startup Cli Gateway Erased Ownership Noop
begin

text \<open>
  A verification development of pgferry, a PostgreSQL proxy that terminates the client's session,
  lets interceptors decide what happens to every message, and forwards what remains over pooled
  upstream connections.

  \<^bold>\<open>The program.\<close> File names below are relative to \<^verbatim>\<open>src/crates/pgferry/src\<close>. A client connects to the
  accept loop (\<^verbatim>\<open>proxy.rs\<close>), which spends one of its client slots on it and spawns a session
  (\<^verbatim>\<open>session.rs\<close>). The session negotiates TLS, answers a cancel request (\<^verbatim>\<open>cancel.rs\<close>), or greets the
  client; a client of the admin database gets the console of \<^verbatim>\<open>admin.rs\<close>. Every other session is driven by
  the pump (\<^verbatim>\<open>session.rs\<close>, function \<^verbatim>\<open>pump\<close>), which selects over the client's messages, which go through the
  hooks of an interceptor (\<^verbatim>\<open>intercept.rs\<close>), the messages of a leased connection of the pool
  (\<^verbatim>\<open>pool.rs\<close>), cancel signals and the shutdown signal. Attaching a lease (\<^verbatim>\<open>ensure_attached\<close> of
  \<^verbatim>\<open>session.rs\<close>) asks the interceptor for an endpoint (\<^verbatim>\<open>routing.rs\<close>), checks a connection out, opening one
  if need be (\<^verbatim>\<open>upstream.rs\<close>), and replays the session's settings and prepared statements on it; a cycle that
  the interceptor scatters runs on several endpoints and its results are merged (\<^verbatim>\<open>scatter.rs\<close>). The
  metrics endpoint (\<^verbatim>\<open>metrics.rs\<close>) and the session registry (\<^verbatim>\<open>runtime.rs\<close>) sit beside it. The binary
  (\<^verbatim>\<open>src/crates/pgferry-bin/src/main.rs\<close>) turns the command line, the environment and a configuration file into a
  proxy and runs it until a signal; \<^verbatim>\<open>src/crates/pgferry/examples/gateway.rs\<close> is a gateway written against the
  interceptor interface.

  \<^bold>\<open>The theories\<close>, in the order in which they build on each other:

  \<^item> \<open>Prelude\<close>: machine integers, the string functions of the standard library the crate calls,
    the outcome types, the generic locales of systems driven by steps or by events, and shared lemmas.
  \<^item> \<open>Wire\<close>: the messages of the wire protocol and their classification in \<^verbatim>\<open>session.rs\<close>; pgwire's upstream
    client is a record of operations over an opaque connection state, the argument \<open>'s client_ops\<close> of
    everything that talks to a server.
  \<^item> \<open>Config\<close>, \<open>Routing\<close>, \<open>Rows\<close>, \<open>Intercept\<close>, \<open>Erased\<close>, \<open>Builtin\<close>: \<^verbatim>\<open>config.rs\<close>, \<^verbatim>\<open>routing.rs\<close>,
    \<^verbatim>\<open>intercept.rs\<close> and \<^verbatim>\<open>intercept/builtin.rs\<close>. \<open>Routing\<close> holds the endpoint group with its failure counters, the
    failover and read/write routers, and the comment stripping classifier; \<open>Rows\<close> the in-place edits of a data row;
    \<open>Intercept\<close> the trait and the cycle telemetry; \<open>Erased\<close> its type-erased form with the downcasts.
  \<^item> \<open>Session_State\<close>: session parameters, the prepared statement registry, its replay, and the helpers of a query
    cycle (\<^verbatim>\<open>session.rs\<close>).
  \<^item> \<open>Pool\<close>, \<open>Pool_System\<close>, \<open>Ledger\<close>: \<^verbatim>\<open>pool.rs\<close>. \<open>Pool\<close> has its operations as the code runs them (checkout
    with its probe, sanitising, check-in, detach, the sweeper, the metrics); \<open>Pool_System\<close> an interleaving semantics of
    a pool under many concurrent sessions, in whose steps every operation decomposes; \<open>Ledger\<close> the contract that
    all ways of giving a lease back share.
  \<^item> \<open>Tls\<close>, \<open>Upstream\<close>: loading certificates and keys, the upstream connector and its verifiers, and opening a
    connection (\<^verbatim>\<open>proxy.rs\<close>, \<^verbatim>\<open>session.rs\<close>, \<^verbatim>\<open>upstream.rs\<close>).
  \<^item> \<open>Attach\<close>, \<open>Scatter\<close>, \<open>Scatter_Laws\<close>: attaching and detaching (\<^verbatim>\<open>session.rs\<close>) and scatter-gather (\<^verbatim>\<open>scatter.rs\<close>).
  \<^item> \<open>Pump\<close>, \<open>Pump_Invariant\<close>, \<open>Pump_Laws\<close>, \<open>Ownership\<close>, \<open>Noop\<close>: the pump with one function per phase of an arm; the locale
    that reduces an invariant of whole sessions to laws on the few operations that touch pools and leases; its
    instances for permits and for the identity connections are opened with; and the comparison of a session
    under the no-op interceptor with one that has none.
  \<^item> \<open>Runtime\<close>, \<open>Metrics\<close>, \<open>Admin\<close>: \<^verbatim>\<open>runtime.rs\<close> with \<^verbatim>\<open>cancel.rs\<close>, \<^verbatim>\<open>metrics.rs\<close>, \<^verbatim>\<open>admin.rs\<close>.
  \<^item> \<open>Startup\<close>: \<^verbatim>\<open>run_session\<close> and \<^verbatim>\<open>run_session_ready\<close> of \<^verbatim>\<open>session.rs\<close>, from the first message to the clean-up.
  \<^item> \<open>Proxy\<close>, \<open>Server\<close>: \<^verbatim>\<open>proxy.rs\<close>, the builder and the accept loop, and the server handle with its tasks.
  \<^item> \<open>Gateway\<close>, \<open>Cli\<close>: the example gateway and the binary.

  \<^bold>\<open>What the lemmas show.\<close>

  \<^item> \<^emph>\<open>Resources.\<close> Permits and connections are conserved by every interleaving of pool operations and
    the number of connections never exceeds \<open>max_size\<close> (\<open>permits_conserved\<close>,
    \<open>connections_bounded\<close>); the operations of \<open>Pool\<close> refine those steps
    (\<open>operations_refine_steps\<close>); attaching accounts for the permits it took
    (\<open>attach_accounts_for_permits\<close>), the pump gives all of them back whatever ends it
    (\<open>session_returns_every_permit\<close>), and a whole connection leaves neither a lease, a cancel
    entry nor a session behind (\<open>connection_leaves_no_trace\<close>). The accept loop conserves its client
    slots (\<open>client_slots_conserved\<close>) and its drain ends (\<open>drain_terminates\<close>); a graceful shutdown stops
    every task (\<open>graceful_shutdown_completes\<close>).
  \<^item> \<^emph>\<open>Isolation.\<close> A session only ever holds connections that were opened for its own user and database
    (\<open>sessions_use_own_connections\<close>); which certificates protect them is \<open>upstream_tls_policy\<close>; cancel requests reach
    only the session they name.
  \<^item> \<^emph>\<open>Hygiene.\<close> Sanitising brings a server back to its neutral state (\<open>sanitize_restores_neutral\<close>)
    and only neutral connections are parked and handed out (\<open>checkin_parks_neutral\<close>,
    \<open>checkout_hands_out_neutral\<close>, \<open>detach_keeps_pool_clean\<close>).
  \<^item> \<^emph>\<open>The protocol.\<close> A passthrough session forwards every frontend message and delivers every backend
    message in order; a denied statement never reaches the server; after an error in the extended
    protocol everything up to the next Sync is swallowed; a shutdown lets the current cycle finish; a
    scattered cycle delivers each leg's rows exactly once and one merged completion. The no-op interceptor
    is equivalent to none (\<open>noop_equals_none\<close>), the type-erased interface to the typed one (\<open>erasure_sound\<close>), and the
    example gateway masks the rows it forwards (\<open>gateway_masks_rows\<close>).
  \<^item> \<^emph>\<open>Data.\<close> Row edits keep the framing of a data row, encode and decode are inverse, the registry of
    prepared statements implements a finite map and is replayed completely, quoting of session
    parameters and metric labels can be undone.
  \<^item> \<^emph>\<open>Availability.\<close> Failover reaches a live endpoint within the attempts it allows itself, an endpoint is
    dead after exactly the configured number of consecutive failures.
  \<^item> \<^emph>\<open>Divergences.\<close> Some theorems pin down behaviour that differs from the documentation, such as
    \<open>detach_parks_unread_messages\<close>, \<open>stale_copy_mark_blocks_shutdown\<close>,
    \<open>startup_parameters_outlive_session\<close>, \<open>high_threshold_exhausts_attempts\<close> and \<open>abrupt_shutdown_orphans\<close>.

  \<^bold>\<open>Interfaces.\<close> Locales state what one component may rely on in another. Prelude: \<open>transition_system\<close> (an
  invariant of a step relation), \<open>event_system\<close> (the same for a component driven by events, and a sublocale of it) and
  \<open>terminating_system\<close> (steps that use up a measure); they are interpreted on the cancel router, the endpoint group, the
  accept loop and its drain, and the server. \<open>health_tracker\<close> (Routing): what failover needs of an endpoint group.
  \<open>statement_store\<close> (Session_State): what replay needs of the registry. \<open>lease_return\<close> (Ledger): what the session needs of
  every way to return a lease. \<open>session_invariant\<close> (Pump_Invariant): what makes a property of pools, lease and
  downstream an invariant of whole sessions, interpreted for permits (Pump_Laws) and for identities
  (Ownership). Each is interpreted on the model's own definitions.

  \<^bold>\<open>Modelling decisions.\<close>

  \<^item> A \<^verbatim>\<open>String\<close> is the list of its UTF-8 bytes; whitespace and case conversions are the ASCII ones.
    Durations and instants are natural numbers of nanoseconds, and the clock is a function from a tick
    counter that the operations thread, so that two reads may differ and nothing else is assumed of it.
  \<^item> Awaiting is \<open>('e, 'a) io\<close>: a value, an error, or \<open>Blocked\<close> when nothing more arrives; a
    \<^verbatim>\<open>timeout\<close> turns \<open>Blocked\<close> into an elapsed error. Code that can panic returns
    \<open>'a outcome\<close>.
  \<^item> Integers keep their width where the code relies on it: counters of the pool's metrics and the failure
    counters, row framing lengths and field counts, process ids, and the sum of merged aggregates.
  \<^item> Maps that the code iterates are association lists, so that an order is explicit; the legs of a
    scatter run in the completion order given by a schedule, over which the theorems quantify.
  \<^item> The session loop and the pool's checkout loop recurse on inputs that shrink (the events still to
    come, the idle list), so no fuel is involved; the only bounds are the code's own, such as the number of
    attach attempts.
  \<^item> What servers do is stated as named hypotheses on \<open>'s client_ops\<close> (\<open>server_laws\<close>,
    \<open>hygiene_truthful\<close>, \<open>set_is_local\<close>, \<open>logs\<close>, \<open>accepts\<close>) and instantiated by
    concrete servers in the witnesses.

  \<^bold>\<open>Not modelled.\<close> What lies inside pgwire, rustls, tokio, clap, toml and regex: authentication and the handshake
  messages, the TLS protocol, sockets, parsing of arguments of the binary, of TOML, of socket addresses and of
  regular expressions. They are parameters or inputs of the model. Logging and the crate's facade
  (\<^verbatim>\<open>lib.rs\<close>, re-exports) are absent.
\<close>

end
